(* ===== verification/Sox_Prelude.thy ===== *)
theory Sox_Prelude
  imports Main "HOL-Library.Word" "HOL-Library.Signed_Division"
begin

text \<open>
  Shared vocabulary of the TinySox development: the machine types of the C++ sources, the
  two-byte loads and stores behind \<open>memcpy\<close>, \<open>htons\<close> and \<open>ntohs\<close>, the copy of a byte range
  into a buffer, and the chaining of steps that may end a function early.  Nothing here is
  specific to one component.
\<close>

section \<open>Machine types\<close>

type_synonym byte = "8 word"
type_synonym u16 = "16 word"
type_synonym u64 = "64 word"
type_synonym bytes = "byte list"

text \<open>
  \<open>buff_simps\<close> collects what is known about writes into byte buffers, \<open>step_simps\<close> the
  equations that run a chain of early-return steps.
\<close>

named_theorems buff_simps
named_theorems step_simps

section \<open>Two-byte integers in memory\<close>

text \<open>
  The sources move ports between \<open>uint16_t\<close> and byte buffers with \<open>memcpy\<close> and convert with
  \<open>htons\<close> and \<open>ntohs\<close>, so what they compute depends on the byte order of the host.  The host
  order is a parameter of every definition that depends on it.
\<close>

datatype endian = LittleEndian | BigEndian

definition swap16 :: "u16 \<Rightarrow> u16" where
  "swap16 x = word_of_nat (unat x mod 256 * 256 + unat x div 256)"

definition load16 :: "endian \<Rightarrow> byte \<Rightarrow> byte \<Rightarrow> u16" where
  "load16 e b0 b1 =
     (case e of LittleEndian \<Rightarrow> word_of_nat (unat b1 * 256 + unat b0)
      | BigEndian \<Rightarrow> word_of_nat (unat b0 * 256 + unat b1))"

definition store16 :: "endian \<Rightarrow> u16 \<Rightarrow> bytes" where
  "store16 e x =
     (let lo = word_of_nat (unat x mod 256); hi = word_of_nat (unat x div 256)
      in case e of LittleEndian \<Rightarrow> [lo, hi] | BigEndian \<Rightarrow> [hi, lo])"

definition htons :: "endian \<Rightarrow> u16 \<Rightarrow> u16" where
  "htons e x = (case e of LittleEndian \<Rightarrow> swap16 x | BigEndian \<Rightarrow> x)"

definition ntohs :: "endian \<Rightarrow> u16 \<Rightarrow> u16" where
  "ntohs e x = (case e of LittleEndian \<Rightarrow> swap16 x | BigEndian \<Rightarrow> x)"

text \<open>The network representation of a port, independent of the host.\<close>

definition be16 :: "u16 \<Rightarrow> bytes" where
  "be16 x = [word_of_nat (unat x div 256), word_of_nat (unat x mod 256)]"

definition of_be16 :: "byte \<Rightarrow> byte \<Rightarrow> u16" where
  "of_be16 b0 b1 = word_of_nat (unat b0 * 256 + unat b1)"

lemma unat_byte_bound [simp]: "unat (b :: byte) < 256"
  using unsigned_less [of b] by simp

lemma unat_u16_bound [simp]: "unat (x :: u16) < 65536"
  using unsigned_less [of x] by simp

lemma unat_word_of_nat_byte: "n < 256 \<Longrightarrow> unat (word_of_nat n :: byte) = n"
  by (simp add: unat_of_nat)

lemma unat_word_of_nat_u16: "n < 65536 \<Longrightarrow> unat (word_of_nat n :: u16) = n"
  by (simp add: unat_of_nat)

lemma two_bytes_bound: "unat (b0 :: byte) * 256 + unat (b1 :: byte) < 65536"
  using unat_byte_bound [of b0] unat_byte_bound [of b1] by linarith

lemma u16_split_bounds: "unat (x :: u16) div 256 < 256" "unat x mod 256 < 256"
  using unat_u16_bound [of x] by (auto simp: less_mult_imp_div_less)

lemma unat_of_be16 [simp]: "unat (of_be16 b0 b1) = unat b0 * 256 + unat b1"
  unfolding of_be16_def by (rule unat_word_of_nat_u16 [OF two_bytes_bound])

lemma unat_load16:
  "unat (load16 LittleEndian b0 b1) = unat b1 * 256 + unat b0"
  "unat (load16 BigEndian b0 b1) = unat b0 * 256 + unat b1"
  unfolding load16_def endian.case by (rule unat_word_of_nat_u16 [OF two_bytes_bound])+

lemma be16_of_be16 [simp]: "be16 (of_be16 b0 b1) = [b0, b1]"
  by (simp add: be16_def)

lemma of_be16_split [simp]:
  "of_be16 (word_of_nat (unat x div 256)) (word_of_nat (unat x mod 256)) = x"
  by (simp add: word_unat_eq_iff unat_word_of_nat_byte u16_split_bounds)

lemma length_be16 [simp]: "length (be16 x) = 2"
  by (simp add: be16_def)

lemma length_store16 [simp]: "length (store16 e x) = 2"
  by (simp add: store16_def Let_def split: endian.splits)

lemma unat_swap16: "unat (swap16 x) = unat x mod 256 * 256 + unat x div 256"
proof -
  have "unat x mod 256 * 256 + unat x div 256 < 65536"
    using u16_split_bounds [of x] by linarith
  then show ?thesis
    unfolding swap16_def by (rule unat_word_of_nat_u16)
qed

lemma swap16_swap16 [simp]: "swap16 (swap16 x) = x"
proof -
  have "unat (swap16 (swap16 x)) = unat x"
    using u16_split_bounds [of x] by (simp add: unat_swap16)
  then show ?thesis by (simp add: word_unat_eq_iff)
qed

text \<open>Reading a port as the sources do gives its network value on every host.\<close>

lemma ntohs_load16 [simp]: "ntohs e (load16 e b0 b1) = of_be16 b0 b1"
  by (cases e) (simp_all add: ntohs_def word_unat_eq_iff unat_swap16 unat_load16)

lemma store16_htons [simp]: "store16 e (htons e x) = be16 x"
  using u16_split_bounds [of x]
  by (cases e) (simp_all add: htons_def store16_def be16_def Let_def unat_swap16)

lemma ntohs_htons [simp]: "ntohs e (htons e x) = x"
  by (cases e) (simp_all add: ntohs_def htons_def)

lemma load16_store16 [simp]: "load16 e (store16 e x ! 0) (store16 e x ! Suc 0) = x"
  using u16_split_bounds [of x]
  by (cases e) (simp_all add: word_unat_eq_iff unat_load16 store16_def Let_def unat_word_of_nat_byte)

section \<open>Byte buffers\<close>

text \<open>
  \<open>memcpy(dst + off, src, length src)\<close> on a buffer of known length; the copy stays inside the
  buffer when \<open>off + length src \<le> length dst\<close>, which every use below establishes.
\<close>

definition memcpy_at :: "nat \<Rightarrow> 'a list \<Rightarrow> 'a list \<Rightarrow> 'a list" where
  "memcpy_at off src dst = take off dst @ src @ drop (off + length src) dst"

text \<open>The bytes \<open>[off, off + n)\<close> of an object, or \<open>None\<close> if the read leaves the object.\<close>

definition mem_read :: "nat \<Rightarrow> nat \<Rightarrow> 'a list \<Rightarrow> 'a list option" where
  "mem_read off n xs = (if off + n \<le> length xs then Some (take n (drop off xs)) else None)"

lemma length_memcpy_at [buff_simps]:
  "off + length src \<le> length dst \<Longrightarrow> length (memcpy_at off src dst) = length dst"
  by (simp add: memcpy_at_def)

lemma mem_read_memcpy_same [buff_simps]:
  "off + length src \<le> length dst \<Longrightarrow> mem_read off (length src) (memcpy_at off src dst) = Some src"
  by (simp add: memcpy_at_def mem_read_def)

lemma mem_read_memcpy_below:
  assumes "off + n \<le> off'" and "off' + length src \<le> length dst"
  shows "mem_read off n (memcpy_at off' src dst) = mem_read off n dst"
  using assms by (simp add: memcpy_at_def mem_read_def take_drop min_absorb1)

lemma mem_read_Some_iff: "mem_read off n xs = Some ys \<longleftrightarrow>
    off + n \<le> length xs \<and> ys = take n (drop off xs)"
  by (auto simp: mem_read_def)

lemma take_memcpy_at_0 [buff_simps]:
  "take (length src) (memcpy_at 0 src dst) = src"
  by (simp add: memcpy_at_def)

lemma nth_memcpy_at_0 [buff_simps]: "i < length src \<Longrightarrow> memcpy_at 0 src dst ! i = src ! i"
  by (simp add: memcpy_at_def nth_append)

section \<open>Steps that may end a function early\<close>

text \<open>
  A C++ function with early returns is a chain of steps over a state; a step either ends the
  function with a result (\<open>Inl\<close>) or hands a value to the next one (\<open>Inr\<close>).
\<close>

type_synonym ('s, 'r, 'a) step = "'s \<Rightarrow> ('r + 'a) \<times> 's"

definition bind_step :: "('s, 'r, 'a) step \<Rightarrow> ('a \<Rightarrow> ('s, 'r, 'b) step) \<Rightarrow> ('s, 'r, 'b) step" where
  "bind_step m f s = (case m s of (Inl r, s') \<Rightarrow> (Inl r, s') | (Inr a, s') \<Rightarrow> f a s')"

definition ret_step :: "'a \<Rightarrow> ('s, 'r, 'a) step" where
  "ret_step a s = (Inr a, s)"

definition fail_step :: "'r \<Rightarrow> ('s, 'r, 'a) step" where
  "fail_step r s = (Inl r, s)"

lemma ret_step_simps [simp]: "ret_step a s = (Inr a, s)" "fail_step r s = (Inl r, s)"
  by (simp_all add: ret_step_def fail_step_def)

lemma bind_step_simps [step_simps]:
  "m s = (Inl r, s') \<Longrightarrow> bind_step m f s = (Inl r, s')"
  "m s = (Inr a, s') \<Longrightarrow> bind_step m f s = f a s'"
  by (simp_all add: bind_step_def)

lemma bind_step_Inr_iff:
  "bind_step m f s = (Inr b, s'') \<longleftrightarrow> (\<exists>a s'. m s = (Inr a, s') \<and> f a s' = (Inr b, s''))"
  by (auto simp: bind_step_def split: prod.splits sum.splits)

lemma bind_step_Inl_iff:
  "bind_step m f s = (Inl r, s'') \<longleftrightarrow>
     m s = (Inl r, s'') \<or> (\<exists>a s'. m s = (Inr a, s') \<and> f a s' = (Inl r, s''))"
  by (auto simp: bind_step_def split: prod.splits sum.splits)

lemma bind_step_cases [consumes 1, case_names fail cont]:
  assumes "bind_step m f s = (x, s'')"
  obtains r where "m s = (Inl r, s'')" and "x = Inl r"
    | a s' where "m s = (Inr a, s')" and "f a s' = (x, s'')"
  using assms by (auto simp: bind_step_def split: prod.splits sum.splits)

text \<open>
  \<open>step_keeps P m\<close>: the step keeps \<open>P\<close> of the state, whether it fails or not.  Chains keep what
  all their steps keep.
\<close>

definition step_keeps :: "('s \<Rightarrow> bool) \<Rightarrow> ('s, 'r, 'a) step \<Rightarrow> bool" where
  "step_keeps P m \<longleftrightarrow> (\<forall>s. P s \<longrightarrow> P (snd (m s)))"

lemma step_keeps_bind:
  "step_keeps P m \<Longrightarrow> (\<And>a. step_keeps P (f a)) \<Longrightarrow> step_keeps P (bind_step m f)"
  by (auto simp: step_keeps_def bind_step_def split: prod.splits sum.splits)

lemma step_keeps_ret: "step_keeps P (ret_step a)" "step_keeps P (fail_step r)"
  by (simp_all add: step_keeps_def)

end
