(* ===== verification/Handler_Claims.thy ===== *)
theory Handler_Claims
  imports Sox_Prelude
begin

text \<open>
  \<open>src/Src/HandlerClaim.*\<close> and \<open>State.*\<close>: reference-counted claims on connection handlers and
  the immutable job state that carries them.

  A claim is a shared object with an atomic counter, so claims live in a heap and a state holds
  references to them, next to the snapshots (\<open>HandlerClaimState\<close>) its last operation took.  A
  reference is the index of its claim; a claim is never removed (its owners keep it alive).
\<close>

section \<open>Claims\<close>

record claim =
  counter :: int
  handlerID :: u64

record claim_state =
  cs_counter :: int
  cs_handlerID :: u64

type_synonym claim_ref = nat
type_synonym claim_heap = "claim list"

definition HandlerClaim :: "u64 \<Rightarrow> claim_heap \<Rightarrow> claim_ref \<times> claim_heap" where
  "HandlerClaim hid h = (length h, h @ [\<lparr>counter = 0, handlerID = hid\<rparr>])"

definition claim_snapshot :: "claim_heap \<Rightarrow> claim_ref \<Rightarrow> claim_state" where
  "claim_snapshot h r = \<lparr>cs_counter = counter (h ! r), cs_handlerID = handlerID (h ! r)\<rparr>"

text \<open>\<open>fetch_add\<close> and \<open>fetch_sub\<close> return the old value; the sources report the new one.\<close>

definition Claim :: "claim_ref \<Rightarrow> claim_heap \<Rightarrow> claim_state \<times> claim_heap" where
  "Claim r h = (\<lparr>cs_counter = counter (h ! r) + 1, cs_handlerID = handlerID (h ! r)\<rparr>,
     h[r := (h ! r)\<lparr>counter := counter (h ! r) + 1\<rparr>])"

definition Disclaim :: "claim_ref \<Rightarrow> claim_heap \<Rightarrow> claim_state \<times> claim_heap" where
  "Disclaim r h = (\<lparr>cs_counter = counter (h ! r) - 1, cs_handlerID = handlerID (h ! r)\<rparr>,
     h[r := (h ! r)\<lparr>counter := counter (h ! r) - 1\<rparr>])"

definition GetState :: "claim_ref \<Rightarrow> claim_heap \<Rightarrow> claim_state" where
  "GetState r h = claim_snapshot h r"

section \<open>Job states\<close>

record job_state =
  handlerClaims :: "claim_ref list"
  handlerClaimStates :: "claim_state list"

definition State_empty :: job_state where
  "State_empty = \<lparr>handlerClaims = [], handlerClaimStates = []\<rparr>"

text \<open>One pass over the claims in vector order, collecting what each call returns.\<close>

fun for_claims :: "(claim_ref \<Rightarrow> claim_heap \<Rightarrow> claim_state \<times> claim_heap) \<Rightarrow> claim_ref list \<Rightarrow>
    claim_heap \<Rightarrow> claim_state list \<times> claim_heap" where
  "for_claims f [] h = ([], h)"
| "for_claims f (r # rs) h =
     (let (cs, h1) = f r h; (css, h2) = for_claims f rs h1 in (cs # css, h2))"

definition ClaimAllHandlers :: "job_state \<Rightarrow> claim_heap \<Rightarrow> job_state \<times> claim_heap" where
  "ClaimAllHandlers st h =
     (let (css, h') = for_claims Claim (handlerClaims st) h
      in (\<lparr>handlerClaims = handlerClaims st, handlerClaimStates = css\<rparr>, h'))"

definition DisclaimAllHandlers :: "job_state \<Rightarrow> claim_heap \<Rightarrow> job_state \<times> claim_heap" where
  "DisclaimAllHandlers st h =
     (let (css, h') = for_claims Disclaim (handlerClaims st) h
      in (\<lparr>handlerClaims = handlerClaims st, handlerClaimStates = css\<rparr>, h'))"

definition AddHandler :: "u64 \<Rightarrow> job_state \<Rightarrow> claim_heap \<Rightarrow> job_state \<times> claim_heap" where
  "AddHandler hid st h =
     (let css = map (\<lambda>r. GetState r h) (handlerClaims st);
          (newClaim, h') = HandlerClaim hid h
      in (\<lparr>handlerClaims = handlerClaims st @ [newClaim],
           handlerClaimStates = css @ [GetState newClaim h']\<rparr>, h'))"

definition AddHandlerWithClaim :: "u64 \<Rightarrow> job_state \<Rightarrow> claim_heap \<Rightarrow> job_state \<times> claim_heap" where
  "AddHandlerWithClaim hid st h =
     (let css = map (\<lambda>r. GetState r h) (handlerClaims st);
          (newClaim, h') = HandlerClaim hid h;
          (cs, h'') = Claim newClaim h'
      in (\<lparr>handlerClaims = handlerClaims st @ [newClaim], handlerClaimStates = css @ [cs]\<rparr>, h''))"

section \<open>Well-formed states\<close>

text \<open>The references of a state are distinct and allocated, with one snapshot per claim.\<close>

definition state_ok :: "claim_heap \<Rightarrow> job_state \<Rightarrow> bool" where
  "state_ok h st \<longleftrightarrow> distinct (handlerClaims st) \<and> set (handlerClaims st) \<subseteq> {..<length h} \<and>
     length (handlerClaimStates st) = length (handlerClaims st)"

text \<open>Adding \<open>d\<close> to the counter of every reference in \<open>rs\<close>.\<close>

definition bump :: "int \<Rightarrow> claim_ref list \<Rightarrow> claim_heap \<Rightarrow> claim_heap" where
  "bump d rs h = map (\<lambda>i. if i \<in> set rs then (h ! i)\<lparr>counter := counter (h ! i) + d\<rparr> else h ! i)
     [0..<length h]"

lemma length_bump [simp]: "length (bump d rs h) = length h"
  by (simp add: bump_def)

lemma nth_bump:
  "i < length h \<Longrightarrow> bump d rs h ! i =
     (if i \<in> set rs then (h ! i)\<lparr>counter := counter (h ! i) + d\<rparr> else h ! i)"
  by (simp add: bump_def)

lemma bump_Nil [simp]: "bump d [] h = h"
  by (simp add: bump_def map_nth)

lemma bump_Cons:
  assumes "r < length h" and "r \<notin> set rs"
  shows "bump d rs (h[r := (h ! r)\<lparr>counter := counter (h ! r) + d\<rparr>]) = bump d (r # rs) h"
  using assms by (intro nth_equalityI) (auto simp: nth_bump nth_list_update)

lemma bump_bump: "bump d' rs (bump d rs h) = bump (d + d') rs h"
  by (intro nth_equalityI) (auto simp: nth_bump)

lemma bump_0: "bump 0 rs h = h"
  by (intro nth_equalityI) (auto simp: nth_bump)

lemma bump_append: "set rs \<subseteq> {..<length h} \<Longrightarrow> bump d rs (h @ h') = bump d rs h @ h'"
  by (intro nth_equalityI) (auto simp: nth_bump nth_append)

text \<open>A pass that adds \<open>d\<close> to each counter: its snapshots and its heap.\<close>

lemma for_claims_bump:
  assumes f: "\<And>r h. f r h = (\<lparr>cs_counter = counter (h ! r) + d, cs_handlerID = handlerID (h ! r)\<rparr>,
      h[r := (h ! r)\<lparr>counter := counter (h ! r) + d\<rparr>])"
    and "distinct rs" and "set rs \<subseteq> {..<length h}"
  shows "for_claims f rs h = (map (claim_snapshot (bump d rs h)) rs, bump d rs h)"
  using assms(2,3)
proof (induction rs arbitrary: h)
  case Nil
  then show ?case by simp
next
  case (Cons r rs)
  let ?h1 = "h[r := (h ! r)\<lparr>counter := counter (h ! r) + d\<rparr>]"
  have IH: "for_claims f rs ?h1 = (map (claim_snapshot (bump d rs ?h1)) rs, bump d rs ?h1)"
    using Cons.prems by (intro Cons.IH) auto
  have "bump d rs ?h1 = bump d (r # rs) h"
    using Cons.prems by (intro bump_Cons) auto
  moreover have "claim_snapshot (bump d (r # rs) h) r =
      \<lparr>cs_counter = counter (h ! r) + d, cs_handlerID = handlerID (h ! r)\<rparr>"
    using Cons.prems by (simp add: claim_snapshot_def nth_bump)
  ultimately show ?case using IH by (simp add: f [of r h])
qed

lemma ClaimAllHandlers_eq:
  "state_ok h st \<Longrightarrow> ClaimAllHandlers st h =
     (\<lparr>handlerClaims = handlerClaims st,
       handlerClaimStates = map (claim_snapshot (bump 1 (handlerClaims st) h)) (handlerClaims st)\<rparr>,
      bump 1 (handlerClaims st) h)"
  by (simp add: ClaimAllHandlers_def state_ok_def for_claims_bump [where d = 1] Claim_def)

lemma DisclaimAllHandlers_eq:
  "state_ok h st \<Longrightarrow> DisclaimAllHandlers st h =
     (\<lparr>handlerClaims = handlerClaims st,
       handlerClaimStates = map (claim_snapshot (bump (-1) (handlerClaims st) h)) (handlerClaims st)\<rparr>,
      bump (-1) (handlerClaims st) h)"
  by (simp add: DisclaimAllHandlers_def state_ok_def for_claims_bump [where d = "-1"] Disclaim_def)

lemma AddHandler_eq:
  assumes "state_ok h st"
  shows "AddHandler hid st h =
    (\<lparr>handlerClaims = handlerClaims st @ [length h],
      handlerClaimStates = map (claim_snapshot h) (handlerClaims st) @
        [\<lparr>cs_counter = 0, cs_handlerID = hid\<rparr>]\<rparr>,
     h @ [\<lparr>counter = 0, handlerID = hid\<rparr>])"
  by (simp add: AddHandler_def HandlerClaim_def GetState_def claim_snapshot_def Let_def)

lemma AddHandlerWithClaim_eq:
  "AddHandlerWithClaim hid st h =
    (\<lparr>handlerClaims = handlerClaims st @ [length h],
      handlerClaimStates = map (claim_snapshot h) (handlerClaims st) @
        [\<lparr>cs_counter = 1, cs_handlerID = hid\<rparr>]\<rparr>,
     h @ [\<lparr>counter = 1, handlerID = hid\<rparr>])"
  by (simp add: AddHandlerWithClaim_def HandlerClaim_def Claim_def GetState_def claim_snapshot_def Let_def)

lemmas state_op_eqs = ClaimAllHandlers_eq DisclaimAllHandlers_eq AddHandler_eq AddHandlerWithClaim_eq

lemma state_ok_empty: "state_ok h State_empty"
  by (simp add: state_ok_def State_empty_def)

lemma state_ok_ops:
  assumes "state_ok h st"
  shows "ClaimAllHandlers st h = (st', h') \<Longrightarrow> state_ok h' st'"
    and "DisclaimAllHandlers st h = (st', h') \<Longrightarrow> state_ok h' st'"
    and "AddHandler hid st h = (st', h') \<Longrightarrow> state_ok h' st'"
    and "AddHandlerWithClaim hid st h = (st', h') \<Longrightarrow> state_ok h' st'"
  using assms by (auto simp: state_op_eqs) (auto simp: state_ok_def)

section \<open>Claims released by several jobs\<close>

text \<open>
  Jobs release their claims on different threads, each \<open>Disclaim\<close> being one atomic step.  Whatever
  the interleaving, its effect is \<open>for_claims Disclaim\<close> on the interleaved sequence of references.
  The snapshot a step reports counts the steps on the same claim up to and including it.
\<close>

lemma for_claims_Disclaim_snapshots:
  assumes "set rs \<subseteq> {..<length h}" and "i < length rs"
  shows "fst (for_claims Disclaim rs h) ! i =
    \<lparr>cs_counter = counter (h ! (rs ! i)) - int (count_list (take (Suc i) rs) (rs ! i)),
     cs_handlerID = handlerID (h ! (rs ! i))\<rparr>"
  using assms
proof (induction rs arbitrary: h i)
  case Nil
  then show ?case by simp
next
  case (Cons r rs)
  let ?h1 = "h[r := (h ! r)\<lparr>counter := counter (h ! r) - 1\<rparr>]"
  obtain css h2 where run: "for_claims Disclaim rs ?h1 = (css, h2)"
    by fastforce
  have r: "r < length h" using Cons.prems by simp
  show ?case
  proof (cases i)
    case 0
    then show ?thesis by (simp add: Disclaim_def [of r h] split: prod.splits)
  next
    case (Suc j)
    have "css ! j = \<lparr>cs_counter = counter (?h1 ! (rs ! j)) - int (count_list (take (Suc j) rs) (rs ! j)),
        cs_handlerID = handlerID (?h1 ! (rs ! j))\<rparr>"
      using Cons.IH [of ?h1 j] Cons.prems Suc run by simp
    then show ?thesis
      using Suc r run by (auto simp: Disclaim_def [of r h] nth_list_update)
  qed
qed

lemma length_for_claims [simp]: "length (fst (for_claims f rs h)) = length rs"
  by (induction rs arbitrary: h) (simp_all add: Let_def case_prod_beta)

lemma count_list_take_eq_iff:
  assumes "i < length rs" and "rs ! i = r"
  shows "count_list (take (Suc i) rs) r = count_list rs r \<longleftrightarrow> r \<notin> set (drop (Suc i) rs)"
proof -
  have "count_list rs r = count_list (take (Suc i) rs) r + count_list (drop (Suc i) rs) r"
    by (metis append_take_drop_id count_list_append)
  then show ?thesis by (auto simp: count_list_0_iff)
qed

lemma last_occurrence_unique:
  assumes "r \<in> set rs"
  shows "\<exists>!i. i < length rs \<and> rs ! i = r \<and> r \<notin> set (drop (Suc i) rs)"
proof -
  obtain ys zs where split: "rs = ys @ r # zs" "r \<notin> set zs"
    using split_list_last [OF assms] by blast
  show ?thesis
  proof (rule ex1I [of _ "length ys"])
    fix i assume i: "i < length rs \<and> rs ! i = r \<and> r \<notin> set (drop (Suc i) rs)"
    have "\<not> i < length ys"
    proof
      assume "i < length ys"
      then have "r \<in> set (drop (Suc i) rs)" by (simp add: split)
      with i show False by blast
    qed
    moreover have "\<not> length ys < i"
    proof
      assume "length ys < i"
      then have "rs ! i = zs ! (i - Suc (length ys))" "i - Suc (length ys) < length zs"
        using i by (auto simp: split nth_append nth_Cons')
      with i split(2) show False by (metis nth_mem)
    qed
    ultimately show "i = length ys" by simp
  qed (simp add: split)
qed

text \<open>
  However the releases of several jobs interleave, if every one of the \<open>n > 0\<close> holders of a
  claim releases it once, exactly one of the release steps on that claim reports a counter below
  one, namely the last; all earlier ones report a positive counter.
\<close>

lemma claim_released_exactly_once:
  assumes "set rs \<subseteq> {..<length h}" and "r \<in> set rs"
    and "counter (h ! r) = int (count_list rs r)"
  shows "\<exists>!i. i < length rs \<and> rs ! i = r \<and> cs_counter (fst (for_claims Disclaim rs h) ! i) < 1"
proof -
  have "cs_counter (fst (for_claims Disclaim rs h) ! i) < 1 \<longleftrightarrow> r \<notin> set (drop (Suc i) rs)"
    if "i < length rs" "rs ! i = r" for i
  proof -
    have "count_list (take (Suc i) rs) r \<le> count_list rs r"
      by (metis append_take_drop_id count_list_append le_add1)
    then have "cs_counter (fst (for_claims Disclaim rs h) ! i) < 1 \<longleftrightarrow>
        count_list (take (Suc i) rs) r = count_list rs r"
      using assms that by (auto simp: for_claims_Disclaim_snapshots)
    with that show ?thesis by (simp add: count_list_take_eq_iff)
  qed
  then show ?thesis
    using last_occurrence_unique [OF assms(2)] by (metis (no_types, lifting))
qed

lemma claim_released_exactly_once_witness:
  "\<exists>!i. i < length [0, 0, 1, 1 :: nat] \<and> [0, 0, 1, 1 :: nat] ! i = 1 \<and>
     cs_counter (fst (for_claims Disclaim [0, 0, 1, 1]
       [\<lparr>counter = 2, handlerID = 1\<rparr>, \<lparr>counter = 2, handlerID = 2\<rparr>]) ! i) < 1"
  by (rule claim_released_exactly_once) simp_all

end
