(* ===== verification/IP_Address.thy ===== *)
theory IP_Address
  imports Sox_Prelude
begin

text \<open>
  \<open>src/Src/IPAddress.h\<close> and \<open>IPAddress.cpp\<close>: the immutable address value with its raw storage
  of \<open>IP_ADDR_LEN\<close> bytes, its constructors, its conversions to socket addresses and byte
  buffers, its hash and its comparison operators.

  Socket addresses are byte sequences in the Linux layout (family at offset 0, port at offset 2,
  IPv4 address at offset 4, IPv6 address at offset 8; 16 and 28 bytes).  A read that leaves the
  object it is given is \<open>None\<close>: the source has undefined behaviour there.  \<open>inet_pton\<close> and
  \<open>inet_ntop\<close> belong to the C library and are parameters.
\<close>

unbundle bit_operations_syntax

section \<open>Raw storage\<close>

definition IPV4_ADDR_LEN :: nat where "IPV4_ADDR_LEN = 4"
definition IPV6_ADDR_LEN :: nat where "IPV6_ADDR_LEN = 16"
definition IP_ADDR_LEN :: nat where "IP_ADDR_LEN = IPV6_ADDR_LEN"

lemmas addr_len_defs [simp] = IPV4_ADDR_LEN_def IPV6_ADDR_LEN_def IP_ADDR_LEN_def

text \<open>\<open>unsigned char data[IP_ADDR_LEN]\<close>.\<close>

typedef raw_ip = "{xs :: bytes. length xs = 16}"
  morphisms raw_bytes Raw_IP
  by (rule exI [of _ "replicate 16 0"]) simp

lemma Raw_IP_raw_bytes [code abstype]: "Raw_IP (raw_bytes r) = r"
  by (rule raw_bytes_inverse)

text \<open>
  \<open>RawIP() \<close> zeroes the storage and the other constructors copy at most \<open>IP_ADDR_LEN\<close> bytes to
  its start.
\<close>

definition RawIP :: "bytes \<Rightarrow> raw_ip" where
  "RawIP src = Raw_IP (take 16 (src @ replicate 16 0))"

lemma raw_bytes_RawIP [code abstract]: "raw_bytes (RawIP src) = take 16 (src @ replicate 16 0)"
  by (simp add: RawIP_def Raw_IP_inverse)

instantiation raw_ip :: equal
begin

definition equal_raw_ip :: "raw_ip \<Rightarrow> raw_ip \<Rightarrow> bool" where
  "equal_raw_ip a b = (raw_bytes a = raw_bytes b)"

instance
  by standard (simp add: equal_raw_ip_def raw_bytes_inject)

end

section \<open>The address value and its constructors\<close>

datatype ip_address = IPAddress (isValid: bool) (isV6: bool) (ip: raw_ip)

definition AF_INET :: u16 where "AF_INET = 2"
definition AF_INET6 :: u16 where "AF_INET6 = 10"

lemmas af_defs [simp] = AF_INET_def AF_INET6_def

definition IPAddress_default :: ip_address where
  "IPAddress_default = IPAddress False False (RawIP [])"

text \<open>The pair \<open>(raw, len)\<close> of the C++ constructor is the list of the \<open>len\<close> bytes at \<open>raw\<close>.\<close>

definition IPAddress_raw :: "bytes \<Rightarrow> ip_address" where
  "IPAddress_raw raw =
     (let valid = (length raw = IPV6_ADDR_LEN \<or> length raw = IPV4_ADDR_LEN)
      in IPAddress valid (length raw = IPV6_ADDR_LEN) (if \<not> valid then RawIP [] else RawIP raw))"

text \<open>A routing attribute is its payload.\<close>

definition IPAddress_rta :: "bytes \<Rightarrow> ip_address" where
  "IPAddress_rta payload =
     (let valid = (length payload = IPV6_ADDR_LEN \<or> length payload = IPV4_ADDR_LEN)
      in IPAddress valid (length payload = IPV6_ADDR_LEN)
           (if \<not> valid then RawIP [] else RawIP payload))"

definition sa_family :: "endian \<Rightarrow> bytes \<Rightarrow> u16 option" where
  "sa_family e sa = map_option (\<lambda>bs. load16 e (bs ! 0) (bs ! 1)) (mem_read 0 2 sa)"

text \<open>\<open>RawIP(const sockaddr*)\<close> copies a whole \<open>sockaddr_in6\<close> or \<open>sockaddr_in\<close> first.\<close>

definition RawIP_sa :: "endian \<Rightarrow> bytes \<Rightarrow> raw_ip option" where
  "RawIP_sa e sa = Option.bind (sa_family e sa) (\<lambda>fam.
     if fam = AF_INET6
     then map_option (\<lambda>sa_in6. RawIP (take IPV6_ADDR_LEN (drop 8 sa_in6))) (mem_read 0 28 sa)
     else map_option (\<lambda>sa_in. RawIP (take IPV4_ADDR_LEN (drop 4 sa_in))) (mem_read 0 16 sa))"

definition IPAddress_sa :: "endian \<Rightarrow> bytes \<Rightarrow> ip_address option" where
  "IPAddress_sa e sa = Option.bind (sa_family e sa) (\<lambda>fam.
     if \<not> (fam = AF_INET \<or> fam = AF_INET6)
     then Some (IPAddress False (fam = AF_INET6) (RawIP []))
     else map_option (IPAddress True (fam = AF_INET6)) (RawIP_sa e sa))"

text \<open>
  Addresses from text.  \<open>pton v6 s\<close> is the result of \<open>inet_pton\<close> for the address family:
  the bytes it writes when it returns a positive value.  It reads the text up to the first NUL.
\<close>

type_synonym pton = "bool \<Rightarrow> string \<Rightarrow> bytes option"

definition c_str :: "string \<Rightarrow> string" where
  "c_str s = takeWhile (\<lambda>c. c \<noteq> char_of (0 :: nat)) s"

definition DetectIPVer :: "pton \<Rightarrow> string \<Rightarrow> int" where
  "DetectIPVer pton s =
     (if pton False s \<noteq> None then 1 else if pton True s \<noteq> None then 2 else 0)"

definition RawIP_str :: "pton \<Rightarrow> bool \<Rightarrow> string \<Rightarrow> raw_ip" where
  "RawIP_str pton v6 s = (case pton v6 s of None \<Rightarrow> RawIP [] | Some bs \<Rightarrow> RawIP bs)"

definition IPAddress_str :: "pton \<Rightarrow> string \<Rightarrow> ip_address" where
  "IPAddress_str pton s =
     (let valid = (DetectIPVer pton (c_str s) > 0);
          v6 = (if valid then DetectIPVer pton (c_str s) = 2 else False)
      in IPAddress valid v6 (if \<not> valid then RawIP [] else RawIP_str pton v6 (c_str s)))"

text \<open>What the C library documents of \<open>inet_pton\<close>: 4 bytes for IPv4, 16 for IPv6.\<close>

definition pton_ok :: "pton \<Rightarrow> bool" where
  "pton_ok pton \<longleftrightarrow> (\<forall>v6 s bs. pton v6 s = Some bs \<longrightarrow> length bs = (if v6 then 16 else 4))"

section \<open>Conversions\<close>

text \<open>
  \<open>ToSA\<close> writes family and address into the caller's \<open>sockaddr_in\<close> or \<open>sockaddr_in6\<close> and
  leaves the other bytes.
\<close>

definition ToSA :: "endian \<Rightarrow> ip_address \<Rightarrow> bytes \<Rightarrow> bytes" where
  "ToSA e a target =
     (if \<not> isValid a then target
      else if isV6 a
      then memcpy_at 8 (take IPV6_ADDR_LEN (raw_bytes (ip a))) (memcpy_at 0 (store16 e AF_INET6) target)
      else memcpy_at 4 (take IPV4_ADDR_LEN (raw_bytes (ip a))) (memcpy_at 0 (store16 e AF_INET) target))"

text \<open>The bytes \<open>ToRawBuff\<close> writes at its target.\<close>

definition IPAddress_ToRawBuff :: "ip_address \<Rightarrow> bytes" where
  "IPAddress_ToRawBuff a = take (if isV6 a then IPV6_ADDR_LEN else IPV4_ADDR_LEN) (raw_bytes (ip a))"

definition RawData :: "ip_address \<Rightarrow> bytes" where
  "RawData a = raw_bytes (ip a)"

type_synonym ntop = "bool \<Rightarrow> bytes \<Rightarrow> string"

definition IPAddress_ToString :: "ntop \<Rightarrow> ip_address \<Rightarrow> string" where
  "IPAddress_ToString ntop a = ntop (isV6 a) (raw_bytes (ip a))"

definition IPAddress_output :: "ntop \<Rightarrow> string \<Rightarrow> ip_address \<Rightarrow> string" where
  "IPAddress_output ntop stream a = stream @ ntop (isV6 a) (raw_bytes (ip a))"

section \<open>Hash and comparison\<close>

fun hash_loop :: "bytes \<Rightarrow> nat \<Rightarrow> u64 \<Rightarrow> u64" where
  "hash_loop [] shift result = result"
| "hash_loop (b # bs) shift result =
     hash_loop bs (if shift = 0 then 7 else shift - 1) (result XOR push_bit (8 * shift) (ucast b))"

definition IPAddress_GetHashCode :: "ip_address \<Rightarrow> u64" where
  "IPAddress_GetHashCode a =
     hash_loop (raw_bytes (ip a)) 7 ((0 XOR of_bool (isValid a)) XOR push_bit 8 (of_bool (isV6 a)))"

text \<open>\<open>memcmp\<close> on two sequences of the same length: the sign of the first difference.\<close>

fun memcmp :: "bytes \<Rightarrow> bytes \<Rightarrow> int" where
  "memcmp (a # as) (b # bs) = (if a < b then -1 else if b < a then 1 else memcmp as bs)"
| "memcmp _ _ = 0"

definition IPAddress_Equals :: "ip_address \<Rightarrow> ip_address \<Rightarrow> bool" where
  "IPAddress_Equals a b \<longleftrightarrow> isValid a = isValid b \<and> isV6 a = isV6 b \<and>
     memcmp (raw_bytes (ip a)) (raw_bytes (ip b)) = 0"

definition addr_flags :: "ip_address \<Rightarrow> int" where
  "addr_flags a = 10 * of_bool (isValid a) + 1 * of_bool (isV6 a)"

definition IPAddress_Less :: "ip_address \<Rightarrow> ip_address \<Rightarrow> bool" where
  "IPAddress_Less a b =
     (if addr_flags a < addr_flags b then True
      else if addr_flags a = addr_flags b \<and> memcmp (raw_bytes (ip a)) (raw_bytes (ip b)) < 0 then True
      else False)"

definition IPAddress_Greater :: "ip_address \<Rightarrow> ip_address \<Rightarrow> bool" where
  "IPAddress_Greater a b =
     (if addr_flags a > addr_flags b then True
      else if addr_flags a = addr_flags b \<and> memcmp (raw_bytes (ip a)) (raw_bytes (ip b)) > 0 then True
      else False)"

definition IPAddress_lt :: "ip_address \<Rightarrow> ip_address \<Rightarrow> bool" where
  "IPAddress_lt a b = IPAddress_Less a b"

definition IPAddress_eq :: "ip_address \<Rightarrow> ip_address \<Rightarrow> bool" where
  "IPAddress_eq a b = IPAddress_Equals a b"

definition IPAddress_gt :: "ip_address \<Rightarrow> ip_address \<Rightarrow> bool" where
  "IPAddress_gt a b = IPAddress_Greater a b"

definition IPAddress_ge :: "ip_address \<Rightarrow> ip_address \<Rightarrow> bool" where
  "IPAddress_ge a b \<longleftrightarrow> IPAddress_Greater a b \<or> IPAddress_Equals a b"

definition IPAddress_le :: "ip_address \<Rightarrow> ip_address \<Rightarrow> bool" where
  "IPAddress_le a b \<longleftrightarrow> IPAddress_Less a b \<or> IPAddress_Equals a b"

section \<open>Well-formed addresses\<close>

text \<open>
  Every constructor gives an address in normal form: an IPv4 address uses the first four bytes
  only, and an invalid address is the default one.
\<close>

definition ip_wf :: "ip_address \<Rightarrow> bool" where
  "ip_wf a \<longleftrightarrow>
     (isV6 a \<longrightarrow> isValid a) \<and>
     (\<not> isValid a \<longrightarrow> ip a = RawIP []) \<and>
     (\<not> isV6 a \<longrightarrow> drop 4 (raw_bytes (ip a)) = replicate 12 0)"

lemma length_raw_bytes [simp]: "length (raw_bytes r) = 16"
  using raw_bytes [of r] by simp

lemma RawIP_raw_bytes [simp]: "RawIP (raw_bytes r) = r"
  by (simp add: raw_bytes_inject [symmetric] raw_bytes_RawIP)

lemma raw_bytes_RawIP_16: "length src = 16 \<Longrightarrow> raw_bytes (RawIP src) = src"
  by (simp add: raw_bytes_RawIP)

lemma raw_bytes_RawIP_4: "length src = 4 \<Longrightarrow> raw_bytes (RawIP src) = src @ replicate 12 0"
  by (simp add: raw_bytes_RawIP)

lemma raw_bytes_RawIP_Nil: "raw_bytes (RawIP []) = replicate 16 0"
  by (simp add: raw_bytes_RawIP)

lemmas raw_simps = raw_bytes_RawIP_16 raw_bytes_RawIP_4 raw_bytes_RawIP_Nil

lemma drop_replicate_0: "drop 4 (replicate 16 (0 :: byte)) = replicate 12 0"
  by (simp add: drop_replicate)

lemma ip_wf_default: "ip_wf IPAddress_default"
  by (simp add: ip_wf_def IPAddress_default_def raw_simps drop_replicate_0)

lemma ip_wf_raw: "ip_wf (IPAddress_raw raw)"
  by (auto simp: ip_wf_def IPAddress_raw_def Let_def raw_simps drop_replicate_0)

lemma ip_wf_rta: "ip_wf (IPAddress_rta payload)"
  by (auto simp: ip_wf_def IPAddress_rta_def Let_def raw_simps drop_replicate_0)

lemma ip_wf_sa: "IPAddress_sa e sa = Some a \<Longrightarrow> ip_wf a"
  by (auto simp: ip_wf_def IPAddress_sa_def RawIP_sa_def mem_read_Some_iff raw_simps drop_replicate_0
      split: if_splits option.splits bind_splits)

lemma ip_wf_str: "pton_ok pton \<Longrightarrow> ip_wf (IPAddress_str pton s)"
  by (auto simp: ip_wf_def IPAddress_str_def RawIP_str_def DetectIPVer_def Let_def pton_ok_def
      raw_simps drop_replicate_0 split: option.splits)

lemmas ip_wf_constructors = ip_wf_default ip_wf_raw ip_wf_rta ip_wf_sa ip_wf_str

section \<open>The comparison operators are a linear order\<close>

lemma memcmp_0_iff: "length xs = length ys \<Longrightarrow> memcmp xs ys = 0 \<longleftrightarrow> xs = ys"
  by (induction xs ys rule: list_induct2) auto

lemma memcmp_swap: "memcmp ys xs = - memcmp xs ys"
  by (induction xs ys rule: memcmp.induct) auto

lemma memcmp_less_trans: "memcmp xs ys < 0 \<Longrightarrow> memcmp ys zs < 0 \<Longrightarrow> memcmp xs zs < 0"
proof (induction xs zs arbitrary: ys rule: memcmp.induct, goal_cases)
  case (1 x xs z zs ys)
  then show ?case
    by (cases ys) (auto split: if_splits)
next
  case (2 zs ys)
  then show ?case by simp
next
  case (3 xs ys)
  then show ?case by (cases xs; cases ys) auto
qed

lemma memcmp_less_0_iff: "length xs = length ys \<Longrightarrow> memcmp xs ys > 0 \<longleftrightarrow> memcmp ys xs < 0"
  by (simp add: memcmp_swap [of xs ys])

lemma addr_flags_eq_iff:
  "addr_flags a = addr_flags b \<longleftrightarrow> isValid a = isValid b \<and> isV6 a = isV6 b"
  by (auto simp: addr_flags_def of_bool_def split: if_splits)

text \<open>\<open>Equals\<close> is equality of the values.\<close>

lemma IPAddress_Equals_iff [simp]: "IPAddress_Equals a b \<longleftrightarrow> a = b"
  by (cases a; cases b) (auto simp: IPAddress_Equals_def memcmp_0_iff raw_bytes_inject)

lemma IPAddress_Less_iff:
  "IPAddress_Less a b \<longleftrightarrow> addr_flags a < addr_flags b \<or>
     addr_flags a = addr_flags b \<and> memcmp (raw_bytes (ip a)) (raw_bytes (ip b)) < 0"
  by (auto simp: IPAddress_Less_def)

lemma IPAddress_Greater_iff: "IPAddress_Greater a b \<longleftrightarrow> IPAddress_Less b a"
  using memcmp_swap [of "raw_bytes (ip b)" "raw_bytes (ip a)"]
  by (auto simp: IPAddress_Greater_def IPAddress_Less_def)

lemma IPAddress_Less_irrefl: "\<not> IPAddress_Less a a"
  by (simp add: IPAddress_Less_iff memcmp_0_iff less_le)

lemma IPAddress_Less_trans:
  "IPAddress_Less a b \<Longrightarrow> IPAddress_Less b c \<Longrightarrow> IPAddress_Less a c"
  by (auto simp: IPAddress_Less_iff intro: memcmp_less_trans)

lemma IPAddress_eqI:
  assumes "addr_flags a = addr_flags b" and "memcmp (raw_bytes (ip a)) (raw_bytes (ip b)) = 0"
  shows "a = b"
  using assms by (simp add: IPAddress_Equals_iff [symmetric] IPAddress_Equals_def addr_flags_eq_iff
      del: IPAddress_Equals_iff)

lemma IPAddress_Less_linear:
  assumes "\<not> IPAddress_Less a b" and "a \<noteq> b"
  shows "IPAddress_Less b a"
proof (rule ccontr)
  assume "\<not> IPAddress_Less b a"
  then have flags: "addr_flags a = addr_flags b"
    and "\<not> memcmp (raw_bytes (ip b)) (raw_bytes (ip a)) < 0"
    and "\<not> memcmp (raw_bytes (ip a)) (raw_bytes (ip b)) < 0"
    using assms(1) by (auto simp: IPAddress_Less_iff)
  then have "memcmp (raw_bytes (ip a)) (raw_bytes (ip b)) = 0"
    using memcmp_swap [of "raw_bytes (ip a)" "raw_bytes (ip b)"] by linarith
  with flags assms(2) show False by (blast intro: IPAddress_eqI)
qed

text \<open>So addresses are a linear order of the library, with the operators of the source.\<close>

instantiation ip_address :: linorder
begin

definition less_eq_ip_address :: "ip_address \<Rightarrow> ip_address \<Rightarrow> bool" where
  "less_eq_ip_address = IPAddress_le"

definition less_ip_address :: "ip_address \<Rightarrow> ip_address \<Rightarrow> bool" where
  "less_ip_address = IPAddress_lt"

instance
  by standard
    (auto simp: less_eq_ip_address_def less_ip_address_def IPAddress_le_def IPAddress_lt_def
      IPAddress_Less_irrefl dest: IPAddress_Less_trans intro: IPAddress_Less_linear)

end

text \<open>
  C34.  The comparison operators of \<open>IPAddress\<close> agree with each other and order all addresses
  linearly: \<open><\<close> is irreflexive, transitive and trichotomous with respect to \<open>==\<close>, \<open>>\<close> is its
  converse, and \<open><=\<close>, \<open>>=\<close> are its reflexive closures.
\<close>

theorem IPAddress_operators_linear_order:
  "irreflp IPAddress_lt \<and> transp IPAddress_lt \<and> totalp IPAddress_lt \<and>
   IPAddress_eq = (=) \<and>
   IPAddress_gt = (\<lambda>a b. IPAddress_lt b a) \<and>
   IPAddress_le = (\<lambda>a b. IPAddress_lt a b \<or> IPAddress_eq a b) \<and>
   IPAddress_ge = (\<lambda>a b. \<not> IPAddress_lt a b)"
  by (auto simp: IPAddress_lt_def IPAddress_eq_def IPAddress_gt_def IPAddress_le_def
      IPAddress_ge_def IPAddress_Greater_iff IPAddress_Less_irrefl fun_eq_iff
      intro!: irreflpI transpI totalpI dest: IPAddress_Less_trans intro: IPAddress_Less_linear)

section \<open>Round trips through socket addresses and buffers\<close>

text \<open>The size of the object \<open>ToSA\<close> writes to, and the address bytes a value carries.\<close>

definition sa_size :: "ip_address \<Rightarrow> nat" where
  "sa_size a = (if isV6 a then 28 else 16)"

lemma length_IPAddress_ToRawBuff [simp]:
  "length (IPAddress_ToRawBuff a) = (if isV6 a then 16 else 4)"
  by (simp add: IPAddress_ToRawBuff_def)

lemma RawIP_ToRawBuff:
  assumes "ip_wf a"
  shows "RawIP (IPAddress_ToRawBuff a) = ip a"
proof (cases "isV6 a")
  case True
  then show ?thesis by (simp add: IPAddress_ToRawBuff_def)
next
  case False
  have "raw_bytes (ip a) = take 4 (raw_bytes (ip a)) @ replicate 12 0"
    using assms False append_take_drop_id [of 4 "raw_bytes (ip a)"] by (simp add: ip_wf_def)
  then show ?thesis
    using False by (simp add: IPAddress_ToRawBuff_def raw_bytes_inject [symmetric] raw_bytes_RawIP_4)
qed

lemma sa_family_ToSA:
  assumes "isValid a" and "length target = sa_size a"
  shows "sa_family e (ToSA e a target) = Some (if isV6 a then AF_INET6 else AF_INET)"
proof -
  have "mem_read 0 2 (ToSA e a target) = Some (store16 e (if isV6 a then AF_INET6 else AF_INET))"
    using assms mem_read_memcpy_same [of 0 "store16 e (if isV6 a then AF_INET6 else AF_INET)" target]
    by (simp add: ToSA_def sa_size_def mem_read_memcpy_below length_memcpy_at split: if_splits)
  then show ?thesis by (simp add: sa_family_def)
qed

lemma length_ToSA [simp]: "length target = sa_size a \<Longrightarrow> length (ToSA e a target) = length target"
  by (simp add: ToSA_def sa_size_def length_memcpy_at split: if_splits)

lemma ToSA_addr_bytes:
  assumes "isValid a" and "length target = sa_size a"
  shows "take (if isV6 a then 16 else 4) (drop (if isV6 a then 8 else 4) (ToSA e a target)) =
    IPAddress_ToRawBuff a"
  using assms by (simp add: ToSA_def sa_size_def memcpy_at_def IPAddress_ToRawBuff_def split: if_splits)

text \<open>
  C35.  An address written into a socket address by \<open>ToSA\<close> is read back unchanged by the
  \<open>sockaddr\<close> constructor, on every host byte order, whatever the other fields of the structure
  hold.
\<close>

theorem IPAddress_sa_roundtrip:
  assumes "ip_wf a" and "isValid a" and "length target = sa_size a"
  shows "IPAddress_sa e (ToSA e a target) = Some a"
proof (cases "isV6 a")
  case True
  then have "RawIP_sa e (ToSA e a target) = Some (ip a)"
    using assms ToSA_addr_bytes [OF assms(2,3), of e] RawIP_ToRawBuff [OF assms(1)]
    by (simp add: RawIP_sa_def sa_family_ToSA mem_read_def sa_size_def)
  with True assms show ?thesis
    by (cases a) (simp add: IPAddress_sa_def sa_family_ToSA)
next
  case False
  then have "RawIP_sa e (ToSA e a target) = Some (ip a)"
    using assms ToSA_addr_bytes [OF assms(2,3), of e] RawIP_ToRawBuff [OF assms(1)]
    by (simp add: RawIP_sa_def sa_family_ToSA mem_read_def sa_size_def)
  with False assms show ?thesis
    by (cases a) (simp add: IPAddress_sa_def sa_family_ToSA)
qed

theorem IPAddress_sa_roundtrip_witness:
  "IPAddress_sa LittleEndian (ToSA LittleEndian (IPAddress_raw [127, 0, 0, 1]) (replicate 16 7)) =
     Some (IPAddress_raw [127, 0, 0, 1])"
  by (rule IPAddress_sa_roundtrip, rule ip_wf_raw) (simp_all add: IPAddress_raw_def sa_size_def)

text \<open>The bytes of an address received from a client or a resolver come back unchanged.\<close>

lemma IPAddress_raw_roundtrip:
  "length raw = 4 \<or> length raw = 16 \<Longrightarrow> IPAddress_ToRawBuff (IPAddress_raw raw) = raw"
  by (auto simp: IPAddress_ToRawBuff_def IPAddress_raw_def Let_def raw_simps)

lemma IPAddress_raw_v4_inject:
  "length raw = 4 \<Longrightarrow> length raw' = 4 \<Longrightarrow> IPAddress_raw raw = IPAddress_raw raw' \<longleftrightarrow> raw = raw'"
  by (metis IPAddress_raw_roundtrip)

text \<open>A socket address of the IPv6 family in an object smaller than \<open>sockaddr_in6\<close> is over-read.\<close>

lemma IPAddress_sa_overread:
  assumes "sa_family e sa = Some AF_INET6" and "length sa < 28"
  shows "IPAddress_sa e sa = None"
  using assms by (simp add: IPAddress_sa_def RawIP_sa_def mem_read_def)

lemma IPAddress_sa_v4:
  assumes "sa_family e sa = Some AF_INET" and "length sa = 16"
  shows "IPAddress_sa e sa = Some (IPAddress_raw (take 4 (drop 4 sa)))"
  using assms by (simp add: IPAddress_sa_def RawIP_sa_def mem_read_def IPAddress_raw_def)

section \<open>The hash separates IPv4 addresses\<close>

definition v4_hash :: "byte \<Rightarrow> byte \<Rightarrow> byte \<Rightarrow> byte \<Rightarrow> u64" where
  "v4_hash b0 b1 b2 b3 =
     (((1 XOR push_bit 56 (ucast b0)) XOR push_bit 48 (ucast b1)) XOR push_bit 40 (ucast b2)) XOR
     push_bit 32 (ucast b3)"

lemma hash_loop_zeros: "set bs \<subseteq> {0} \<Longrightarrow> hash_loop bs shift result = result"
  by (induction bs arbitrary: shift) auto

lemma GetHashCode_v4:
  "IPAddress_GetHashCode (IPAddress_raw [b0, b1, b2, b3]) = v4_hash b0 b1 b2 b3"
  by (simp add: IPAddress_GetHashCode_def IPAddress_raw_def raw_simps hash_loop_zeros v4_hash_def)

lemma bit_v4_hash:
  assumes "i < 8"
  shows "bit (v4_hash b0 b1 b2 b3) (56 + i) = bit b0 i"
    and "bit (v4_hash b0 b1 b2 b3) (48 + i) = bit b1 i"
    and "bit (v4_hash b0 b1 b2 b3) (40 + i) = bit b2 i"
    and "bit (v4_hash b0 b1 b2 b3) (32 + i) = bit b3 i"
  using assms
  by (auto simp: v4_hash_def bit_xor_iff bit_push_bit_iff bit_ucast_iff bit_1_iff
      dest: bit_imp_le_length)

lemma v4_hash_inject:
  "v4_hash b0 b1 b2 b3 = v4_hash c0 c1 c2 c3 \<longleftrightarrow> b0 = c0 \<and> b1 = c1 \<and> b2 = c2 \<and> b3 = c3"
proof
  assume eq: "v4_hash b0 b1 b2 b3 = v4_hash c0 c1 c2 c3"
  have "bit b0 i = bit c0 i \<and> bit b1 i = bit c1 i \<and> bit b2 i = bit c2 i \<and> bit b3 i = bit c3 i"
    if "i < 8" for i
    using bit_v4_hash [OF that, of b0 b1 b2 b3] bit_v4_hash [OF that, of c0 c1 c2 c3] eq by simp
  then show "b0 = c0 \<and> b1 = c1 \<and> b2 = c2 \<and> b3 = c3"
    by (auto intro!: bit_word_eqI)
qed auto

text \<open>
  On IPv4 addresses \<open>GetHashCode\<close> is collision free: two addresses built from four bytes
  each have the same 64-bit hash only if they are the same address.
\<close>

lemma GetHashCode_v4_injective:
  assumes "length raw = 4" and "length raw' = 4"
  shows "IPAddress_GetHashCode (IPAddress_raw raw) = IPAddress_GetHashCode (IPAddress_raw raw')
    \<longleftrightarrow> IPAddress_Equals (IPAddress_raw raw) (IPAddress_raw raw')"
proof -
  obtain b0 b1 b2 b3 where raw: "raw = [b0, b1, b2, b3]"
    using assms(1) by (auto simp: numeral_eq_Suc length_Suc_conv)
  obtain c0 c1 c2 c3 where raw': "raw' = [c0, c1, c2, c3]"
    using assms(2) by (auto simp: numeral_eq_Suc length_Suc_conv)
  have "IPAddress_raw raw = IPAddress_raw raw' \<longleftrightarrow> raw = raw'"
    using assms by (rule IPAddress_raw_v4_inject)
  then show ?thesis
    unfolding IPAddress_Equals_iff by (simp add: raw raw' GetHashCode_v4 v4_hash_inject)
qed

lemma GetHashCode_v4_injective_witness:
  "(IPAddress_GetHashCode (IPAddress_raw [10, 0, 0, 1]) = IPAddress_GetHashCode (IPAddress_raw [10, 0, 1, 0]))
    = IPAddress_Equals (IPAddress_raw [10, 0, 0, 1]) (IPAddress_raw [10, 0, 1, 0])"
  by (rule GetHashCode_v4_injective) simp_all

end
