(* ===== verification/IP_Endpoint.thy ===== *)
theory IP_Endpoint
  imports IP_Address
begin

text \<open>
  \<open>src/Src/IPEndpoint.h\<close> and \<open>IPEndpoint.cpp\<close>: an address with a port, its construction from
  socket addresses, its SOCKS encoding (\<open>ToRawBuff\<close>), its hash and its comparison operators.
\<close>

section \<open>Endpoints\<close>

datatype ip_endpoint = IPEndpoint (address: ip_address) (port: u16)

definition IPEndpoint_default :: ip_endpoint where
  "IPEndpoint_default = IPEndpoint IPAddress_default 0"

text \<open>
  \<open>DecodePort\<close> copies the whole structure and returns the port field as it lies in memory, that
  is, without \<open>ntohs\<close>.
\<close>

definition DecodePort :: "endian \<Rightarrow> bytes \<Rightarrow> u16 option" where
  "DecodePort e sa = Option.bind (sa_family e sa) (\<lambda>fam.
     if fam = AF_INET6
     then map_option (\<lambda>sa_in6. load16 e (sa_in6 ! 2) (sa_in6 ! 3)) (mem_read 0 28 sa)
     else map_option (\<lambda>sa_in. load16 e (sa_in ! 2) (sa_in ! 3)) (mem_read 0 16 sa))"

definition IPEndpoint_sa :: "endian \<Rightarrow> bytes \<Rightarrow> ip_endpoint option" where
  "IPEndpoint_sa e sa =
     Option.bind (IPAddress_sa e sa) (\<lambda>a. map_option (IPEndpoint a) (DecodePort e sa))"

text \<open>The buffer after \<open>ToRawBuff(buff + off)\<close> and the length the method returns.\<close>

definition IPEndpoint_ToRawBuff :: "endian \<Rightarrow> ip_endpoint \<Rightarrow> nat \<Rightarrow> bytes \<Rightarrow> bytes \<times> nat" where
  "IPEndpoint_ToRawBuff e ep off buff =
     (let addrLen = (if isV6 (address ep) then IPV6_ADDR_LEN else IPV4_ADDR_LEN);
          buff1 = memcpy_at off (IPAddress_ToRawBuff (address ep)) buff;
          nsPort = htons e (port ep)
      in (memcpy_at (off + addrLen) (store16 e nsPort) buff1, addrLen + 2))"

definition IPEndpoint_GetHashCode :: "ip_endpoint \<Rightarrow> u64" where
  "IPEndpoint_GetHashCode ep = xor (IPAddress_GetHashCode (address ep)) (ucast (port ep))"

definition IPEndpoint_Equals :: "ip_endpoint \<Rightarrow> ip_endpoint \<Rightarrow> bool" where
  "IPEndpoint_Equals a b \<longleftrightarrow> IPAddress_Equals (address a) (address b) \<and> port a = port b"

definition IPEndpoint_Less :: "ip_endpoint \<Rightarrow> ip_endpoint \<Rightarrow> bool" where
  "IPEndpoint_Less a b =
     (if IPAddress_Less (address a) (address b) then True
      else if port a < port b then True else False)"

definition IPEndpoint_Greater :: "ip_endpoint \<Rightarrow> ip_endpoint \<Rightarrow> bool" where
  "IPEndpoint_Greater a b =
     (if IPAddress_Greater (address a) (address b) then True
      else if port a > port b then True else False)"

definition IPEndpoint_lt :: "ip_endpoint \<Rightarrow> ip_endpoint \<Rightarrow> bool" where
  "IPEndpoint_lt a b = IPEndpoint_Less a b"

definition IPEndpoint_eq :: "ip_endpoint \<Rightarrow> ip_endpoint \<Rightarrow> bool" where
  "IPEndpoint_eq a b = IPEndpoint_Equals a b"

definition IPEndpoint_gt :: "ip_endpoint \<Rightarrow> ip_endpoint \<Rightarrow> bool" where
  "IPEndpoint_gt a b = IPEndpoint_Greater a b"

definition IPEndpoint_ge :: "ip_endpoint \<Rightarrow> ip_endpoint \<Rightarrow> bool" where
  "IPEndpoint_ge a b \<longleftrightarrow> IPEndpoint_Greater a b \<or> IPEndpoint_Equals a b"

definition IPEndpoint_le :: "ip_endpoint \<Rightarrow> ip_endpoint \<Rightarrow> bool" where
  "IPEndpoint_le a b \<longleftrightarrow> IPEndpoint_Less a b \<or> IPEndpoint_Equals a b"

section \<open>Encoding\<close>

text \<open>The wire form of an endpoint: address bytes, then the port in network order.\<close>

definition wire_endpoint :: "ip_endpoint \<Rightarrow> bytes" where
  "wire_endpoint ep = IPAddress_ToRawBuff (address ep) @ be16 (port ep)"

lemma length_wire_endpoint [simp]:
  "length (wire_endpoint ep) = (if isV6 (address ep) then 18 else 6)"
  by (simp add: wire_endpoint_def)

lemma memcpy_at_adjacent:
  "off + length xs + length ys \<le> length buff \<Longrightarrow>
   memcpy_at (off + length xs) ys (memcpy_at off xs buff) = memcpy_at off (xs @ ys) buff"
  by (simp add: memcpy_at_def ac_simps)

lemma IPEndpoint_ToRawBuff_eq:
  assumes "off + 18 \<le> length buff"
  shows "IPEndpoint_ToRawBuff e ep off buff =
    (memcpy_at off (wire_endpoint ep) buff, length (wire_endpoint ep))"
  using assms memcpy_at_adjacent [of off "IPAddress_ToRawBuff (address ep)" "be16 (port ep)" buff]
  by (auto simp: IPEndpoint_ToRawBuff_def Let_def wire_endpoint_def)

text \<open>
  C36.  The destination a client sends (four or sixteen address bytes and a two-byte port),
  decoded the way the handshake decodes it, is encoded by \<open>ToRawBuff\<close> to the same bytes again, on
  either host byte order, and the rest of the buffer is not touched.
\<close>

theorem endpoint_wire_roundtrip:
  assumes "length raw = 4 \<or> length raw = 16" and "off + 18 \<le> length buff"
  shows "IPEndpoint_ToRawBuff e (IPEndpoint (IPAddress_raw raw) (ntohs e (load16 e p0 p1))) off buff =
    (take off buff @ raw @ [p0, p1] @ drop (off + length raw + 2) buff, length raw + 2)"
proof -
  have "wire_endpoint (IPEndpoint (IPAddress_raw raw) (ntohs e (load16 e p0 p1))) = raw @ [p0, p1]"
    using assms(1) by (simp add: wire_endpoint_def IPAddress_raw_roundtrip)
  then show ?thesis
    using assms(2) by (simp add: IPEndpoint_ToRawBuff_eq memcpy_at_def ac_simps)
qed

theorem endpoint_wire_roundtrip_witness:
  "IPEndpoint_ToRawBuff LittleEndian
     (IPEndpoint (IPAddress_raw [10, 0, 0, 1]) (ntohs LittleEndian (load16 LittleEndian 31 144))) 4
     (replicate 512 0) =
   (take 4 (replicate 512 0) @ [10, 0, 0, 1] @ [31, 144] @
      drop (4 + length [10, 0, 0, 1 :: byte] + 2) (replicate 512 0), length [10, 0, 0, 1 :: byte] + 2)"
  by (rule endpoint_wire_roundtrip) simp_all

section \<open>Endpoints from socket addresses\<close>

lemma IPEndpoint_sa_overread:
  assumes "sa_family e sa = Some AF_INET6" and "length sa < 28"
  shows "IPEndpoint_sa e sa = None"
  using IPAddress_sa_overread [OF assms] by (simp add: IPEndpoint_sa_def)

lemma IPEndpoint_sa_v4:
  assumes "sa_family e sa = Some AF_INET" and "length sa = 16"
  shows "IPEndpoint_sa e sa =
    Some (IPEndpoint (IPAddress_raw (take 4 (drop 4 sa))) (load16 e (sa ! 2) (sa ! 3)))"
  using assms by (simp add: IPEndpoint_sa_def IPAddress_sa_v4 DecodePort_def mem_read_def)

text \<open>
  The port an endpoint takes from an IPv4 socket address is the port in host memory order:
  on a little-endian host it is the byte-swapped port, so its SOCKS encoding has the two port bytes
  exchanged; on a big-endian host it is the port.
\<close>

lemma endpoint_from_sockaddr_port:
  assumes "sa_family e sa = Some AF_INET" and "length sa = 16"
  shows "map_option (\<lambda>ep. wire_endpoint ep) (IPEndpoint_sa e sa) =
    Some (take 4 (drop 4 sa) @
      (case e of LittleEndian \<Rightarrow> [sa ! 3, sa ! 2] | BigEndian \<Rightarrow> [sa ! 2, sa ! 3]))"
proof -
  have "be16 (load16 e b0 b1) =
      (case e of LittleEndian \<Rightarrow> [b1, b0] | BigEndian \<Rightarrow> [b0, b1])" for b0 b1
    by (cases e) (simp_all add: be16_def unat_load16)
  then show ?thesis
    using assms by (simp add: IPEndpoint_sa_v4 wire_endpoint_def IPAddress_raw_roundtrip)
qed

lemma endpoint_from_sockaddr_port_witness:
  "map_option (\<lambda>ep. wire_endpoint ep)
     (IPEndpoint_sa LittleEndian ([2, 0, 31, 144, 10, 0, 0, 1] @ replicate 8 0)) =
   Some (take 4 (drop 4 ([2, 0, 31, 144, 10, 0, 0, 1] @ replicate 8 0)) @ [144, 31])"
  using endpoint_from_sockaddr_port
    [of LittleEndian "[2, 0, 31, 144, 10, 0, 0, 1] @ replicate 8 0"]
  by (simp add: sa_family_def mem_read_def load16_def)

section \<open>Comparison\<close>

lemma IPEndpoint_Equals_iff [simp]: "IPEndpoint_Equals a b \<longleftrightarrow> a = b"
  by (cases a; cases b) (auto simp: IPEndpoint_Equals_def)

lemma IPEndpoint_Greater_iff: "IPEndpoint_Greater a b \<longleftrightarrow> IPEndpoint_Less b a"
  by (simp add: IPEndpoint_Greater_def IPEndpoint_Less_def IPAddress_Greater_iff)

text \<open>
  \<open>IPEndpoint::Less\<close> is not an order: two endpoints are each less than the other exactly when
  their addresses and their ports are ordered in opposite ways.  \<open>Greater\<close> is its converse and
  \<open>Equals\<close> is equality.
\<close>

lemma IPEndpoint_Less_both_ways:
  "(IPEndpoint_lt a b \<and> IPEndpoint_lt b a \<longleftrightarrow>
      (IPAddress_Less (address a) (address b) \<and> port b < port a) \<or>
      (IPAddress_Less (address b) (address a) \<and> port a < port b)) \<and>
   IPEndpoint_gt a b = IPEndpoint_lt b a \<and>
   IPEndpoint_eq a b = (a = b)"
  using IPAddress_Less_trans [of "address a" "address b" "address a"] IPAddress_Less_irrefl
  by (auto simp: IPEndpoint_lt_def IPEndpoint_gt_def IPEndpoint_eq_def IPEndpoint_Less_def
      IPEndpoint_Greater_iff split: if_splits)

end
