(* ===== verification/Sox_Config.thy ===== *)
theory Sox_Config
  imports IP_Endpoint
begin

text \<open>
  \<open>src/Src/Config.h\<close>, \<open>Config.cpp\<close>, \<open>IConfig.h\<close> and \<open>User.h\<close>: the configuration object, its
  setters and its getters.  \<open>unordered_map::insert\<close> and \<open>unordered_set::insert\<close> keep an element
  that is already there.  The resolver context is an opaque handle.
\<close>

section \<open>The configuration object\<close>

record user =
  login :: string
  password :: string

record timeval =
  tv_sec :: int
  tv_usec :: int

type_synonym dns_ctx = nat

record config =
  socketTimeout :: int
  serviceInterval :: int
  workersCount :: int
  workersSpawnCount :: int
  activeWorkersCount :: int
  dnsContext :: dns_ctx
  udnsSRCSet :: bool
  TCPBuffSz :: int
  linger :: int
  minCtSec :: int
  maxCtSec :: int
  rwTimeoutSec :: int
  hcTimeoutSec :: int
  listenAddrs :: "ip_endpoint list"
  users :: "(string \<times> user) list"
  netns :: string

definition AddListenAddr :: "ip_endpoint \<Rightarrow> config \<Rightarrow> config" where
  "AddListenAddr endpoint c =
     (if endpoint \<in> set (listenAddrs c) then c else c\<lparr>listenAddrs := listenAddrs c @ [endpoint]\<rparr>)"

definition AddUser :: "user \<Rightarrow> config \<Rightarrow> config" where
  "AddUser u c =
     (if map_of (users c) (login u) \<noteq> None then c else c\<lparr>users := (login u, u) # users c\<rparr>)"

definition SetSocketTimeoutMS :: "int \<Rightarrow> config \<Rightarrow> config" where
  "SetSocketTimeoutMS timeoutMS c = c\<lparr>socketTimeout := timeoutMS\<rparr>"

definition SetServiceIntervalMS :: "int \<Rightarrow> config \<Rightarrow> config" where
  "SetServiceIntervalMS intervalMS c = c\<lparr>serviceInterval := intervalMS\<rparr>"

definition SetWorkersCount :: "int \<Rightarrow> config \<Rightarrow> config" where
  "SetWorkersCount count c = c\<lparr>workersCount := count\<rparr>"

definition SetWorkersSpawnCount :: "int \<Rightarrow> config \<Rightarrow> config" where
  "SetWorkersSpawnCount count c = c\<lparr>workersSpawnCount := count\<rparr>"

definition SetActiveWorkersCount :: "int \<Rightarrow> config \<Rightarrow> config" where
  "SetActiveWorkersCount count c = c\<lparr>activeWorkersCount := count\<rparr>"

definition SetBaseUDNSContext :: "dns_ctx \<Rightarrow> config \<Rightarrow> config" where
  "SetBaseUDNSContext ctx c = c\<lparr>dnsContext := ctx\<rparr>"

definition SetUDNSSearchDomainIsSet :: "bool \<Rightarrow> config \<Rightarrow> config" where
  "SetUDNSSearchDomainIsSet val c = c\<lparr>udnsSRCSet := val\<rparr>"

definition SetTCPBuffSz :: "int \<Rightarrow> config \<Rightarrow> config" where
  "SetTCPBuffSz sz c = c\<lparr>TCPBuffSz := sz\<rparr>"

definition SetLingerSec :: "int \<Rightarrow> config \<Rightarrow> config" where
  "SetLingerSec sz c = c\<lparr>linger := sz\<rparr>"

definition SetMinCTimeSec :: "int \<Rightarrow> config \<Rightarrow> config" where
  "SetMinCTimeSec time c = c\<lparr>minCtSec := time\<rparr>"

definition SetMaxCTimeSec :: "int \<Rightarrow> config \<Rightarrow> config" where
  "SetMaxCTimeSec time c = c\<lparr>maxCtSec := time\<rparr>"

definition SetRWTimeSec :: "int \<Rightarrow> config \<Rightarrow> config" where
  "SetRWTimeSec time c = c\<lparr>rwTimeoutSec := time\<rparr>"

definition SetHalfCloseTimeoutSec :: "int \<Rightarrow> config \<Rightarrow> config" where
  "SetHalfCloseTimeoutSec time c = c\<lparr>hcTimeoutSec := time\<rparr>"

definition SetNetNS :: "string \<Rightarrow> config \<Rightarrow> config" where
  "SetNetNS path c = c\<lparr>netns := path\<rparr>"

lemmas config_setters =
  SetSocketTimeoutMS_def SetServiceIntervalMS_def SetWorkersCount_def SetWorkersSpawnCount_def
  SetActiveWorkersCount_def SetBaseUDNSContext_def SetUDNSSearchDomainIsSet_def SetTCPBuffSz_def
  SetLingerSec_def SetMinCTimeSec_def SetMaxCTimeSec_def SetRWTimeSec_def
  SetHalfCloseTimeoutSec_def SetNetNS_def

section \<open>Getters\<close>

definition ms_to_timeval :: "int \<Rightarrow> timeval" where
  "ms_to_timeval ms = \<lparr>tv_sec = ms sdiv 1000, tv_usec = (ms - ms sdiv 1000 * 1000) * 1000\<rparr>"

definition GetSocketTimeoutMS :: "config \<Rightarrow> int" where
  "GetSocketTimeoutMS c = socketTimeout c"

definition GetSocketTimeoutTV :: "config \<Rightarrow> timeval" where
  "GetSocketTimeoutTV c = ms_to_timeval (socketTimeout c)"

definition GetServiceIntervalMS :: "config \<Rightarrow> int" where
  "GetServiceIntervalMS c = serviceInterval c"

definition GetServiceIntervalTV :: "config \<Rightarrow> timeval" where
  "GetServiceIntervalTV c = ms_to_timeval (serviceInterval c)"

definition GetWorkersCount :: "config \<Rightarrow> int" where
  "GetWorkersCount c = workersCount c"

definition GetWorkersSpawnCount :: "config \<Rightarrow> int" where
  "GetWorkersSpawnCount c = workersSpawnCount c"

definition GetActiveWorkersCount :: "config \<Rightarrow> int" where
  "GetActiveWorkersCount c = activeWorkersCount c"

definition GetUser :: "config \<Rightarrow> string \<Rightarrow> user option" where
  "GetUser c name = map_of (users c) name"

definition GetBaseUDNSContext :: "config \<Rightarrow> dns_ctx" where
  "GetBaseUDNSContext c = dnsContext c"

definition GetUDNSSearchDomainIsSet :: "config \<Rightarrow> bool" where
  "GetUDNSSearchDomainIsSet c = udnsSRCSet c"

definition GetTCPBuffSz :: "config \<Rightarrow> int" where
  "GetTCPBuffSz c = TCPBuffSz c"

definition GetLingerSec :: "config \<Rightarrow> int" where
  "GetLingerSec c = linger c"

definition GetMinCTimeSec :: "config \<Rightarrow> int" where
  "GetMinCTimeSec c = minCtSec c"

definition GetMaxCTimeSec :: "config \<Rightarrow> int" where
  "GetMaxCTimeSec c = maxCtSec c"

definition GetRWTimeoutSec :: "config \<Rightarrow> int" where
  "GetRWTimeoutSec c = rwTimeoutSec c"

definition GetHalfCloseTimeoutSec :: "config \<Rightarrow> int" where
  "GetHalfCloseTimeoutSec c = hcTimeoutSec c"

definition GetNetNS :: "config \<Rightarrow> string" where
  "GetNetNS c = netns c"

definition GetListenAddrs :: "config \<Rightarrow> ip_endpoint list" where
  "GetListenAddrs c = listenAddrs c"

lemmas config_getters [simp] =
  GetSocketTimeoutMS_def GetServiceIntervalMS_def GetWorkersCount_def GetWorkersSpawnCount_def
  GetActiveWorkersCount_def GetBaseUDNSContext_def GetUDNSSearchDomainIsSet_def GetTCPBuffSz_def
  GetLingerSec_def GetMinCTimeSec_def GetMaxCTimeSec_def GetRWTimeoutSec_def
  GetHalfCloseTimeoutSec_def GetNetNS_def GetListenAddrs_def

section \<open>Facts about the configuration\<close>

lemma sdiv_pos: "0 \<le> a \<Longrightarrow> 0 < b \<Longrightarrow> a sdiv b = a div (b :: int)"
  by (simp add: signed_divide_int_def sgn_if)

text \<open>
  The \<open>timeval\<close> getters convert a non-negative number of milliseconds exactly, with a
  microsecond part below one second.
\<close>

lemma timeval_of_milliseconds:
  assumes "0 \<le> socketTimeout c"
  shows "tv_sec (GetSocketTimeoutTV c) * 1000000 + tv_usec (GetSocketTimeoutTV c)
      = GetSocketTimeoutMS c * 1000 \<and>
    0 \<le> tv_usec (GetSocketTimeoutTV c) \<and> tv_usec (GetSocketTimeoutTV c) < 1000000"
proof -
  have "socketTimeout c - socketTimeout c div 1000 * 1000 = socketTimeout c mod 1000"
    by (simp add: minus_div_mult_eq_mod)
  moreover have "0 \<le> socketTimeout c mod 1000" "socketTimeout c mod 1000 < 1000"
    by simp_all
  ultimately show ?thesis
    using assms by (simp add: GetSocketTimeoutTV_def ms_to_timeval_def sdiv_pos)
qed

definition sample_config :: config where
  "sample_config = \<lparr>socketTimeout = 5000, serviceInterval = 500, workersCount = 50,
     workersSpawnCount = 10, activeWorkersCount = 250, dnsContext = 0, udnsSRCSet = False,
     TCPBuffSz = 65536, linger = 30, minCtSec = 5, maxCtSec = 20, rwTimeoutSec = 60,
     hcTimeoutSec = 30, listenAddrs = [], users = [], netns = ''''\<rparr>"

lemma timeval_of_milliseconds_witness:
  "tv_sec (GetSocketTimeoutTV sample_config) * 1000000 + tv_usec (GetSocketTimeoutTV sample_config)
      = GetSocketTimeoutMS sample_config * 1000 \<and>
    0 \<le> tv_usec (GetSocketTimeoutTV sample_config) \<and>
    tv_usec (GetSocketTimeoutTV sample_config) < 1000000"
  by (rule timeval_of_milliseconds) (simp add: sample_config_def)

text \<open>The first user added under a login is the one found; adding another changes nothing.\<close>

lemma GetUser_AddUser:
  "GetUser (AddUser u c) name =
     (if name = login u \<and> GetUser c name = None then Some u else GetUser c name)"
  by (auto simp: GetUser_def AddUser_def)

lemma AddUser_known: "GetUser c (login u) \<noteq> None \<Longrightarrow> AddUser u c = c"
  by (simp add: AddUser_def GetUser_def)

end
