(* ===== verification/Sys_Calls.thy ===== *)
theory Sys_Calls
  imports Sox_Config
begin

text \<open>
  The operating system as the sources use it: the system calls they make, as values, and the
  kernel as a parameter that answers them.  The answer to a call (its return value and the
  \<open>errno\<close> it leaves) may depend on every call made before it, so nothing is assumed about the
  kernel beyond what a theorem states.  Error numbers are those of Linux.
\<close>

datatype os_call =
    SysSocket bool
  | SysSetReuseAddr int
  | SysSetReusePort int
  | SysSetLinger int int int
  | SysSetSndBuf int int
  | SysSetRcvBuf int int
  | SysSetRcvTimeo int timeval
  | SysSetSndTimeo int timeval
  | SysGetFl int
  | SysSetFlNonBlock int int
  | SysConnect int bytes
  | SysBind int bytes
  | SysListen int int
  | SysPoll int int
  | SysAccept int
  | SysClose int
  | SysShutdown int bool
  | SysEpollCreate int
  | SysEpollAdd int int u64
  | SysEpollDel int int

type_synonym kernel = "os_call list \<Rightarrow> os_call \<Rightarrow> int \<times> int"

definition EINTR :: int where "EINTR = 4"
definition EAGAIN :: int where "EAGAIN = 11"
definition ENETUNREACH :: int where "ENETUNREACH = 101"
definition ECONNREFUSED :: int where "ECONNREFUSED = 111"
definition EINPROGRESS :: int where "EINPROGRESS = 115"

lemmas errno_defs = EINTR_def EAGAIN_def ENETUNREACH_def ECONNREFUSED_def EINPROGRESS_def

end
