(* ===== verification/Comm_Helper.thy ===== *)
theory Comm_Helper
  imports Sys_Calls
begin

text \<open>
  \<open>src/Src/TCPCommHelper.*\<close>: one direction (reading or writing) of a non-blocking socket, with
  the notification counters that connect it to the epoll thread.

  \<open>Transfer\<close> runs on a job's thread while the epoll thread delivers notifications and the kernel
  answers \<open>read\<close> and \<open>write\<close>.  That environment is a list of \<open>xstep\<close>s, one per turn of the loop:
  the notifications that arrive before the turn takes the lock, what happens during each
  \<open>wait_for\<close>, and what the kernel is ready to move, with the \<open>errno\<close> the code then sees.  When the
  list is used up the environment is quiet: nothing arrives any more and the kernel answers
  \<open>EAGAIN\<close>.
\<close>

section \<open>The helper and its notifications\<close>

definition N_HUP :: u64 where "N_HUP = 0xFFFFFFFFFFFFFFFE"
definition N_CANCEL :: u64 where "N_CANCEL = 0xFFFFFFFFFFFFFFFF"

record helper =
  fd :: int
  isReader :: bool
  extCnt :: u64
  intCnt :: u64
  status :: int

definition TCPCommHelper :: "int \<Rightarrow> bool \<Rightarrow> helper" where
  "TCPCommHelper sockFD rd =
     \<lparr>fd = sockFD, isReader = rd, extCnt = 1, intCnt = 0, status = 0\<rparr>"

definition NotifyDataAvail :: "helper \<Rightarrow> helper" where
  "NotifyDataAvail h = (if extCnt h < N_HUP then h\<lparr>extCnt := extCnt h + 1\<rparr> else h)"

definition NotifyHUP :: "helper \<Rightarrow> helper" where
  "NotifyHUP h = (if extCnt h < N_HUP then h\<lparr>extCnt := N_HUP\<rparr> else h)"

definition Cancel :: "helper \<Rightarrow> helper" where
  "Cancel h = (if extCnt h < N_CANCEL then h\<lparr>extCnt := N_CANCEL\<rparr> else h)"

definition GetStatus :: "helper \<Rightarrow> int" where
  "GetStatus h =
     (if extCnt h = N_HUP then -1 else if extCnt h = N_CANCEL then -2 else status h)"

text \<open>\<open>Shutdown\<close> shuts one direction of the socket down, at most once.\<close>

definition Shutdown :: "helper \<Rightarrow> os_call list \<times> helper" where
  "Shutdown h =
     (if status h < -1 then ([], h)
      else ([SysShutdown (fd h) (isReader h)], h\<lparr>status := -2\<rparr>))"

datatype notify = DataAvail | HUP | CancelReq

fun deliver :: "notify \<Rightarrow> helper \<Rightarrow> helper" where
  "deliver DataAvail h = NotifyDataAvail h"
| "deliver HUP h = NotifyHUP h"
| "deliver CancelReq h = Cancel h"

definition deliver_all :: "notify list \<Rightarrow> helper \<Rightarrow> helper" where
  "deliver_all ns h = fold deliver ns h"

section \<open>Transfer\<close>

record xstep =
  arrivals :: "notify list"
  waits :: "(notify list \<times> bool) list"
  io_data :: bytes
  io_room :: nat
  io_eof :: bool
  io_errno :: int

definition quiet_step :: xstep where
  "quiet_step =
     \<lparr>arrivals = [], waits = [], io_data = [], io_room = 0, io_eof = False, io_errno = EAGAIN\<rparr>"

text \<open>
  The return value of \<open>read(fd, _, n)\<close> or \<open>write(fd, _, n)\<close> on a stream socket, as documented: at
  most \<open>n\<close> of the bytes the kernel has (or has room for), else 0 at the end of the stream, else -1.
\<close>

definition io_result :: "xstep \<Rightarrow> bool \<Rightarrow> int \<Rightarrow> int" where
  "io_result s rd n =
     (let avail = (if rd then length (io_data s) else io_room s)
      in if 0 < avail then min n (int avail) else if io_eof s then 0 else -1)"

text \<open>
  The inner loop: each \<open>wait_for\<close> ends with a timeout (\<open>True\<close>) or a wake-up; a wait that nothing
  ends times out.  The result says whether the outer loop goes on.
\<close>

fun wait_loop :: "(notify list \<times> bool) list \<Rightarrow> helper \<Rightarrow> bool \<times> helper" where
  "wait_loop [] h = (intCnt h < extCnt h, h)"
| "wait_loop ((ns, timeout) # ws) h =
     (if intCnt h < extCnt h then (True, h)
      else if timeout then (False, deliver_all ns h)
      else wait_loop ws (deliver_all ns h))"

text \<open>
  The state of one call: the helper, the caller's buffer, \<open>dataLeft\<close>, the bytes moved between
  buffer and socket so far in this call, and the other system calls made.
\<close>

record xfer =
  x_h :: helper
  x_buf :: bytes
  x_left :: int
  x_wire :: bytes
  x_calls :: "os_call list"

definition SetSocketFastShutdown :: "int \<Rightarrow> os_call list" where
  "SetSocketFastShutdown sock = [SysSetLinger sock 1 0]"

text \<open>The call of \<open>read\<close> or \<open>write\<close> at the cursor, and the new \<open>dataLeft\<close>.\<close>

definition io_move :: "xstep \<Rightarrow> int \<Rightarrow> helper \<Rightarrow> xfer \<Rightarrow> xfer" where
  "io_move s len h x =
     (let tSz = io_result s (isReader h) (x_left x);
          off = nat (len - x_left x);
          moved = (if isReader h then take (nat tSz) (io_data s)
                   else take (nat tSz) (drop off (x_buf x)));
          buf = (if isReader h then memcpy_at off moved (x_buf x) else x_buf x);
          dataLeft = (if tSz > 0 then x_left x - tSz else x_left x)
      in x\<lparr>x_h := h, x_buf := buf, x_left := dataLeft, x_wire := x_wire x @ moved\<rparr>)"

text \<open>
  The rest of the turn.  \<open>Some r\<close>: the function returns \<open>r\<close>; \<open>None\<close>: another turn follows.
\<close>

definition settle :: "int \<Rightarrow> int \<Rightarrow> int \<Rightarrow> bool \<Rightarrow> xfer \<Rightarrow> int option \<times> xfer" where
  "settle tSz err len allowPartial x =
     (let h = x_h x; curCnt = extCnt h
      in if x_left x < 1 then (Some len, x)
      else
      let h2 = (if curCnt < N_HUP then h\<lparr>intCnt := curCnt\<rparr> else h\<lparr>status := -1\<rparr>)
      in if allowPartial \<and> tSz > 0 then (Some (len - x_left x), x\<lparr>x_h := h2\<rparr>)
      else
      let h3 = (if err \<noteq> EAGAIN then h2\<lparr>status := -1\<rparr> else h2)
      in if status h3 < 0 then (Some (status h3), x\<lparr>x_h := h3\<rparr>)
      else (None, x\<lparr>x_h := h3\<rparr>))"

text \<open>One turn of the outer loop.\<close>

definition transfer_iter :: "xstep \<Rightarrow> int \<Rightarrow> bool \<Rightarrow> xfer \<Rightarrow> int option \<times> xfer" where
  "transfer_iter s len allowPartial x =
     (case wait_loop (waits s) (deliver_all (arrivals s) (x_h x)) of (go, h) \<Rightarrow>
      if \<not> go then (Some 0, x\<lparr>x_h := h\<rparr>)
      else if extCnt h = N_CANCEL
      then (Some (-2), x\<lparr>x_h := h\<lparr>status := -2\<rparr>, x_calls := x_calls x @ SetSocketFastShutdown (fd h)\<rparr>)
      else settle (io_result s (isReader h) (x_left x)) (io_errno s) len allowPartial
        (io_move s len h x))"

text \<open>The loop; in a quiet environment at most one more turn does not return (lemma below).\<close>

fun transfer_loop :: "xstep list \<Rightarrow> int \<Rightarrow> bool \<Rightarrow> xfer \<Rightarrow> int \<times> xfer" where
  "transfer_loop [] len allowPartial x =
     (case transfer_iter quiet_step len allowPartial x of
        (Some r, x') \<Rightarrow> (r, x')
      | (None, x') \<Rightarrow> (0, x'))"
| "transfer_loop (s # ss) len allowPartial x =
     (case transfer_iter s len allowPartial x of
        (Some r, x') \<Rightarrow> (r, x')
      | (None, x') \<Rightarrow> transfer_loop ss len allowPartial x')"

definition Transfer :: "xstep list \<Rightarrow> bytes \<Rightarrow> int \<Rightarrow> bool \<Rightarrow> helper \<Rightarrow> int \<times> xfer" where
  "Transfer ss target len allowPartial h =
     (let x = \<lparr>x_h = h, x_buf = target, x_left = len, x_wire = [], x_calls = []\<rparr>
      in if status h < 0 then (status h, x)
      else if len < 1 then (0, x)
      else transfer_loop ss len allowPartial x)"

section \<open>The helper's invariant\<close>

text \<open>
  The internal counter never passes the external one and never takes one of the two reserved
  values; the status is one of the three the interface documents by use.
\<close>

definition helper_ok :: "helper \<Rightarrow> bool" where
  "helper_ok h \<longleftrightarrow> intCnt h \<le> extCnt h \<and> intCnt h < N_HUP \<and> status h \<in> {0, -1, -2}"

lemma N_order [simp]:
  "N_HUP < N_CANCEL" "N_CANCEL \<noteq> N_HUP" "N_HUP \<noteq> N_CANCEL" "\<not> N_CANCEL < N_HUP"
  by (simp_all add: N_HUP_def N_CANCEL_def)

lemma below_HUP_below_CANCEL: "x < N_HUP \<Longrightarrow> x < N_CANCEL"
  using order_less_trans [of x N_HUP N_CANCEL] by simp

lemma N_CANCEL_top: "x \<le> N_CANCEL"
proof -
  have "unat x < 2 ^ 64" using unsigned_less [of x, where 'a = nat] by simp
  then show ?thesis by (simp add: N_CANCEL_def word_le_nat_alt)
qed

lemma u64_inc_le: "x < N_HUP \<Longrightarrow> x \<le> x + (1 :: u64)"
  by (simp add: N_HUP_def word_le_nat_alt word_less_nat_alt unat_word_ariths)

lemma extCnt_deliver_mono: "extCnt h \<le> extCnt (deliver n h)"
  by (cases n) (auto simp: NotifyDataAvail_def NotifyHUP_def Cancel_def u64_inc_le N_CANCEL_top)

lemma deliver_frame [simp]:
  "intCnt (deliver n h) = intCnt h" "status (deliver n h) = status h"
  "fd (deliver n h) = fd h" "isReader (deliver n h) = isReader h"
  by (cases n; simp add: NotifyDataAvail_def NotifyHUP_def Cancel_def)+

lemma deliver_all_frame [simp]:
  "intCnt (deliver_all ns h) = intCnt h" "status (deliver_all ns h) = status h"
  "fd (deliver_all ns h) = fd h" "isReader (deliver_all ns h) = isReader h"
  by (induction ns arbitrary: h) (simp_all add: deliver_all_def)

lemma extCnt_deliver_all_mono: "extCnt h \<le> extCnt (deliver_all ns h)"
  by (induction ns arbitrary: h)
    (auto simp: deliver_all_def intro: order_trans [OF extCnt_deliver_mono])

lemma helper_ok_deliver_all: "helper_ok h \<Longrightarrow> helper_ok (deliver_all ns h)"
  using extCnt_deliver_all_mono [of h ns] by (auto simp: helper_ok_def intro: order_trans)

lemma helper_ok_new: "helper_ok (TCPCommHelper sock rd)"
  by (simp add: helper_ok_def TCPCommHelper_def N_HUP_def)

lemma helper_ok_Shutdown: "helper_ok h \<Longrightarrow> helper_ok (snd (Shutdown h))"
  by (auto simp: helper_ok_def Shutdown_def)

lemma wait_loop_frame:
  "wait_loop ws h = (go, h') \<Longrightarrow>
    intCnt h' = intCnt h \<and> status h' = status h \<and> fd h' = fd h \<and> isReader h' = isReader h \<and>
    extCnt h \<le> extCnt h' \<and> (go \<longrightarrow> intCnt h' < extCnt h')"
proof (induction ws h arbitrary: go h' rule: wait_loop.induct)
  case (1 h)
  then show ?case by auto
next
  case (2 ns timeout ws h)
  show ?case
  proof (cases "intCnt h < extCnt h \<or> timeout")
    case True
    with "2.prems" show ?thesis
      using extCnt_deliver_all_mono [of h ns] by (auto split: if_splits)
  next
    case False
    with "2.prems" have "wait_loop ws (deliver_all ns h) = (go, h')" by simp
    with False have "intCnt h' = intCnt (deliver_all ns h) \<and> status h' = status (deliver_all ns h) \<and>
        fd h' = fd (deliver_all ns h) \<and> isReader h' = isReader (deliver_all ns h) \<and>
        extCnt (deliver_all ns h) \<le> extCnt h' \<and> (go \<longrightarrow> intCnt h' < extCnt h')"
      using "2.IH" by blast
    moreover have "extCnt h \<le> extCnt (deliver_all ns h)"
      by (rule extCnt_deliver_all_mono)
    ultimately show ?thesis by auto
  qed
qed

lemma settle_helper_ok:
  assumes "helper_ok (x_h x)" and "settle tSz err len p x = (r, x')"
  shows "helper_ok (x_h x') \<and> isReader (x_h x') = isReader (x_h x) \<and> fd (x_h x') = fd (x_h x)"
  using assms by (auto simp: settle_def Let_def helper_ok_def split: if_splits)

lemma io_move_helper [simp]: "x_h (io_move s len h x) = h"
  by (simp add: io_move_def Let_def)

lemma transfer_iter_helper_ok:
  assumes "helper_ok (x_h x)" and "transfer_iter s len p x = (r, x')"
  shows "helper_ok (x_h x') \<and> isReader (x_h x') = isReader (x_h x) \<and> fd (x_h x') = fd (x_h x)"
proof -
  obtain go h where w: "wait_loop (waits s) (deliver_all (arrivals s) (x_h x)) = (go, h)"
    by fastforce
  have h: "helper_ok h" "isReader h = isReader (x_h x)" "fd h = fd (x_h x)"
    using wait_loop_frame [OF w] helper_ok_deliver_all [OF assms(1), of "arrivals s"]
    by (auto simp: helper_ok_def intro: order_trans)
  have cancelled: "helper_ok (h\<lparr>status := -2\<rparr>)" using h(1) by (simp add: helper_ok_def)
  show ?thesis
    using assms(2) h cancelled settle_helper_ok [of "io_move s len h x" _ _ len p r x']
    by (auto simp: transfer_iter_def w split: if_splits)
qed

lemma transfer_loop_helper_ok:
  "helper_ok (x_h x) \<Longrightarrow> transfer_loop ss len p x = (r, x') \<Longrightarrow>
    helper_ok (x_h x') \<and> isReader (x_h x') = isReader (x_h x) \<and> fd (x_h x') = fd (x_h x)"
proof (induction ss arbitrary: x)
  case Nil
  then show ?case
    by (auto split: prod.splits option.splits dest: transfer_iter_helper_ok)
next
  case (Cons s ss)
  obtain ro x1 where it: "transfer_iter s len p x = (ro, x1)"
    by fastforce
  note ok1 = transfer_iter_helper_ok [OF Cons.prems(1) it]
  then show ?case
    using Cons.IH [of x1] Cons.prems(2) it by (auto split: option.splits)
qed

lemma Transfer_helper_ok:
  assumes "helper_ok h" and "Transfer ss target len p h = (r, x)"
  shows "helper_ok (x_h x) \<and> isReader (x_h x) = isReader h \<and> fd (x_h x) = fd h"
  using assms transfer_loop_helper_ok [of "\<lparr>x_h = h, x_buf = target, x_left = len, x_wire = [], x_calls = []\<rparr>"]
  by (auto simp: Transfer_def Let_def split: if_splits)

section \<open>What a transfer moves\<close>

lemma io_result_le: "0 < n \<Longrightarrow> io_result s rd n \<le> n"
  by (simp add: io_result_def Let_def)

lemma io_result_data: "io_result s True n \<le> int (length (io_data s))"
  by (simp add: io_result_def Let_def)

text \<open>
  While the loop runs, the bytes moved are the part of the buffer before the cursor.
\<close>

definition xinv :: "int \<Rightarrow> bytes \<Rightarrow> xfer \<Rightarrow> bool" where
  "xinv len buf0 x \<longleftrightarrow>
     0 \<le> x_left x \<and> x_left x \<le> len \<and> len \<le> int (length buf0) \<and> length (x_buf x) = length buf0 \<and>
     x_wire x = take (nat (len - x_left x)) (x_buf x) \<and>
     drop (nat (len - x_left x)) (x_buf x) = drop (nat (len - x_left x)) buf0 \<and>
     (\<not> isReader (x_h x) \<longrightarrow> x_buf x = buf0)"

text \<open>When the call returns \<open>r\<close>, a positive \<open>r\<close> is the number of bytes moved.\<close>

definition xdone :: "int \<Rightarrow> bool \<Rightarrow> bytes \<Rightarrow> int \<Rightarrow> xfer \<Rightarrow> bool" where
  "xdone len p buf0 r x \<longleftrightarrow>
     length (x_buf x) = length buf0 \<and>
     (\<exists>k \<le> length buf0. x_wire x = take k (x_buf x) \<and> drop k (x_buf x) = drop k buf0 \<and>
        (0 < r \<longrightarrow> k = nat r) \<and> (r \<le> 0 \<longrightarrow> int k < len)) \<and>
     r \<le> len \<and> r \<in> {-2, -1, 0, len} \<union> (if p then {1..<len} else {}) \<and>
     (\<not> isReader (x_h x) \<longrightarrow> x_buf x = buf0)"

lemma xinv_upd_h: "xinv len buf0 x \<Longrightarrow> isReader h = isReader (x_h x) \<Longrightarrow> xinv len buf0 (x\<lparr>x_h := h\<rparr>)"
  by (simp add: xinv_def)

lemma xinv_upd_calls: "xinv len buf0 (x\<lparr>x_calls := cs\<rparr>) = xinv len buf0 x"
  by (simp add: xinv_def)

lemma xinv_done:
  assumes "xinv len buf0 x" and "x_left x > 0" and "r \<in> {0, -1, -2}"
  shows "xdone len p buf0 r x"
  using assms unfolding xinv_def xdone_def by (auto intro!: exI [of _ "nat (len - x_left x)"])

lemma xinv_done_full:
  assumes "xinv len buf0 x" and "x_left x = 0" and "0 < len"
  shows "xdone len p buf0 len x"
  using assms unfolding xinv_def xdone_def by (auto intro!: exI [of _ "nat len"])

lemma xinv_done_partial:
  assumes "xinv len buf0 x" and "0 < x_left x" and "x_left x < len"
  shows "xdone len True buf0 (len - x_left x) x"
  using assms unfolding xinv_def xdone_def by (auto intro!: exI [of _ "nat (len - x_left x)"])

text \<open>A kernel answer within its contract advances the cursor and keeps the invariant.\<close>

lemma xinv_io_move:
  assumes inv: "xinv len buf0 x" and pos: "0 < x_left x" and rd: "isReader h = isReader (x_h x)"
  shows "xinv len buf0 (io_move s len h x)"
proof -
  define sz where "sz = io_result s (isReader h) (x_left x)"
  have sz: "sz \<le> x_left x" and data: "isReader h \<Longrightarrow> nat sz \<le> length (io_data s)"
    using io_result_le [OF pos] io_result_data [of s "x_left x"] by (auto simp: sz_def)
  define off where "off = nat (len - x_left x)"
  define moved where "moved = (if isReader h then take (nat sz) (io_data s)
                   else take (nat sz) (drop off (x_buf x)))"
  define buf where "buf = (if isReader h then memcpy_at off moved (x_buf x) else x_buf x)"
  define left where "left = (if sz > 0 then x_left x - sz else x_left x)"
  have off: "int off = len - x_left x" and fits0: "off + nat (x_left x) \<le> length (x_buf x)"
    using inv by (auto simp: xinv_def off_def)
  have lm: "length moved = nat sz"
    using inv sz data fits0 by (auto simp: moved_def xinv_def)
  have nl: "nat (len - left) = off + length moved"
    using off lm inv by (auto simp: left_def xinv_def)
  have fits: "off + length moved \<le> length (x_buf x)"
    using inv sz fits0 lm by (auto simp: xinv_def)
  have len_buf: "length buf = length buf0"
    using fits inv by (auto simp: buf_def length_memcpy_at xinv_def)
  have wire: "x_wire x = take off (x_buf x)" and rest: "drop off (x_buf x) = drop off buf0"
    using inv by (simp_all add: xinv_def off_def)
  have wire': "x_wire x @ moved = take (nat (len - left)) buf"
    using wire nl fits lm by (auto simp: buf_def moved_def memcpy_at_def take_add)
  have "drop (off + length moved) (x_buf x) = drop (off + length moved) buf0"
    using rest by (metis add.commute drop_drop)
  then have rest': "drop (nat (len - left)) buf = drop (nat (len - left)) buf0"
    using nl fits by (auto simp: buf_def memcpy_at_def)
  have "io_move s len h x =
      x\<lparr>x_h := h, x_buf := buf, x_left := left, x_wire := x_wire x @ moved\<rparr>"
    by (simp add: io_move_def Let_def off_def moved_def buf_def left_def sz_def)
  then show ?thesis
    using inv sz rd len_buf wire' rest' by (auto simp: xinv_def left_def buf_def)
qed

lemma settle_moves:
  assumes inv: "xinv len buf0 x" and "0 < len" and st: "status (x_h x) = 0"
    and pos: "tSz > 0 \<longrightarrow> x_left x < len"
    and it: "settle tSz err len p x = (ro, x')"
  shows "case ro of Some r \<Rightarrow> xdone len p buf0 r x'
    | None \<Rightarrow> xinv len buf0 x' \<and> status (x_h x') = 0 \<and> 0 < x_left x' \<and> x_left x' = x_left x"
proof (cases "x_left x < 1")
  case True
  then have "x_left x = 0" using inv by (simp add: xinv_def)
  then have "xdone len p buf0 len x" using inv assms(2) by (intro xinv_done_full)
  with it True show ?thesis by (auto simp: settle_def Let_def)
next
  case False
  have upd: "xinv len buf0 (x\<lparr>x_h := h\<rparr>)" if "isReader h = isReader (x_h x)" for h
    using inv that by (rule xinv_upd_h)
  have neg: "xdone len p buf0 (-1) (x\<lparr>x_h := h\<rparr>)" if "isReader h = isReader (x_h x)" for h
    using upd [OF that] False by (intro xinv_done) simp_all
  have part: "xdone len True buf0 (len - x_left x) (x\<lparr>x_h := h\<rparr>)"
    if "isReader h = isReader (x_h x)" "tSz > 0" for h
    using xinv_done_partial [OF upd [OF that(1)]] False pos that by simp
  show ?thesis
    using it False st upd neg part
    by (auto simp: settle_def Let_def split: if_splits)
qed

lemma transfer_iter_moves:
  assumes inv: "xinv len buf0 x" "0 < x_left x" and st: "status (x_h x) = 0"
    and it: "transfer_iter s len p x = (ro, x')"
  shows "case ro of Some r \<Rightarrow> xdone len p buf0 r x'
    | None \<Rightarrow> xinv len buf0 x' \<and> status (x_h x') = 0 \<and> 0 < x_left x'"
proof -
  obtain go h where w: "wait_loop (waits s) (deliver_all (arrivals s) (x_h x)) = (go, h)"
    by fastforce
  have h: "isReader h = isReader (x_h x)" "status h = 0"
    using wait_loop_frame [OF w] st by auto
  have zero: "xdone len p buf0 0 (x\<lparr>x_h := h\<rparr>)"
    using inv h by (intro xinv_done xinv_upd_h) auto
  have cancel: "xdone len p buf0 (-2) (x\<lparr>x_h := h\<lparr>status := -2\<rparr>, x_calls := cs\<rparr>)" for cs
    using inv h by (intro xinv_done) (auto simp: xinv_upd_calls intro: xinv_upd_h)
  let ?m = "io_move s len h x"
  have m: "xinv len buf0 ?m"
    using inv h by (intro xinv_io_move) auto
  let ?sz = "io_result s (isReader h) (x_left x)"
  have mleft: "x_left ?m = (if ?sz > 0 then x_left x - ?sz else x_left x)" "x_h ?m = h"
    by (simp_all add: io_move_def Let_def)
  have lt: "0 < len" "x_left x \<le> len" using inv by (auto simp: xinv_def)
  show ?thesis
  proof (cases "\<not> go \<or> extCnt h = N_CANCEL")
    case True
    then show ?thesis
      using it zero cancel by (cases go) (auto simp: transfer_iter_def w)
  next
    case False
    then have "settle ?sz (io_errno s) len p ?m = (ro, x')"
      using it by (simp add: transfer_iter_def w)
    then show ?thesis
      using settle_moves [OF m lt(1), of ?sz "io_errno s" p ro x'] mleft h lt by (auto split: option.splits)
  qed
qed

lemma transfer_loop_moves:
  assumes "xinv len buf0 x" and "0 < x_left x" and "status (x_h x) = 0"
    and "transfer_loop ss len p x = (r, x')"
  shows "xdone len p buf0 r x'"
  using assms
proof (induction ss arbitrary: x)
  case Nil
  obtain ro x1 where it: "transfer_iter quiet_step len p x = (ro, x1)"
    by fastforce
  show ?case
    using transfer_iter_moves [OF Nil.prems(1-3) it] Nil.prems(4) it
    by (auto split: option.splits intro: xinv_done)
next
  case (Cons s ss)
  obtain ro x1 where it: "transfer_iter s len p x = (ro, x1)"
    by fastforce
  show ?case
    using transfer_iter_moves [OF Cons.prems(1-3) it] Cons.prems(4) Cons.IH [of x1] it
    by (auto split: option.splits)
qed

lemma Transfer_xdone:
  assumes "helper_ok h" and "len \<le> int (length target)"
    and "0 < len" and "Transfer ss target len allowPartial h = (r, x)"
  shows "xdone len allowPartial target r x"
proof (cases "status h < 0")
  case True
  with assms show ?thesis
    by (auto simp: Transfer_def Let_def xdone_def helper_ok_def intro!: exI [of _ 0])
next
  case False
  then have st: "status h = 0" using assms(1) by (auto simp: helper_ok_def)
  show ?thesis
    using assms False st
    by (intro transfer_loop_moves [of len target
          "\<lparr>x_h = h, x_buf = target, x_left = len, x_wire = [], x_calls = []\<rparr>"])
      (auto simp: Transfer_def Let_def xinv_def)
qed

text \<open>
  C22.  \<open>Transfer\<close> moves a prefix of the buffer and nothing else.  If it returns a positive number,
  that many bytes went through the socket, they are the first bytes of the buffer (read into it or
  written from it, in order) and the rest of the buffer is unchanged; it returns at most \<open>len\<close>, and
  less than \<open>len\<close> only with \<open>allowPartial\<close>.  If it returns zero or a negative number, fewer than
  \<open>len\<close> bytes went through, again a prefix of the buffer.  A writer never changes the buffer.
\<close>

theorem Transfer_moves_prefix:
  assumes "helper_ok h" and "len \<le> int (length target)"
    and "0 < len" and "Transfer ss target len allowPartial h = (r, x)"
  shows "length (x_buf x) = length target \<and>
    (if 0 < r
     then r \<le> len \<and> x_wire x = take (nat r) (x_buf x) \<and>
       drop (nat r) (x_buf x) = drop (nat r) target \<and> (r = len \<or> allowPartial)
     else r \<in> {0, -1, -2} \<and>
       (\<exists>k. int k < len \<and> x_wire x = take k (x_buf x) \<and> drop k (x_buf x) = drop k target)) \<and>
    (isReader h \<or> x_buf x = target)"
  using Transfer_xdone [OF assms] Transfer_helper_ok [OF assms(1,4)] assms(3)
  by (auto simp: xdone_def split: if_splits)

definition reader_example :: helper where
  "reader_example = TCPCommHelper 7 True"

definition two_reads :: "xstep list" where
  "two_reads =
     [\<lparr>arrivals = [], waits = [], io_data = [5, 1], io_room = 0, io_eof = False, io_errno = EAGAIN\<rparr>,
      \<lparr>arrivals = [DataAvail], waits = [], io_data = [0, 9], io_room = 0, io_eof = False, io_errno = 0\<rparr>]"

theorem Transfer_moves_prefix_witness:
  "\<exists>x. Transfer two_reads [0, 0, 0, 0] 3 False reader_example = (3, x) \<and>
     length (x_buf x) = length [0, 0, 0, 0 :: byte] \<and> x_wire x = take 3 (x_buf x)"
proof -
  have run: "fst (Transfer two_reads [0, 0, 0, 0] 3 False reader_example) = 3"
    by (simp add: Transfer_def transfer_iter_def settle_def io_move_def io_result_def Let_def
        reader_example_def two_reads_def TCPCommHelper_def deliver_all_def NotifyDataAvail_def
        N_HUP_def N_CANCEL_def EAGAIN_def)
  then obtain x where x: "Transfer two_reads [0, 0, 0, 0] 3 False reader_example = (3, x)"
    by (metis prod.collapse)
  have ok: "helper_ok reader_example"
    by (simp add: reader_example_def helper_ok_new)
  show ?thesis
    using Transfer_moves_prefix [OF ok _ _ x] x by simp
qed

section \<open>Partial transfers lose nothing\<close>

text \<open>With \<open>allowPartial\<close>, a transfer that reports no progress has moved nothing.\<close>

lemma transfer_iter_partial:
  assumes "transfer_iter s len True x = (ro, x')" and "x_wire x = []" and "x_left x = len" and "0 < len"
  shows "(ro = None \<longrightarrow> x_wire x' = [] \<and> x_left x' = len) \<and> (\<forall>r. ro = Some r \<and> r \<le> 0 \<longrightarrow> x_wire x' = [])"
proof -
  obtain go h where w: "wait_loop (waits s) (deliver_all (arrivals s) (x_h x)) = (go, h)"
    by fastforce
  show ?thesis
    using assms by (auto simp: transfer_iter_def w settle_def io_move_def Let_def split: if_splits)
qed

lemma transfer_loop_partial:
  assumes "transfer_loop ss len True x = (r, x')" and "x_wire x = []" and "x_left x = len" and "0 < len"
    and "r \<le> 0"
  shows "x_wire x' = []"
  using assms
proof (induction ss arbitrary: x)
  case Nil
  obtain ro x1 where it: "transfer_iter quiet_step len True x = (ro, x1)" by fastforce
  show ?case
    using transfer_iter_partial [OF it] Nil.prems it by (auto split: option.splits)
next
  case (Cons s ss)
  obtain ro x1 where it: "transfer_iter s len True x = (ro, x1)" by fastforce
  show ?case
    using transfer_iter_partial [OF it] Cons.prems Cons.IH [of x1] it by (auto split: option.splits)
qed

lemma Transfer_partial_none:
  assumes "Transfer ss target len True h = (r, x)" and "r \<le> 0"
  shows "x_wire x = []"
  using assms transfer_loop_partial [of ss len]
  by (auto simp: Transfer_def Let_def split: if_splits)

text \<open>
  A writer whose socket has room for the whole transfer or for nothing: a transfer that reports no
  progress has moved nothing either.
\<close>

definition smooth :: "int \<Rightarrow> xstep \<Rightarrow> bool" where
  "smooth n s \<longleftrightarrow> io_room s = 0 \<or> n \<le> int (io_room s)"

lemma transfer_iter_smooth:
  assumes "transfer_iter s len p x = (ro, x')" and "x_wire x = []" and "x_left x = len" and "0 < len"
    and "smooth len s" and "\<not> isReader (x_h x)"
  shows "(ro = None \<longrightarrow> x_wire x' = [] \<and> x_left x' = len \<and> \<not> isReader (x_h x')) \<and>
    (\<forall>r. ro = Some r \<and> r \<le> 0 \<longrightarrow> x_wire x' = [])"
proof -
  obtain go h where w: "wait_loop (waits s) (deliver_all (arrivals s) (x_h x)) = (go, h)"
    by fastforce
  have rd: "\<not> isReader h" using wait_loop_frame [OF w] assms(6) by simp
  have "io_result s (isReader h) len \<le> 0 \<or> io_result s (isReader h) len = len"
    using rd assms(4,5) by (auto simp: io_result_def smooth_def Let_def)
  then show ?thesis
    using assms rd by (auto simp: transfer_iter_def w settle_def io_move_def Let_def split: if_splits)
qed

lemma transfer_loop_smooth:
  assumes "transfer_loop ss len p x = (r, x')" and "x_wire x = []" and "x_left x = len" and "0 < len"
    and "list_all (smooth len) ss" and "\<not> isReader (x_h x)" and "r \<le> 0"
  shows "x_wire x' = []"
  using assms
proof (induction ss arbitrary: x)
  case Nil
  obtain ro x1 where it: "transfer_iter quiet_step len p x = (ro, x1)" by fastforce
  have "smooth len quiet_step" by (simp add: smooth_def quiet_step_def)
  then show ?case
    using transfer_iter_smooth [OF it] Nil.prems it by (auto split: option.splits)
next
  case (Cons s ss)
  obtain ro x1 where it: "transfer_iter s len p x = (ro, x1)" by fastforce
  show ?case
    using transfer_iter_smooth [OF it] Cons.prems Cons.IH [of x1] it by (auto split: option.splits)
qed

lemma Transfer_smooth_none:
  assumes "Transfer ss target len p h = (r, x)" and "r \<le> 0" and "list_all (smooth len) ss" and "\<not> isReader h"
  shows "x_wire x = []"
  using assms transfer_loop_smooth [of ss len p]
  by (auto simp: Transfer_def Let_def split: if_splits)

section \<open>The loop ends when the environment is quiet\<close>

text \<open>
  A turn that does not return has recorded the external counter, so in a quiet environment the next
  turn times out: \<open>transfer_loop\<close> may stop after one quiet turn.
\<close>

lemma quiet_turn_then_timeout:
  assumes "helper_ok (x_h x)" and "transfer_iter quiet_step len p x = (None, x')"
  shows "transfer_iter quiet_step len p x' = (Some 0, x')"
proof -
  have "intCnt (x_h x') = extCnt (x_h x')"
    using assms
    by (auto simp: transfer_iter_def settle_def io_move_def quiet_step_def Let_def deliver_all_def
        helper_ok_def split: if_splits)
  then show ?thesis
    by (simp add: transfer_iter_def quiet_step_def deliver_all_def)
qed

section \<open>Notifications latch\<close>

text \<open>
  What the counters mean to the two sides: a connection is open until it hangs up, and a cancel
  request overrides everything for good.
\<close>

datatype link = Open | HungUp | Cancelled

fun link_step :: "notify \<Rightarrow> link \<Rightarrow> link" where
  "link_step DataAvail l = l"
| "link_step HUP l = (case l of Cancelled \<Rightarrow> Cancelled | _ \<Rightarrow> HungUp)"
| "link_step CancelReq l = Cancelled"

definition abs_link :: "helper \<Rightarrow> link" where
  "abs_link h = (if extCnt h = N_CANCEL then Cancelled else if extCnt h = N_HUP then HungUp else Open)"

lemma extCnt_trichotomy: "extCnt h < N_HUP \<or> extCnt h = N_HUP \<or> extCnt h = N_CANCEL"
proof -
  have "unat (extCnt h) < 2 ^ 64" using unsigned_less [of "extCnt h", where 'a = nat] by simp
  then show ?thesis
    by (auto simp: N_HUP_def N_CANCEL_def word_less_nat_alt word_unat_eq_iff)
qed

lemma deliver_step:
  assumes "unat (extCnt h) + Suc n < unat N_HUP \<or> abs_link h \<noteq> Open"
  shows "abs_link (deliver e h) = link_step e (abs_link h) \<and>
    (unat (extCnt (deliver e h)) + n < unat N_HUP \<or> abs_link (deliver e h) \<noteq> Open)"
proof -
  have inc: "unat (x + 1) = Suc (unat x)" if "x < N_HUP" for x :: u64
    using that by (simp add: N_HUP_def word_less_nat_alt unat_word_ariths)
  have ne: "x \<noteq> N_HUP" "x \<noteq> N_CANCEL" if "unat x + m < unat N_HUP" for x m
    using that by (auto simp: N_HUP_def N_CANCEL_def)
  show ?thesis
    using assms extCnt_trichotomy [of h] inc [of "extCnt h"] ne [of "extCnt h + 1" 0]
      below_HUP_below_CANCEL [of "extCnt h"]
    by (cases e)
      (auto simp: abs_link_def NotifyDataAvail_def NotifyHUP_def Cancel_def split: if_splits)
qed

text \<open>
  C32.  The 64-bit counter implements the latch: after any sequence of notifications the helper is
  open, hung up or cancelled exactly as the abstract link is, as long as the number of
  notifications stays below the reserved values.
\<close>

theorem deliver_all_refines_link:
  assumes "unat (extCnt h) + length ns < unat N_HUP \<or> abs_link h \<noteq> Open"
  shows "abs_link (deliver_all ns h) = fold link_step ns (abs_link h)"
  using assms
proof (induction ns arbitrary: h)
  case Nil
  then show ?case by (simp add: deliver_all_def)
next
  case (Cons n ns)
  have "abs_link (deliver n h) = link_step n (abs_link h)"
    "unat (extCnt (deliver n h)) + length ns < unat N_HUP \<or> abs_link (deliver n h) \<noteq> Open"
    using deliver_step [of h "length ns" n] Cons.prems by auto
  then show ?case
    using Cons.IH [of "deliver n h"] by (simp add: deliver_all_def)
qed

theorem deliver_all_refines_link_witness:
  "abs_link (deliver_all [DataAvail, HUP, DataAvail, CancelReq, HUP] reader_example) =
     fold link_step [DataAvail, HUP, DataAvail, CancelReq, HUP] (abs_link reader_example)"
  by (rule deliver_all_refines_link) (simp add: reader_example_def TCPCommHelper_def N_HUP_def)

lemma deliver_all_cancelled: "extCnt h = N_CANCEL \<Longrightarrow> deliver_all ns h = h"
proof (induction ns)
  case (Cons n ns)
  then show ?case
    by (cases n) (simp_all add: deliver_all_def NotifyDataAvail_def NotifyHUP_def Cancel_def)
qed (simp add: deliver_all_def)

lemma Transfer_cancelled:
  assumes "helper_ok h" and "extCnt h = N_CANCEL" and "status h = 0" and "0 < len"
  shows "Transfer ss target len p h = (-2, \<lparr>x_h = h\<lparr>status := -2\<rparr>, x_buf = target, x_left = len,
    x_wire = [], x_calls = [SysSetLinger (fd h) 1 0]\<rparr>)"
proof -
  let ?x = "\<lparr>x_h = h, x_buf = target, x_left = len, x_wire = [], x_calls = []\<rparr>"
  have lt: "intCnt h < extCnt h"
    using assms(1,2) below_HUP_below_CANCEL [of "intCnt h"] by (simp add: helper_ok_def)
  have wait: "wait_loop ws h = (True, h)" for ws
    using lt by (cases ws) auto
  have iter: "transfer_iter s len p ?x =
      (Some (-2), ?x\<lparr>x_h := h\<lparr>status := -2\<rparr>, x_calls := [SysSetLinger (fd h) 1 0]\<rparr>)" for s
    using assms(2) by (simp add: transfer_iter_def deliver_all_cancelled wait SetSocketFastShutdown_def)
  then show ?thesis
    using assms(3,4) by (cases ss) (simp_all add: Transfer_def)
qed

text \<open>
  After a cancel request a transfer ends at once: it moves no byte, switches the socket to a
  hard close, and returns \<open>-2\<close>; every later transfer on the same helper returns \<open>-2\<close> too.
\<close>

lemma Transfer_after_cancel:
  assumes "helper_ok h" and "extCnt h = N_CANCEL" and "status h = 0" and "0 < len"
  shows "\<exists>x. Transfer ss target len allowPartial h = (-2, x) \<and> x_wire x = [] \<and> x_buf x = target \<and>
    x_calls x = [SysSetLinger (fd h) 1 0] \<and> status (x_h x) = -2 \<and>
    (\<forall>ss' target' len' p'. fst (Transfer ss' target' len' p' (x_h x)) = -2)"
  using Transfer_cancelled [OF assms] by (simp add: Transfer_def)

lemma Transfer_after_cancel_witness:
  "\<exists>x. Transfer [quiet_step] [1, 2] 2 True (Cancel reader_example) = (-2, x) \<and> x_wire x = [] \<and>
    x_buf x = [1, 2] \<and> x_calls x = [SysSetLinger (fd (Cancel reader_example)) 1 0] \<and>
    status (x_h x) = -2 \<and>
    (\<forall>ss' target' len' p'. fst (Transfer ss' target' len' p' (x_h x)) = -2)"
  by (rule Transfer_after_cancel)
    (simp_all add: reader_example_def TCPCommHelper_def Cancel_def helper_ok_def N_HUP_def N_CANCEL_def)

section \<open>Short transfers\<close>

lemma wait_loop_ready: "intCnt h < extCnt h \<Longrightarrow> wait_loop ws h = (True, h)"
  by (cases ws) auto

text \<open>The first turn of a call that must be complete, when the kernel moves only a part.\<close>

lemma first_turn_short:
  fixes h :: helper and s :: xstep and len :: int and target :: bytes
  assumes "intCnt h < extCnt h" and "extCnt h < N_HUP" and "status h = 0"
    and "arrivals s = []" and "0 < io_result s (isReader h) len" and "io_result s (isReader h) len < len"
  defines "x \<equiv> io_move s len h \<lparr>x_h = h, x_buf = target, x_left = len, x_wire = [], x_calls = []\<rparr>"
  shows "transfer_iter s len False \<lparr>x_h = h, x_buf = target, x_left = len, x_wire = [], x_calls = []\<rparr> =
    (if io_errno s \<noteq> EAGAIN then (Some (-1), x\<lparr>x_h := h\<lparr>intCnt := extCnt h, status := -1\<rparr>\<rparr>)
     else (None, x\<lparr>x_h := h\<lparr>intCnt := extCnt h\<rparr>\<rparr>))"
    and "x_left x = len - io_result s (isReader h) len"
  using assms below_HUP_below_CANCEL [of "extCnt h"]
  by (auto simp: transfer_iter_def settle_def io_move_def Let_def deliver_all_def wait_loop_ready)

text \<open>
  C38.  A successful but short \<open>read\<close> or \<open>write\<close> in a transfer that must be complete is treated as an
  error unless \<open>errno\<close> happens to hold \<open>EAGAIN\<close> from an earlier call: \<open>Transfer\<close> returns \<open>-1\<close> although
  the kernel moved bytes and reported no error.
\<close>

theorem Transfer_short_io_stale_errno:
  assumes "intCnt h < extCnt h" and "extCnt h < N_HUP" and "status h = 0"
    and "arrivals s = []" and "0 < io_result s (isReader h) len" and "io_result s (isReader h) len < len" and "io_errno s \<noteq> EAGAIN"
  shows "fst (Transfer (s # ss) target len False h) = -1 \<and>
    x_left (snd (Transfer (s # ss) target len False h)) = len - io_result s (isReader h) len \<and>
    status (x_h (snd (Transfer (s # ss) target len False h))) = -1"
  using first_turn_short [OF assms(1-6), of target] assms(3,5,6,7) by (simp add: Transfer_def)

theorem Transfer_short_io_stale_errno_witness:
  "fst (Transfer [\<lparr>arrivals = [], waits = [], io_data = [10, 0], io_room = 0, io_eof = False, io_errno = 0\<rparr>]
      (replicate 512 0) 4 False reader_example) = -1 \<and>
    x_left (snd (Transfer [\<lparr>arrivals = [], waits = [], io_data = [10, 0], io_room = 0, io_eof = False, io_errno = 0\<rparr>]
      (replicate 512 0) 4 False reader_example)) = 4 - 2 \<and>
    status (x_h (snd (Transfer [\<lparr>arrivals = [], waits = [], io_data = [10, 0], io_room = 0, io_eof = False, io_errno = 0\<rparr>]
      (replicate 512 0) 4 False reader_example))) = -1"
  using Transfer_short_io_stale_errno
    [of reader_example "\<lparr>arrivals = [], waits = [], io_data = [10, 0], io_room = 0, io_eof = False, io_errno = 0\<rparr>" 4 "[]"
      "replicate 512 0"]
  by (simp add: reader_example_def TCPCommHelper_def N_HUP_def EAGAIN_def io_result_def)

text \<open>
  C39.  A complete transfer that times out after moving a part returns \<open>0\<close>, the value it also
  returns when it moved nothing: the caller cannot tell how much of the buffer went through.
\<close>

theorem Transfer_timeout_forgets_bytes:
  assumes "intCnt h < extCnt h" and "extCnt h < N_HUP" and "status h = 0"
    and "arrivals s = []" and "0 < io_result s (isReader h) len" and "io_result s (isReader h) len < len" and "io_errno s = EAGAIN"
  shows "fst (Transfer [s] target len False h) = 0 \<and>
    x_left (snd (Transfer [s] target len False h)) = len - io_result s (isReader h) len \<and>
    status (x_h (snd (Transfer [s] target len False h))) = 0"
proof -
  define x where "x = (io_move s len h \<lparr>x_h = h, x_buf = target, x_left = len, x_wire = [], x_calls = []\<rparr>)
      \<lparr>x_h := h\<lparr>intCnt := extCnt h\<rparr>\<rparr>"
  have "transfer_iter quiet_step len False x = (Some 0, x)"
    by (simp add: transfer_iter_def quiet_step_def deliver_all_def x_def)
  then show ?thesis
    using first_turn_short [OF assms(1-6), of target] assms(3,5,6,7)
    by (simp add: Transfer_def x_def [symmetric]) (simp add: x_def)
qed

theorem Transfer_timeout_forgets_bytes_witness:
  "fst (Transfer [\<lparr>arrivals = [], waits = [], io_data = [], io_room = 1, io_eof = False, io_errno = EAGAIN\<rparr>]
      [65, 66, 67] 3 False (TCPCommHelper 8 False)) = 0 \<and>
    x_left (snd (Transfer [\<lparr>arrivals = [], waits = [], io_data = [], io_room = 1, io_eof = False, io_errno = EAGAIN\<rparr>]
      [65, 66, 67] 3 False (TCPCommHelper 8 False))) = 3 - 1 \<and>
    status (x_h (snd (Transfer [\<lparr>arrivals = [], waits = [], io_data = [], io_room = 1, io_eof = False, io_errno = EAGAIN\<rparr>]
      [65, 66, 67] 3 False (TCPCommHelper 8 False)))) = 0"
  using Transfer_timeout_forgets_bytes
    [of "TCPCommHelper 8 False" "\<lparr>arrivals = [], waits = [], io_data = [], io_room = 1, io_eof = False, io_errno = EAGAIN\<rparr>" 3
      "[65, 66, 67]"]
  by (simp add: TCPCommHelper_def N_HUP_def io_result_def)

end
