(* ===== verification/Jobs.thy ===== *)
theory Jobs
  imports Handler_Claims Comm_Helper
begin

text \<open>
  The interfaces the jobs are written against: job results (\<open>src/Src/IJobResult.h\<close>), the
  single-value history cell \<open>ImmutableStorage\<close>, and \<open>ICommHelper\<close> as a locale, with the TCP helper
  over a scripted socket as its implementation.
\<close>

section \<open>Job results\<close>

datatype job_result =
    JR_TERMINAL job_state
  | JR_NEW_CLIENT u64
  | JR_CLIENT_MODE_CONNECT job_state

section \<open>ImmutableStorage\<close>

text \<open>A queue of two payloads: the current one at the back, the previous one at the front.\<close>

record 'a immutable_storage =
  storage :: "'a list"
  isUpdated :: bool

definition IS_new :: "'a \<Rightarrow> 'a immutable_storage" where
  "IS_new payload = \<lparr>storage = [payload, payload], isUpdated = False\<rparr>"

definition IS_Get :: "'a immutable_storage \<Rightarrow> 'a" where
  "IS_Get s = last (storage s)"

definition IS_Prev :: "'a immutable_storage \<Rightarrow> 'a" where
  "IS_Prev s = hd (storage s)"

definition IS_Set :: "'a \<Rightarrow> 'a immutable_storage \<Rightarrow> 'a immutable_storage" where
  "IS_Set payload s = \<lparr>storage = tl (storage s) @ [payload], isUpdated = True\<rparr>"

text \<open>Every storage built by the constructor and \<open>Set\<close> holds exactly two payloads.\<close>

definition IS_ok :: "'a immutable_storage \<Rightarrow> bool" where
  "IS_ok s \<longleftrightarrow> length (storage s) = 2"

lemma IS_simps [simp]:
  "IS_ok (IS_new a)" "IS_Get (IS_new a) = a" "IS_Get (IS_Set a s) = a"
  "IS_ok s \<Longrightarrow> IS_ok (IS_Set a s)"
  by (simp_all add: IS_ok_def IS_new_def IS_Get_def IS_Set_def)

lemma IS_Prev_Set: "IS_ok s \<Longrightarrow> IS_Prev (IS_Set a s) = IS_Get s"
  by (auto simp: IS_ok_def IS_Prev_def IS_Set_def IS_Get_def length_Suc_conv numeral_2_eq_2)

section \<open>The helper interface\<close>

text \<open>
  What a job may rely on when it calls \<open>Transfer\<close> on a helper: the world keeps the sequence of
  bytes that went through the helper (\<open>wire\<close>); a transfer extends it by a prefix of the buffer,
  by exactly as many bytes as it reports when it reports a positive number; a transfer that must be
  complete reports all or nothing, and a partial one that reports no progress made none.
\<close>

type_synonym 'w transfer = "bytes \<Rightarrow> int \<Rightarrow> bool \<Rightarrow> 'w \<Rightarrow> int \<times> bytes \<times> 'w"

locale icomm_helper =
  fixes transfer :: "'w transfer"
    and wire :: "'w \<Rightarrow> bytes"
    and ok :: "'w \<Rightarrow> bool"
  assumes transfer_keeps_ok:
      "ok w \<Longrightarrow> len \<le> int (length buf) \<Longrightarrow> transfer buf len p w = (r, buf', w') \<Longrightarrow> ok w'"
    and transfer_length:
      "ok w \<Longrightarrow> len \<le> int (length buf) \<Longrightarrow> transfer buf len p w = (r, buf', w') \<Longrightarrow>
         length buf' = length buf"
    and transfer_empty:
      "ok w \<Longrightarrow> len < 1 \<Longrightarrow> transfer buf len p w = (r, buf', w') \<Longrightarrow>
         r \<le> 0 \<and> buf' = buf \<and> wire w' = wire w"
    and transfer_some:
      "ok w \<Longrightarrow> len \<le> int (length buf) \<Longrightarrow> transfer buf len p w = (r, buf', w') \<Longrightarrow> 0 < r \<Longrightarrow>
         r \<le> len \<and> wire w' = wire w @ take (nat r) buf' \<and> drop (nat r) buf' = drop (nat r) buf"
    and transfer_none:
      "ok w \<Longrightarrow> 0 < len \<Longrightarrow> len \<le> int (length buf) \<Longrightarrow> transfer buf len p w = (r, buf', w') \<Longrightarrow>
         r \<le> 0 \<Longrightarrow> \<exists>k. int k < len \<and> wire w' = wire w @ take k buf'"
    and transfer_all_or_nothing:
      "ok w \<Longrightarrow> len \<le> int (length buf) \<Longrightarrow> transfer buf len False w = (r, buf', w') \<Longrightarrow>
         r = len \<or> r \<le> 0"
    and transfer_partial_none:
      "ok w \<Longrightarrow> len \<le> int (length buf) \<Longrightarrow> transfer buf len True w = (r, buf', w') \<Longrightarrow> r \<le> 0 \<Longrightarrow>
         wire w' = wire w"
begin

text \<open>The check \<open>Transfer(buff, n, false) < n\<close> fails only if exactly \<open>n\<close> bytes went through.\<close>

lemma complete_transfer:
  assumes "ok w" and "0 \<le> len" and "len \<le> int (length buf)"
    and "transfer buf len False w = (r, buf', w')" and "\<not> r < len"
  shows "wire w' = wire w @ take (nat len) buf' \<and> drop (nat len) buf' = drop (nat len) buf \<and>
    length buf' = length buf \<and> ok w'"
proof (cases "len = 0")
  case True
  then show ?thesis
    using assms transfer_empty [of w len buf False r buf' w'] transfer_keeps_ok [of w len buf] by auto
next
  case False
  then have "r = len" "0 < r"
    using assms transfer_all_or_nothing [of w len buf r buf' w'] by auto
  then show ?thesis
    using assms transfer_some [of w len buf False r buf' w'] transfer_length [of w len buf False r buf' w']
      transfer_keeps_ok [of w len buf False r buf' w'] by simp
qed

end

section \<open>A TCP helper over a scripted socket\<close>

text \<open>
  The world of one helper: its state, the environment of each future call of \<open>Transfer\<close>, the bytes
  that went through it and the other system calls it made.
\<close>

record chan =
  ch_h :: helper
  ch_script :: "xstep list list"
  ch_wire :: bytes
  ch_calls :: "os_call list"

definition chan_transfer :: "chan transfer" where
  "chan_transfer buf len p c =
     (let ss = (case ch_script c of [] \<Rightarrow> [] | ss # _ \<Rightarrow> ss);
          (r, x) = Transfer ss buf len p (ch_h c)
      in (r, x_buf x, c\<lparr>ch_h := x_h x, ch_script := tl (ch_script c),
            ch_wire := ch_wire c @ x_wire x, ch_calls := ch_calls c @ x_calls x\<rparr>))"

lemma Transfer_empty:
  "len < 1 \<Longrightarrow> helper_ok h \<Longrightarrow> Transfer ss buf len p h = (r, x) \<Longrightarrow>
     r \<le> 0 \<and> x_buf x = buf \<and> x_wire x = []"
  by (auto simp: Transfer_def Let_def helper_ok_def split: if_splits)

text \<open>A call on a channel is a call of \<open>Transfer\<close>; every law is a law of \<open>Transfer\<close>.\<close>

lemma chan_transferE:
  assumes "chan_transfer buf len p c = (r, buf', c')"
  obtains ss x where "Transfer ss buf len p (ch_h c) = (r, x)" and "buf' = x_buf x"
    and "ch_h c' = x_h x" and "ch_wire c' = ch_wire c @ x_wire x"
  using assms by (auto simp: chan_transfer_def Let_def split: prod.splits)

lemma chan_transfer_laws:
  assumes ok: "helper_ok (ch_h w)" and tr: "chan_transfer buf len p w = (r, buf', w')"
  shows "len < 1 \<Longrightarrow> r \<le> 0 \<and> buf' = buf \<and> ch_wire w' = ch_wire w"
    and "helper_ok (ch_h w')"
    and "0 < len \<Longrightarrow> len \<le> int (length buf) \<Longrightarrow> \<exists>x. xdone len p buf r x \<and> buf' = x_buf x \<and>
      ch_wire w' = ch_wire w @ x_wire x"
proof -
  obtain ss x where x: "Transfer ss buf len p (ch_h w) = (r, x)" "buf' = x_buf x"
    "ch_h w' = x_h x" "ch_wire w' = ch_wire w @ x_wire x"
    using tr by (rule chan_transferE)
  show "len < 1 \<Longrightarrow> r \<le> 0 \<and> buf' = buf \<and> ch_wire w' = ch_wire w"
    using Transfer_empty [OF _ ok x(1)] x by simp
  show "helper_ok (ch_h w')"
    using Transfer_helper_ok [OF ok x(1)] x(3) by simp
  show "0 < len \<Longrightarrow> len \<le> int (length buf) \<Longrightarrow> \<exists>x. xdone len p buf r x \<and> buf' = x_buf x \<and>
      ch_wire w' = ch_wire w @ x_wire x"
    using Transfer_xdone [OF ok _ _ x(1)] x by blast
qed

interpretation tcp: icomm_helper chan_transfer ch_wire "\<lambda>c. helper_ok (ch_h c)"
proof (unfold_locales, goal_cases)
  case (1 w len buf p r buf' w')
  then show ?case by (blast intro: chan_transfer_laws(2))
next
  case (2 w len buf p r buf' w')
  then show ?case
    using chan_transfer_laws(1,3) [OF 2(1,3)] by (cases "0 < len") (auto simp: xdone_def)
next
  case (3 w len buf p r buf' w')
  then show ?case using chan_transfer_laws(1) by blast
next
  case (4 w len buf p r buf' w')
  then show ?case
    using chan_transfer_laws(1,3) [OF 4(1,3)] by (cases "0 < len") (auto simp: xdone_def)
next
  case (5 w len buf p r buf' w')
  then show ?case
    using chan_transfer_laws(3) [OF 5(1,4)] by (auto simp: xdone_def)
next
  case (6 w len buf r buf' w')
  then show ?case
    using chan_transfer_laws(1,3) [OF 6(1,3)] by (cases "0 < len") (auto simp: xdone_def)
next
  case (7 w len buf r buf' w')
  obtain ss x where "Transfer ss buf len True (ch_h w) = (r, x)" "ch_wire w' = ch_wire w @ x_wire x"
    using 7(3) by (rule chan_transferE)
  then show ?case using Transfer_partial_none 7(4) by simp
qed

lemma chan_transfer_helper:
  assumes "chan_transfer buf len p c = (r, buf', c')" and "helper_ok (ch_h c)"
  shows "helper_ok (ch_h c') \<and> isReader (ch_h c') = isReader (ch_h c) \<and> fd (ch_h c') = fd (ch_h c)"
proof -
  obtain ss x where x: "Transfer ss buf len p (ch_h c) = (r, x)" "ch_h c' = x_h x"
    using assms(1) by (rule chan_transferE)
  then show ?thesis using Transfer_helper_ok [OF assms(2) x(1)] by simp
qed

lemma chan_write_keeps_buffer:
  assumes "chan_transfer buf len p c = (r, buf', c')" and "helper_ok (ch_h c)"
    and "\<not> isReader (ch_h c)" and "len \<le> int (length buf)"
  shows "buf' = buf"
proof (cases "0 < len")
  case True
  obtain ss x where x: "Transfer ss buf len p (ch_h c) = (r, x)" "buf' = x_buf x"
    using assms(1) by (rule chan_transferE)
  then show ?thesis
    using Transfer_xdone [OF assms(2,4) True x(1)] Transfer_helper_ok [OF assms(2) x(1)] assms(3)
    by (simp add: xdone_def)
next
  case False
  then show ?thesis using chan_transfer_laws(1) [OF assms(2,1)] by simp
qed

text \<open>The laws carry over from a channel to any world that embeds it.\<close>

lemma icomm_helper_via_chan:
  assumes via: "\<And>w buf len p r buf' w'. ok w \<Longrightarrow> transfer buf len p w = (r, buf', w') \<Longrightarrow>
    \<exists>c c'. helper_ok (ch_h c) \<and> chan_transfer buf len p c = (r, buf', c') \<and>
      wire w' = ch_wire c' \<and> wire w = ch_wire c \<and> ok w'"
  shows "icomm_helper transfer wire ok"
proof (unfold_locales, goal_cases)
  case (1 w len buf p r buf' w')
  then show ?case using via by blast
next
  case (2 w len buf p r buf' w')
  then show ?case using via [OF 2(1,3)] tcp.transfer_length by blast
next
  case (3 w len buf p r buf' w')
  then show ?case using via [OF 3(1,3)] tcp.transfer_empty by metis
next
  case (4 w len buf p r buf' w')
  then show ?case using via [OF 4(1,3)] tcp.transfer_some by metis
next
  case (5 w len buf p r buf' w')
  then show ?case using via [OF 5(1,4)] tcp.transfer_none by metis
next
  case (6 w len buf r buf' w')
  then show ?case using via [OF 6(1,3)] tcp.transfer_all_or_nothing by blast
next
  case (7 w len buf r buf' w')
  then show ?case using via [OF 7(1,3)] tcp.transfer_partial_none by metis
qed

end
