(* ===== verification/Comm_Service.thy ===== *)
theory Comm_Service
  imports Jobs IP_Endpoint "HOL-Library.Multiset" "HOL-Library.AList"
begin

text \<open>
  \<open>src/Src/TCPCommService.*\<close> with \<open>ICommService.h\<close> and \<open>ICommManager.h\<close>: the owner of all client and
  target connections.  It creates handlers (a socket with a reader and a writer helper), disposes
  them, and its worker turns epoll events into notifications of the helpers.

  The kernel is a parameter (theory \<open>Sys_Calls\<close>); the service's record keeps the calls it made with
  their results, and the error codes of the shutdown messages it sent.  Every operation holds
  \<open>manageLock\<close> while it touches the handlers, so operations of different threads are sequences.
\<close>

section \<open>State\<close>

definition HANDLER_ERROR_OTHER :: u64 where "HANDLER_ERROR_OTHER = 0xFFFFFFFFFFFFFFFF"
definition HANDLER_ERROR_CONN_REFUSED :: u64 where "HANDLER_ERROR_CONN_REFUSED = 0xFFFFFFFFFFFFFFFE"
definition HANDLER_ERROR_NET_UNAVAIL :: u64 where "HANDLER_ERROR_NET_UNAVAIL = 0xFFFFFFFFFFFFFFFD"
definition HANDLER_ERROR :: u64 where "HANDLER_ERROR = 0xFFFFFFFFFFFFFF9B"

lemmas handler_error_defs = HANDLER_ERROR_OTHER_def HANDLER_ERROR_CONN_REFUSED_def
  HANDLER_ERROR_NET_UNAVAIL_def HANDLER_ERROR_def

record comm_handler =
  reader :: helper
  writer :: helper
  h_fd :: int

record service =
  epollFd :: int
  handlerIdCounter :: u64
  shutdownPending :: bool
  commHandlers :: "(u64 \<times> comm_handler) list"
  svc_calls :: "(os_call \<times> int) list"
  svc_sent :: "int list"

type_synonym u32 = "32 word"

text \<open>One system call: the result, the \<open>errno\<close> it leaves, and the record of it.\<close>

definition sys :: "kernel \<Rightarrow> os_call \<Rightarrow> service \<Rightarrow> (int \<times> int) \<times> service" where
  "sys k c s =
     (let (r, err) = k (map fst (svc_calls s)) c
      in ((r, err), s\<lparr>svc_calls := svc_calls s @ [(c, r)]\<rparr>))"

definition HandleError :: "int \<Rightarrow> service \<Rightarrow> service" where
  "HandleError ec s = s\<lparr>svc_sent := svc_sent s @ [ec]\<rparr>"

definition TCPCommService :: "kernel \<Rightarrow> config \<Rightarrow> service" where
  "TCPCommService k cfg =
     (let c = SysEpollCreate (GetActiveWorkersCount cfg + 1); r = fst (k [] c)
      in \<lparr>epollFd = r, handlerIdCounter = 0, shutdownPending = False, commHandlers = [],
          svc_calls = [(c, r)], svc_sent = []\<rparr>)"

section \<open>Socket options\<close>

text \<open>Their failures are only logged.\<close>

definition TuneSocketBaseParams :: "kernel \<Rightarrow> config \<Rightarrow> int \<Rightarrow> service \<Rightarrow> service" where
  "TuneSocketBaseParams k cfg sock s =
     (let onoff = (if GetLingerSec cfg \<ge> 0 then 1 else 0);
          secs = (if onoff = 1 then GetLingerSec cfg else 0);
          s1 = snd (sys k (SysSetLinger sock onoff secs) s);
          s2 = snd (sys k (SysSetSndBuf sock (GetTCPBuffSz cfg)) s1)
      in snd (sys k (SysSetRcvBuf sock (GetTCPBuffSz cfg)) s2))"

definition SetSocketNonBlocking :: "kernel \<Rightarrow> int \<Rightarrow> service \<Rightarrow> service" where
  "SetSocketNonBlocking k sock s =
     (let ((flags, err), s1) = sys k (SysGetFl sock) s
      in if flags < 0 then s1 else snd (sys k (SysSetFlNonBlock sock flags) s1))"

definition SetSocketCustomTimeouts :: "kernel \<Rightarrow> int \<Rightarrow> timeval \<Rightarrow> service \<Rightarrow> service" where
  "SetSocketCustomTimeouts k sock tv s =
     snd (sys k (SysSetSndTimeo sock tv) (snd (sys k (SysSetRcvTimeo sock tv) s)))"

definition SetSocketDefaultTimeouts :: "kernel \<Rightarrow> config \<Rightarrow> int \<Rightarrow> service \<Rightarrow> service" where
  "SetSocketDefaultTimeouts k cfg sock s =
     SetSocketCustomTimeouts k sock \<lparr>tv_sec = GetRWTimeoutSec cfg, tv_usec = 0\<rparr> s"

section \<open>Handlers\<close>

definition GetHandler :: "u64 \<Rightarrow> service \<Rightarrow> comm_handler option" where
  "GetHandler hid s = map_of (commHandlers s) hid"

text \<open>\<open>CommHandler::IsValid\<close> of what \<open>GetHandler\<close> returned; an unknown id gives descriptor -1.\<close>

definition handler_IsValid :: "comm_handler option \<Rightarrow> bool" where
  "handler_IsValid h = (case h of None \<Rightarrow> False | Some c \<Rightarrow> h_fd c > -1)"

definition CreateHandlerFromSocket :: "kernel \<Rightarrow> config \<Rightarrow> int \<Rightarrow> service \<Rightarrow> u64 \<times> service" where
  "CreateHandlerFromSocket k cfg sock s =
     (let s1 = SetSocketNonBlocking k sock (SetSocketDefaultTimeouts k cfg sock
                 (TuneSocketBaseParams k cfg sock s));
          hid = handlerIdCounter s1 + 1;
          handler = \<lparr>reader = TCPCommHelper sock True, writer = TCPCommHelper sock False, h_fd = sock\<rparr>;
          hs = (if map_of (commHandlers s1) hid = None then (hid, handler) # commHandlers s1
                else commHandlers s1);
          s2 = s1\<lparr>handlerIdCounter := hid, commHandlers := hs\<rparr>;
          ((r, err), s3) = sys k (SysEpollAdd (epollFd s2) sock hid) s2
      in (hid, if r < 0 then HandleError err s3 else s3))"

definition target_sa :: "endian \<Rightarrow> ip_endpoint \<Rightarrow> bytes" where
  "target_sa e target =
     memcpy_at 2 (store16 e (htons e (port target)))
       (ToSA e (address target) (replicate (if isV6 (address target) then 28 else 16) 0))"

definition connect_error :: "int \<Rightarrow> u64" where
  "connect_error err =
     (if err = ECONNREFUSED \<or> err = EINPROGRESS then HANDLER_ERROR_CONN_REFUSED
      else if err = ENETUNREACH then HANDLER_ERROR_NET_UNAVAIL
      else HANDLER_ERROR_OTHER)"

definition ConnectAndCreateHandler :: "kernel \<Rightarrow> endian \<Rightarrow> config \<Rightarrow> ip_endpoint \<Rightarrow> timeval \<Rightarrow> service \<Rightarrow>
    u64 \<times> service" where
  "ConnectAndCreateHandler k e cfg target timeout s =
     (let ((sock, err), s1) = sys k (SysSocket (isV6 (address target))) s
      in if sock < 0 then (HANDLER_ERROR_OTHER, HandleError err s1)
      else
      let s2 = SetSocketCustomTimeouts k sock timeout (TuneSocketBaseParams k cfg sock s1);
          ((cr, error), s3) = sys k (SysConnect sock (target_sa e target)) s2
      in if cr < 0
      then (let ((r, cerr), s4) = sys k (SysClose sock) s3
            in if r \<noteq> 0 then (HANDLER_ERROR_OTHER, HandleError error s4)
               else (connect_error error, s4))
      else CreateHandlerFromSocket k cfg sock s3)"

definition DisposeHandler :: "kernel \<Rightarrow> u64 \<Rightarrow> service \<Rightarrow> service" where
  "DisposeHandler k hid s =
     (case map_of (commHandlers s) hid of
        None \<Rightarrow> s
      | Some h \<Rightarrow>
          (let s1 = s\<lparr>commHandlers := AList.delete hid (commHandlers s)\<rparr>;
               ((r, err), s2) = sys k (SysEpollDel (epollFd s1) (h_fd h)) s1;
               s3 = (if r < 0 then HandleError err s2 else s2);
               ((r', err'), s4) = sys k (SysClose (h_fd h)) s3
           in if r' \<noteq> 0 then HandleError err' s4 else s4))"

section \<open>The worker\<close>

definition EPOLLIN :: u32 where "EPOLLIN = 0x1"
definition EPOLLOUT :: u32 where "EPOLLOUT = 0x4"
definition EPOLLERR :: u32 where "EPOLLERR = 0x8"
definition EPOLLHUP :: u32 where "EPOLLHUP = 0x10"
definition EPOLLRDHUP :: u32 where "EPOLLRDHUP = 0x2000"

definition flag :: "u32 \<Rightarrow> u32 \<Rightarrow> bool" where
  "flag ev f \<longleftrightarrow> and ev f \<noteq> 0"

text \<open>The body of the loop over the events, for one event of a known handler.\<close>

definition notify_handler :: "u32 \<Rightarrow> comm_handler \<Rightarrow> comm_handler" where
  "notify_handler ev h =
     (if flag ev EPOLLERR \<or> flag ev EPOLLHUP
      then h\<lparr>reader := NotifyHUP (reader h), writer := NotifyHUP (writer h)\<rparr>
      else
      let h1 = (if flag ev EPOLLRDHUP then h\<lparr>reader := NotifyHUP (reader h)\<rparr>
                else if flag ev EPOLLIN then h\<lparr>reader := NotifyDataAvail (reader h)\<rparr>
                else h)
      in if flag ev EPOLLOUT then h1\<lparr>writer := NotifyDataAvail (writer h1)\<rparr> else h1)"

definition dispatch_event :: "u64 \<times> u32 \<Rightarrow> service \<Rightarrow> service" where
  "dispatch_event e s =
     (case map_of (commHandlers s) (fst e) of
        None \<Rightarrow> s
      | Some h \<Rightarrow> s\<lparr>commHandlers := AList.update (fst e) (notify_handler (snd e) h) (commHandlers s)\<rparr>)"

definition dispatch_events :: "(u64 \<times> u32) list \<Rightarrow> service \<Rightarrow> service" where
  "dispatch_events evs s = fold dispatch_event evs s"

text \<open>The loop after a shutdown request: every helper is cancelled.\<close>

definition cancel_handlers :: "service \<Rightarrow> service" where
  "cancel_handlers s = s\<lparr>commHandlers :=
     map (\<lambda>(hid, h). (hid, h\<lparr>reader := Cancel (reader h), writer := Cancel (writer h)\<rparr>)) (commHandlers s)\<rparr>"

definition OnShutdown :: "service \<Rightarrow> service" where
  "OnShutdown s = s\<lparr>shutdownPending := True\<rparr>"

text \<open>What \<open>epoll_wait\<close> returns: no events before the timeout, an error, or some events.\<close>

datatype ep_result = EP_Timeout | EP_Error int | EP_Events "(u64 \<times> u32) list"

text \<open>
  \<open>Worker\<close>, for the results of its calls of \<open>epoll_wait\<close>; before each test of the loop condition
  other threads may run any operations, given as functions on the service.  The first component
  tells whether the thread ended.
\<close>

fun service_loop :: "((service \<Rightarrow> service) \<times> ep_result) list \<Rightarrow> service \<Rightarrow> bool \<times> service" where
  "service_loop [] s = (if shutdownPending s then (True, cancel_handlers s) else (False, s))"
| "service_loop ((others, res) # turns) s =
     (let s1 = others s
      in if shutdownPending s1 then (True, cancel_handlers s1)
      else case res of
        EP_Timeout \<Rightarrow> service_loop turns s1
      | EP_Error error \<Rightarrow>
          if error \<noteq> EINTR then (True, HandleError error s1) else service_loop turns s1
      | EP_Events evs \<Rightarrow> service_loop turns (dispatch_events evs s1))"

definition service_Worker :: "int \<Rightarrow> ((service \<Rightarrow> service) \<times> ep_result) list \<Rightarrow> service \<Rightarrow> bool \<times> service" where
  "service_Worker err turns s =
     (if epollFd s < 0 then (True, HandleError err s) else service_loop turns s)"

section \<open>What the operations leave alone\<close>

text \<open>The descriptors opened and closed by a sequence of calls.\<close>

fun opened :: "(os_call \<times> int) list \<Rightarrow> int list" where
  "opened [] = []"
| "opened ((SysSocket v6, r) # cs) = (if r < 0 then opened cs else r # opened cs)"
| "opened (c # cs) = opened cs"

fun closed :: "(os_call \<times> int) list \<Rightarrow> int list" where
  "closed [] = []"
| "closed ((SysClose sock, r) # cs) = sock # closed cs"
| "closed (c # cs) = closed cs"

lemma opened_append [simp]: "opened (cs @ ds) = opened cs @ opened ds"
  by (induction cs rule: opened.induct) simp_all

lemma closed_append [simp]: "closed (cs @ ds) = closed cs @ closed ds"
  by (induction cs rule: closed.induct) simp_all

text \<open>The part of the service that option settings and error messages do not change.\<close>

definition svc_view :: "service \<Rightarrow> u64 \<times> bool \<times> (u64 \<times> comm_handler) list \<times> int list \<times> int list" where
  "svc_view s = (handlerIdCounter s, shutdownPending s, commHandlers s,
     opened (svc_calls s), closed (svc_calls s))"

named_theorems view_simps

lemma HandleError_view [view_simps]: "svc_view (HandleError ec s) = svc_view s"
  by (simp add: HandleError_def svc_view_def)

lemma sys_opened:
  assumes "sys k c s = ((r, err), s')"
  shows "svc_view s' = (handlerIdCounter s, shutdownPending s, commHandlers s,
    opened (svc_calls s) @ opened [(c, r)], closed (svc_calls s) @ closed [(c, r)])"
  using assms by (auto simp: sys_def svc_view_def Let_def split: prod.splits)

definition fd_call :: "os_call \<Rightarrow> bool" where
  "fd_call c \<longleftrightarrow> (case c of SysSocket v6 \<Rightarrow> True | SysClose sock \<Rightarrow> True | _ \<Rightarrow> False)"

lemma sys_view [view_simps]: "\<not> fd_call c \<Longrightarrow> svc_view (snd (sys k c s)) = svc_view s"
  using sys_opened [of k c s "fst (fst (sys k c s))" "snd (fst (sys k c s))" "snd (sys k c s)"]
  by (cases c) (simp_all add: fd_call_def svc_view_def)

lemma sys_viewD: "sys k c s = (x, s') \<Longrightarrow> \<not> fd_call c \<Longrightarrow> svc_view s' = svc_view s"
  using sys_view [of c k s] by simp

lemma options_view [view_simps]:
  "svc_view (TuneSocketBaseParams k cfg sock s) = svc_view s"
  "svc_view (SetSocketCustomTimeouts k sock tv s) = svc_view s"
  "svc_view (SetSocketDefaultTimeouts k cfg sock s) = svc_view s"
  by (simp_all add: TuneSocketBaseParams_def SetSocketDefaultTimeouts_def SetSocketCustomTimeouts_def
      Let_def view_simps fd_call_def)

lemma SetSocketNonBlocking_view [view_simps]: "svc_view (SetSocketNonBlocking k sock s) = svc_view s"
proof -
  obtain flags err s1 where get: "sys k (SysGetFl sock) s = ((flags, err), s1)"
    by (metis prod.collapse)
  then have "svc_view s1 = svc_view s" by (rule sys_viewD) (simp add: fd_call_def)
  then show ?thesis
    by (simp add: SetSocketNonBlocking_def Let_def get view_simps fd_call_def)
qed

text \<open>Each operation on handlers as a function of that view.\<close>

definition new_handler :: "int \<Rightarrow> comm_handler" where
  "new_handler sock = \<lparr>reader = TCPCommHelper sock True, writer = TCPCommHelper sock False, h_fd = sock\<rparr>"

lemma CreateHandlerFromSocket_view:
  assumes "CreateHandlerFromSocket k cfg sock s = (hid, s')"
    and "map_of (commHandlers s) (handlerIdCounter s + 1) = None"
  shows "hid = handlerIdCounter s + 1" and "svc_view s' = (hid, shutdownPending s,
    (hid, new_handler sock) # commHandlers s, opened (svc_calls s), closed (svc_calls s))"
proof -
  define s1 where "s1 = SetSocketNonBlocking k sock (SetSocketDefaultTimeouts k cfg sock
                 (TuneSocketBaseParams k cfg sock s))"
  have "svc_view s1 = svc_view s" by (simp add: s1_def view_simps)
  then have s1: "handlerIdCounter s1 = handlerIdCounter s" "shutdownPending s1 = shutdownPending s"
      "commHandlers s1 = commHandlers s" "opened (svc_calls s1) = opened (svc_calls s)"
      "closed (svc_calls s1) = closed (svc_calls s)"
    by (simp_all add: svc_view_def)
  define s2 where "s2 = s1\<lparr>handlerIdCounter := handlerIdCounter s + 1,
    commHandlers := (handlerIdCounter s + 1, new_handler sock) # commHandlers s\<rparr>"
  obtain r err s3 where sys: "sys k (SysEpollAdd (epollFd s2) sock (handlerIdCounter s + 1)) s2 = ((r, err), s3)"
    by (metis prod.collapse)
  have "svc_view s3 = svc_view s2"
    using sys_view [of "SysEpollAdd (epollFd s2) sock (handlerIdCounter s + 1)" k s2] sys
    by (simp add: fd_call_def)
  moreover have run: "CreateHandlerFromSocket k cfg sock s =
      (handlerIdCounter s + 1, if r < 0 then HandleError err s3 else s3)"
    using assms(2) sys unfolding CreateHandlerFromSocket_def s1_def [symmetric] Let_def s1
    by (simp add: s2_def new_handler_def)
  ultimately show "hid = handlerIdCounter s + 1" and "svc_view s' = (hid, shutdownPending s,
    (hid, new_handler sock) # commHandlers s, opened (svc_calls s), closed (svc_calls s))"
    using assms(1) s1 by (auto simp: view_simps) (auto simp: svc_view_def s2_def)
qed

lemma DisposeHandler_view:
  "svc_view (DisposeHandler k hid s) = (case map_of (commHandlers s) hid of None \<Rightarrow> svc_view s
     | Some h \<Rightarrow> (handlerIdCounter s, shutdownPending s, AList.delete hid (commHandlers s),
         opened (svc_calls s), closed (svc_calls s) @ [h_fd h]))"
proof (cases "map_of (commHandlers s) hid")
  case None
  then show ?thesis by (simp add: DisposeHandler_def)
next
  case (Some h)
  define s1 where "s1 = s\<lparr>commHandlers := AList.delete hid (commHandlers s)\<rparr>"
  obtain r err s2 where del: "sys k (SysEpollDel (epollFd s1) (h_fd h)) s1 = ((r, err), s2)"
    by (metis prod.collapse)
  define s3 where "s3 = (if r < 0 then HandleError err s2 else s2)"
  obtain r' err' s4 where cl: "sys k (SysClose (h_fd h)) s3 = ((r', err'), s4)"
    by (metis prod.collapse)
  have "svc_view s3 = svc_view s1"
    using sys_view [of "SysEpollDel (epollFd s1) (h_fd h)" k s1] del
    by (simp add: s3_def view_simps fd_call_def)
  then have "svc_view s4 = (handlerIdCounter s, shutdownPending s, AList.delete hid (commHandlers s),
         opened (svc_calls s), closed (svc_calls s) @ [h_fd h])"
    using sys_opened [OF cl] by (simp add: svc_view_def s1_def)
  moreover have "DisposeHandler k hid s = (if r' \<noteq> 0 then HandleError err' s4 else s4)"
    using del cl Some by (simp add: DisposeHandler_def Let_def s1_def [symmetric] s3_def)
  ultimately show ?thesis using Some by (simp add: view_simps)
qed

lemma connect_error_above: "HANDLER_ERROR < connect_error err" "HANDLER_ERROR < HANDLER_ERROR_OTHER"
  by (simp_all add: connect_error_def handler_error_defs)

lemma ConnectAndCreateHandler_view:
  assumes run: "ConnectAndCreateHandler k e cfg target tv s = (hid, s')"
    and new: "map_of (commHandlers s) (handlerIdCounter s + 1) = None"
  shows "(HANDLER_ERROR < hid \<and> (\<exists>ds. svc_view s' = (handlerIdCounter s, shutdownPending s,
        commHandlers s, opened (svc_calls s) @ ds, closed (svc_calls s) @ ds))) \<or>
    (\<exists>sock \<ge> 0. hid = handlerIdCounter s + 1 \<and> svc_view s' = (hid, shutdownPending s,
        (hid, new_handler sock) # commHandlers s, opened (svc_calls s) @ [sock], closed (svc_calls s)))"
proof -
  obtain sock err s1 where so: "sys k (SysSocket (isV6 (address target))) s = ((sock, err), s1)"
    by (metis prod.collapse)
  note s1 = sys_opened [OF so]
  show ?thesis
  proof (cases "sock < 0")
    case True
    then have "hid = HANDLER_ERROR_OTHER" "s' = HandleError err s1"
      using run so by (simp_all add: ConnectAndCreateHandler_def)
    then show ?thesis
      using s1 True by (auto simp: view_simps connect_error_above)
  next
    case sock: False
    define s2 where "s2 = SetSocketCustomTimeouts k sock tv (TuneSocketBaseParams k cfg sock s1)"
    obtain cr error s3 where co: "sys k (SysConnect sock (target_sa e target)) s2 = ((cr, error), s3)"
      by (metis prod.collapse)
    have "svc_view s3 = svc_view s1"
      using sys_viewD [OF co] by (simp add: s2_def view_simps fd_call_def)
    then have s3: "svc_view s3 = (handlerIdCounter s, shutdownPending s, commHandlers s,
        opened (svc_calls s) @ [sock], closed (svc_calls s))"
      using s1 sock by simp
    show ?thesis
    proof (cases "cr < 0")
      case True
      obtain r cerr s4 where cl: "sys k (SysClose sock) s3 = ((r, cerr), s4)"
        by (metis prod.collapse)
      have s4: "svc_view s4 = (handlerIdCounter s, shutdownPending s, commHandlers s,
          opened (svc_calls s) @ [sock], closed (svc_calls s) @ [sock])"
        using sys_opened [OF cl] s3 by (simp add: svc_view_def)
      have "HANDLER_ERROR < hid \<and> svc_view s' = svc_view s4"
        using run so co cl True sock
        by (auto simp: ConnectAndCreateHandler_def s2_def view_simps connect_error_above split: if_splits)
      with s4 show ?thesis by auto
    next
      case False
      have "CreateHandlerFromSocket k cfg sock s3 = (hid, s')"
        using run so co False sock by (simp add: ConnectAndCreateHandler_def s2_def)
      from CreateHandlerFromSocket_view [OF this] new s3 sock show ?thesis
        by (auto simp: svc_view_def)
    qed
  qed
qed

section \<open>The invariant and the contract of the service\<close>

text \<open>
  \<open>service_ok n s\<close>: the identifiers in use are distinct and were handed out by the counter, which
  has room for \<open>n\<close> more below the error codes; each handler's helpers work on its descriptor.
\<close>

definition handler_ok :: "comm_handler \<Rightarrow> bool" where
  "handler_ok h \<longleftrightarrow> helper_ok (reader h) \<and> helper_ok (writer h) \<and> isReader (reader h) \<and>
     \<not> isReader (writer h) \<and> fd (reader h) = h_fd h \<and> fd (writer h) = h_fd h"

definition service_ok :: "nat \<Rightarrow> service \<Rightarrow> bool" where
  "service_ok n s \<longleftrightarrow> distinct (map fst (commHandlers s)) \<and>
     (\<forall>(hid, h) \<in> set (commHandlers s). 0 < hid \<and> hid \<le> handlerIdCounter s \<and> handler_ok h) \<and>
     unat (handlerIdCounter s) + n \<le> unat HANDLER_ERROR"

lemma service_ok_new: "n \<le> unat HANDLER_ERROR \<Longrightarrow> service_ok n (TCPCommService k cfg)"
  by (simp add: service_ok_def TCPCommService_def Let_def)

lemma handler_ok_new: "handler_ok (new_handler sock)"
  using helper_ok_new [of sock] by (simp add: handler_ok_def new_handler_def TCPCommHelper_def)

lemma service_ok_less: "service_ok n s \<Longrightarrow> m \<le> n \<Longrightarrow> service_ok m s"
  by (auto simp: service_ok_def)

lemma service_ok_next:
  assumes "service_ok (Suc n) s"
  shows "handlerIdCounter s < handlerIdCounter s + 1" "handlerIdCounter s + 1 \<le> HANDLER_ERROR"
    "unat (handlerIdCounter s + 1) = Suc (unat (handlerIdCounter s))"
proof -
  have "unat (handlerIdCounter s) < 18446744073709551515"
    using assms by (simp add: service_ok_def HANDLER_ERROR_def)
  then show u: "unat (handlerIdCounter s + 1) = Suc (unat (handlerIdCounter s))"
    by (simp add: unat_word_ariths)
  then show "handlerIdCounter s < handlerIdCounter s + 1" by (simp add: word_less_nat_alt)
  show "handlerIdCounter s + 1 \<le> HANDLER_ERROR"
    using u assms by (simp add: word_le_nat_alt service_ok_def)
qed

lemma service_ok_fresh:
  assumes "service_ok (Suc n) s"
  shows "map_of (commHandlers s) (handlerIdCounter s + 1) = None"
proof -
  have "handlerIdCounter s + 1 \<noteq> hid" if "(hid, h) \<in> set (commHandlers s)" for hid h
  proof -
    have "hid \<le> handlerIdCounter s" using assms that by (auto simp: service_ok_def)
    then show ?thesis using service_ok_next(1) [OF assms] by (metis leD)
  qed
  then show ?thesis by (metis map_of_SomeD not_None_eq)
qed

text \<open>Whether the invariant holds is a question about the view.\<close>

lemma service_ok_view: "svc_view s = svc_view s' \<Longrightarrow> service_ok n s = service_ok n s'"
  by (simp add: svc_view_def service_ok_def)

lemma service_ok_added:
  assumes ok: "service_ok (Suc n) s"
    and "handlerIdCounter s' = handlerIdCounter s + 1"
    and "commHandlers s' = (handlerIdCounter s + 1, new_handler sock) # commHandlers s"
  shows "service_ok n s'"
proof -
  have "handlerIdCounter s + 1 \<notin> fst ` set (commHandlers s)"
    using service_ok_fresh [OF ok] by (simp add: map_of_eq_None_iff)
  moreover have "0 < handlerIdCounter s + 1"
    using service_ok_next(1) [OF ok] by (metis le_less_trans word_zero_le)
  moreover have "hid \<le> handlerIdCounter s + 1" if "hid \<le> handlerIdCounter s" for hid
    using that service_ok_next(1) [OF ok] by simp
  ultimately show ?thesis
    using assms service_ok_next(3) [OF ok] by (auto simp: service_ok_def handler_ok_new)
qed

text \<open>
  The contract that the jobs, the job factory and the listener rely on: an identifier that is not
  an error is new and names a live handler, disposing removes one handler and nothing else.
\<close>

locale icomm_service =
  fixes get :: "u64 \<Rightarrow> 's \<Rightarrow> 'h option"
    and create :: "int \<Rightarrow> 's \<Rightarrow> u64 \<times> 's"
    and connect :: "ip_endpoint \<Rightarrow> timeval \<Rightarrow> 's \<Rightarrow> u64 \<times> 's"
    and dispose :: "u64 \<Rightarrow> 's \<Rightarrow> 's"
    and room :: "nat \<Rightarrow> 's \<Rightarrow> bool"
  assumes room_less: "room n s \<Longrightarrow> m \<le> n \<Longrightarrow> room m s"
    and create_new: "room (Suc n) s \<Longrightarrow> create sock s = (hid, s') \<Longrightarrow>
      room n s' \<and> hid \<le> HANDLER_ERROR \<and> get hid s = None \<and>
      (\<exists>h. (\<lambda>i. get i s') = (\<lambda>i. get i s)(hid \<mapsto> h))"
    and connect_new: "room (Suc n) s \<Longrightarrow> connect target tv s = (hid, s') \<Longrightarrow>
      room n s' \<and> (if HANDLER_ERROR < hid then (\<lambda>i. get i s') = (\<lambda>i. get i s)
        else get hid s = None \<and> (\<exists>h. (\<lambda>i. get i s') = (\<lambda>i. get i s)(hid \<mapsto> h)))"
    and dispose_one: "room n s \<Longrightarrow>
      room n (dispose hid s) \<and> (\<lambda>i. get i (dispose hid s)) = (\<lambda>i. get i s)(hid := None)"
begin

text \<open>Disposing a list of handlers removes exactly them, in whatever order.\<close>

lemma dispose_list:
  assumes "room n s"
  shows "room n (fold dispose hids s) \<and>
    (\<lambda>i. get i (fold dispose hids s)) = (\<lambda>i. if i \<in> set hids then None else get i s)"
  using assms
proof (induction hids arbitrary: s)
  case Nil
  then show ?case by simp
next
  case (Cons hid hids)
  have one: "room n (dispose hid s)" "\<And>i. get i (dispose hid s) = (if i = hid then None else get i s)"
    using dispose_one [OF Cons.prems, of hid] by (auto simp: fun_eq_iff)
  then show ?case using Cons.IH [OF one(1)] by auto
qed

text \<open>A handler that is created, used and disposed leaves the others as they were.\<close>

lemma create_dispose:
  assumes "room (Suc n) s" and "create sock s = (hid, s')"
  shows "(\<lambda>i. get i (dispose hid s')) = (\<lambda>i. get i s)"
  using create_new [OF assms] dispose_one [of n s' hid] by (fastforce simp: fun_eq_iff)

end

lemma GetHandler_view: "svc_view s = (c, p, hs, os, cs) \<Longrightarrow> GetHandler hid s = map_of hs hid"
  by (simp add: svc_view_def GetHandler_def)

lemma service_ok_removed:
  assumes "service_ok n s" and "handlerIdCounter s' = handlerIdCounter s"
    and "commHandlers s' = AList.delete hid (commHandlers s)"
  shows "service_ok n s'"
proof -
  have "set (commHandlers s') \<subseteq> set (commHandlers s)"
    using assms(3) by (auto simp: AList.delete_eq)
  then show ?thesis using assms by (fastforce simp: service_ok_def distinct_delete)
qed

lemma DisposeHandler_ok:
  assumes "service_ok n s"
  shows "service_ok n (DisposeHandler k hid s)"
proof (cases "map_of (commHandlers s) hid")
  case None
  then have "svc_view (DisposeHandler k hid s) = svc_view s"
    by (simp add: DisposeHandler_view)
  from service_ok_view [OF this] assms show ?thesis by simp
next
  case (Some h)
  then show ?thesis
    using DisposeHandler_view [of k hid s]
    by (intro service_ok_removed [OF assms]) (simp_all add: svc_view_def)
qed

lemma GetHandler_DisposeHandler:
  "(\<lambda>i. GetHandler i (DisposeHandler k hid s)) = (\<lambda>i. GetHandler i s)(hid := None)"
  using DisposeHandler_view [of k hid s]
  by (cases "map_of (commHandlers s) hid") (auto simp: svc_view_def GetHandler_def fun_eq_iff delete_conv)

interpretation tcp_service: icomm_service GetHandler "CreateHandlerFromSocket k cfg"
    "ConnectAndCreateHandler k e cfg" "DisposeHandler k" service_ok
  for k e cfg
proof (unfold_locales, goal_cases)
  case (1 n s m)
  then show ?case by (rule service_ok_less)
next
  case (2 n s sock hid s')
  from CreateHandlerFromSocket_view [OF 2(2) service_ok_fresh [OF 2(1)]] show ?case
    using service_ok_fresh [OF 2(1)] service_ok_next(2) [OF 2(1)] service_ok_added [OF 2(1), of s' sock]
    by (auto simp: svc_view_def GetHandler_def fun_eq_iff)
next
  case (3 n s target tv hid s')
  have below: "\<not> HANDLER_ERROR < handlerIdCounter s + 1"
    using service_ok_next(2) [OF 3(1)] by simp
  note fresh = service_ok_fresh [OF 3(1)]
  from ConnectAndCreateHandler_view [OF 3(2) fresh] show ?case
  proof (elim disjE conjE exE)
    fix ds
    assume "HANDLER_ERROR < hid" and "svc_view s' = (handlerIdCounter s, shutdownPending s,
        commHandlers s, opened (svc_calls s) @ ds, closed (svc_calls s) @ ds)"
    then show ?thesis
      using service_ok_less [OF 3(1), of n] by (auto simp: svc_view_def GetHandler_def service_ok_def)
  next
    fix sock
    assume "hid = handlerIdCounter s + 1" and "svc_view s' = (hid, shutdownPending s,
        (hid, new_handler sock) # commHandlers s, opened (svc_calls s) @ [sock], closed (svc_calls s))"
    then show ?thesis
      using below fresh service_ok_added [OF 3(1), of s' sock]
      by (auto simp: svc_view_def GetHandler_def fun_eq_iff)
  qed
next
  case (4 n s hid)
  then show ?case by (simp add: DisposeHandler_ok GetHandler_DisposeHandler)
qed

section \<open>Descriptors\<close>

text \<open>The operations other threads call, and a sequence of them.\<close>

datatype svc_op =
    OpConnect ip_endpoint timeval
  | OpAccepted int
  | OpDispose u64
  | OpEvents "(u64 \<times> u32) list"
  | OpShutdown

fun svc_step :: "kernel \<Rightarrow> endian \<Rightarrow> config \<Rightarrow> svc_op \<Rightarrow> service \<Rightarrow> service" where
  "svc_step k e cfg (OpConnect target tv) s = snd (ConnectAndCreateHandler k e cfg target tv s)"
| "svc_step k e cfg (OpAccepted sock) s = snd (CreateHandlerFromSocket k cfg sock s)"
| "svc_step k e cfg (OpDispose hid) s = DisposeHandler k hid s"
| "svc_step k e cfg (OpEvents evs) s = dispatch_events evs s"
| "svc_step k e cfg OpShutdown s = OnShutdown s"

fun adopted :: "svc_op list \<Rightarrow> int list" where
  "adopted [] = []"
| "adopted (OpAccepted sock # ops) = sock # adopted ops"
| "adopted (op # ops) = adopted ops"

definition live_fds :: "service \<Rightarrow> int list" where
  "live_fds s = map (h_fd \<circ> snd) (commHandlers s)"

lemma notify_handler_frame [simp]:
  "h_fd (notify_handler ev h) = h_fd h" "handler_ok h \<Longrightarrow> handler_ok (notify_handler ev h)"
proof -
  show "h_fd (notify_handler ev h) = h_fd h" by (simp add: notify_handler_def Let_def)
  have "helper_ok (deliver n g)" if "helper_ok g" for n g
    using helper_ok_deliver_all [OF that, of "[n]"] by (simp add: deliver_all_def)
  from this [where n = DataAvail] this [where n = HUP]
  show "handler_ok h \<Longrightarrow> handler_ok (notify_handler ev h)"
    using deliver_frame [of DataAvail] deliver_frame [of HUP]
    by (auto simp: handler_ok_def notify_handler_def Let_def)
qed

lemma AList_update_split:
  "map_of xs k = Some v \<Longrightarrow> \<exists>us vs. xs = us @ (k, v) # vs \<and> k \<notin> fst ` set us \<and>
     (\<forall>v'. AList.update k v' xs = us @ (k, v') # vs)"
proof (induction xs)
  case (Cons x xs)
  show ?case
  proof (cases "fst x = k")
    case True
    then show ?thesis using Cons.prems by (intro exI [of _ "[]"] exI [of _ xs]) (cases x, auto)
  next
    case False
    then obtain us vs where "xs = us @ (k, v) # vs" "k \<notin> fst ` set us"
        "\<forall>v'. AList.update k v' xs = us @ (k, v') # vs"
      using Cons by auto
    then show ?thesis using False by (intro exI [of _ "x # us"] exI [of _ vs]) (cases x, auto)
  qed
qed simp

lemma dispatch_event_frame:
  "live_fds (dispatch_event ev s) = live_fds s" "svc_calls (dispatch_event ev s) = svc_calls s"
  "service_ok n s \<Longrightarrow> service_ok n (dispatch_event ev s)"
proof -
  have "live_fds (dispatch_event ev s) = live_fds s \<and> svc_calls (dispatch_event ev s) = svc_calls s \<and>
      (service_ok n s \<longrightarrow> service_ok n (dispatch_event ev s))"
  proof (cases "map_of (commHandlers s) (fst ev)")
    case None
    then show ?thesis by (simp add: dispatch_event_def)
  next
    case (Some h)
    from AList_update_split [OF this] obtain us vs where sp: "commHandlers s = us @ (fst ev, h) # vs"
        "\<And>v'. AList.update (fst ev) v' (commHandlers s) = us @ (fst ev, v') # vs"
      by blast
    then show ?thesis
      using Some by (auto simp: dispatch_event_def live_fds_def service_ok_def)
  qed
  then show "live_fds (dispatch_event ev s) = live_fds s" "svc_calls (dispatch_event ev s) = svc_calls s"
    "service_ok n s \<Longrightarrow> service_ok n (dispatch_event ev s)" by simp_all
qed

lemma dispatch_events_frame:
  "live_fds (dispatch_events evs s) = live_fds s \<and> svc_calls (dispatch_events evs s) = svc_calls s \<and>
   (service_ok n s \<longrightarrow> service_ok n (dispatch_events evs s))"
  by (induction evs arbitrary: s) (simp_all add: dispatch_events_def dispatch_event_frame)

lemma mset_delete_fds:
  "map_of xs k = Some h \<Longrightarrow> distinct (map fst xs) \<Longrightarrow>
     mset (map (h_fd \<circ> snd) xs) = add_mset (h_fd h) (mset (map (h_fd \<circ> snd) (AList.delete k xs)))"
proof (induction xs)
  case (Cons x xs)
  obtain k' h' where x: "x = (k', h')" by (cases x)
  have cons: "AList.delete k (x # xs) = (if k = k' then AList.delete k xs else x # AList.delete k xs)"
    by (simp add: x AList.delete_eq)
  show ?case
  proof (cases "k = k'")
    case True
    then have "AList.delete k xs = xs" using Cons.prems x by (force simp: AList.delete_eq filter_id_conv)
    then show ?thesis using True Cons.prems x cons by simp
  next
    case False
    then show ?thesis using Cons x cons by (simp add: add_mset_commute)
  qed
qed simp

text \<open>Opened and adopted descriptors are the closed and the live ones, through any operation.\<close>

definition fds_balance :: "int multiset \<Rightarrow> service \<Rightarrow> bool" where
  "fds_balance taken s \<longleftrightarrow>
     mset (opened (svc_calls s)) + taken = mset (closed (svc_calls s)) + mset (live_fds s)"

lemma DisposeHandler_balance:
  assumes "service_ok n s" and "fds_balance taken s"
  shows "fds_balance taken (DisposeHandler k hid s)"
  using DisposeHandler_view [of k hid s] mset_delete_fds [of "commHandlers s" hid] assms
  by (cases "map_of (commHandlers s) hid")
    (auto simp: svc_view_def fds_balance_def live_fds_def service_ok_def)

lemma svc_step_balance:
  assumes ok: "service_ok (Suc n) s" and bal: "fds_balance taken s"
  shows "service_ok n (svc_step k e cfg op s) \<and>
    fds_balance (taken + mset (adopted [op])) (svc_step k e cfg op s)"
proof (cases op)
  case (OpConnect target tv)
  obtain hid s' where run: "ConnectAndCreateHandler k e cfg target tv s = (hid, s')" by fastforce
  have "service_ok n s'" using tcp_service.connect_new [OF ok run] by simp
  moreover have "fds_balance taken s'"
    using ConnectAndCreateHandler_view [OF run service_ok_fresh [OF ok]] bal
    by (auto simp: svc_view_def fds_balance_def live_fds_def new_handler_def)
  ultimately show ?thesis using OpConnect run by simp
next
  case (OpAccepted sock)
  obtain hid s' where run: "CreateHandlerFromSocket k cfg sock s = (hid, s')" by fastforce
  have "service_ok n s'" using tcp_service.create_new [OF ok run] by simp
  moreover have "fds_balance (add_mset sock taken) s'"
    using CreateHandlerFromSocket_view [OF run service_ok_fresh [OF ok]] bal
    by (auto simp: svc_view_def fds_balance_def live_fds_def new_handler_def)
  ultimately show ?thesis using OpAccepted run by simp
next
  case (OpDispose hid)
  then show ?thesis
    using DisposeHandler_balance [OF ok bal] DisposeHandler_ok [OF service_ok_less [OF ok, of n]] by simp
next
  case (OpEvents evs)
  then show ?thesis
    using dispatch_events_frame [of evs s n] service_ok_less [OF ok, of n] bal
    by (simp add: fds_balance_def)
next
  case OpShutdown
  then show ?thesis
    using service_ok_less [OF ok, of n] bal
    by (simp add: OnShutdown_def fds_balance_def live_fds_def service_ok_def)
qed

lemma svc_run_balance:
  "service_ok (length ops) s \<Longrightarrow> fds_balance taken s \<Longrightarrow>
     service_ok 0 (fold (svc_step k e cfg) ops s) \<and>
     fds_balance (taken + mset (adopted ops)) (fold (svc_step k e cfg) ops s)"
proof (induction ops arbitrary: s taken)
  case (Cons op ops)
  have one: "mset (adopted (op # ops)) = mset (adopted [op]) + mset (adopted ops)"
    by (cases op) simp_all
  have step: "service_ok (length ops) (svc_step k e cfg op s)"
      "fds_balance (taken + mset (adopted [op])) (svc_step k e cfg op s)"
    using svc_step_balance [of "length ops" s taken k e cfg op] Cons.prems by simp_all
  from Cons.IH [OF step] show ?case unfolding one by (simp add: ac_simps)
qed simp

text \<open>
  C17.  No descriptor leaks and none is closed twice.  After any sequence of operations on a new
  service, with any kernel, the sockets it opened and those it was handed after \<open>accept\<close> are, counted
  with multiplicity, the ones it closed and the ones its live handlers own; and live handlers have
  distinct identifiers below the error codes.  (The bound on the number of operations is the
  number of identifiers below the error codes, 2 to the 64 less 101.)
\<close>

theorem service_descriptors_conserved:
  assumes "length ops \<le> unat HANDLER_ERROR"
    and "s = fold (svc_step k e cfg) ops (TCPCommService k cfg)"
  shows "mset (opened (svc_calls s)) + mset (adopted ops) =
      mset (closed (svc_calls s)) + mset (live_fds s) \<and>
    distinct (map fst (commHandlers s)) \<and> set (map fst (commHandlers s)) \<subseteq> {0<..HANDLER_ERROR}"
proof -
  have "fds_balance {#} (TCPCommService k cfg)"
    by (simp add: fds_balance_def TCPCommService_def Let_def live_fds_def)
  then have ok: "service_ok 0 s" "fds_balance (mset (adopted ops)) s"
    using svc_run_balance [OF service_ok_new [OF assms(1)]] unfolding assms(2) by fastforce+
  have "handlerIdCounter s \<le> HANDLER_ERROR"
    using ok(1) by (simp add: service_ok_def word_le_nat_alt)
  then show ?thesis using ok by (fastforce simp: fds_balance_def service_ok_def)
qed

text \<open>A kernel whose \<open>socket\<close> counts up from 3, that refuses port-25 connections only.\<close>

definition demo_kernel :: kernel where
  "demo_kernel tr c =
     (case c of SysSocket v6 \<Rightarrow> (3 + int (length tr), 0)
      | SysConnect sock sa \<Rightarrow> if sa ! 3 = 25 then (-1, ECONNREFUSED) else (0, 0)
      | _ \<Rightarrow> (0, 0))"

definition demo_ops :: "svc_op list" where
  "demo_ops = [OpAccepted 7, OpConnect (IPEndpoint (IPAddress_raw [10, 0, 0, 1]) 25) \<lparr>tv_sec = 1, tv_usec = 0\<rparr>,
     OpConnect (IPEndpoint (IPAddress_raw [10, 0, 0, 1]) 80) \<lparr>tv_sec = 1, tv_usec = 0\<rparr>, OpDispose 1]"

theorem service_descriptors_conserved_witness:
  "mset (opened (svc_calls (fold (svc_step demo_kernel LittleEndian sample_config) demo_ops
        (TCPCommService demo_kernel sample_config)))) + mset (adopted demo_ops) =
      mset (closed (svc_calls (fold (svc_step demo_kernel LittleEndian sample_config) demo_ops
        (TCPCommService demo_kernel sample_config)))) +
      mset (live_fds (fold (svc_step demo_kernel LittleEndian sample_config) demo_ops
        (TCPCommService demo_kernel sample_config)))"
  using service_descriptors_conserved [of demo_ops, OF _ refl] by (simp add: demo_ops_def HANDLER_ERROR_def)

section \<open>Events\<close>

text \<open>What one event means for the two helpers of its handler.\<close>

definition reader_notes :: "u32 \<Rightarrow> notify list" where
  "reader_notes ev =
     (if flag ev EPOLLERR \<or> flag ev EPOLLHUP \<or> flag ev EPOLLRDHUP then [HUP]
      else if flag ev EPOLLIN then [DataAvail] else [])"

definition writer_notes :: "u32 \<Rightarrow> notify list" where
  "writer_notes ev =
     (if flag ev EPOLLERR \<or> flag ev EPOLLHUP then [HUP]
      else if flag ev EPOLLOUT then [DataAvail] else [])"

definition events_of :: "u64 \<Rightarrow> (u64 \<times> u32) list \<Rightarrow> u32 list" where
  "events_of hid evs = map snd (filter (\<lambda>e. fst e = hid) evs)"

lemma deliver_all_append: "deliver_all (ns @ ms) h = deliver_all ms (deliver_all ns h)"
  by (simp add: deliver_all_def)

lemma notify_handler_deliver:
  "notify_handler ev h = h\<lparr>reader := deliver_all (reader_notes ev) (reader h),
     writer := deliver_all (writer_notes ev) (writer h)\<rparr>"
  by (simp add: notify_handler_def reader_notes_def writer_notes_def deliver_all_def Let_def)

text \<open>
  C31.  A batch of epoll events gives each live handler exactly the notifications of its own
  events, in their order: an error or hang-up goes to both helpers, a read hang-up or readiness to
  the reader, writability to the writer.  Handlers without events and the set of handlers do not
  change, and events of handlers disposed meanwhile are dropped.
\<close>

theorem dispatch_events_delivers:
  "GetHandler hid (dispatch_events evs s) =
     map_option (\<lambda>h. h\<lparr>reader := deliver_all (concat (map reader_notes (events_of hid evs))) (reader h),
        writer := deliver_all (concat (map writer_notes (events_of hid evs))) (writer h)\<rparr>)
       (GetHandler hid s)"
proof (induction evs arbitrary: s)
  case Nil
  then show ?case by (simp add: dispatch_events_def events_of_def deliver_all_def option.map_ident)
next
  case (Cons ev evs)
  have one: "GetHandler hid (dispatch_event ev s) =
      (if fst ev = hid then map_option (notify_handler (snd ev)) (GetHandler hid s) else GetHandler hid s)"
    by (auto simp: dispatch_event_def GetHandler_def update_conv split: option.splits)
  have "GetHandler hid (dispatch_events (ev # evs) s) = GetHandler hid (dispatch_events evs (dispatch_event ev s))"
    by (simp add: dispatch_events_def)
  then show ?case
    unfolding Cons.IH one
    by (cases "GetHandler hid s") (simp_all add: events_of_def notify_handler_deliver deliver_all_append)
qed

section \<open>Shutdown\<close>

text \<open>The loop ends when shutdown is requested; unless \<open>epoll_wait\<close> failed, every helper is cancelled.\<close>

definition all_cancelled :: "service \<Rightarrow> bool" where
  "all_cancelled s \<longleftrightarrow> list_all (\<lambda>(hid, h). extCnt (reader h) = N_CANCEL \<and> extCnt (writer h) = N_CANCEL)
     (commHandlers s)"

lemma Cancel_extCnt: "extCnt (Cancel h) = N_CANCEL"
  using N_CANCEL_top [of "extCnt h"] by (auto simp: Cancel_def)

lemma cancel_handlers_all: "all_cancelled (cancel_handlers s)"
  by (auto simp: all_cancelled_def cancel_handlers_def list_all_iff Cancel_extCnt)

lemma service_loop_shutdown:
  "service_loop turns s = (True, s') \<Longrightarrow> shutdownPending s' \<Longrightarrow> all_cancelled s'"
  by (induction turns s rule: service_loop.induct)
    (auto simp: cancel_handlers_all HandleError_def Let_def split: if_splits ep_result.splits)

lemma service_loop_ends: "fst (service_loop (turns @ [(OnShutdown, res)]) s)"
  by (induction turns arbitrary: s) (auto simp: OnShutdown_def Let_def split: ep_result.splits)

text \<open>
  C30.  A shutdown request ends the service's worker, whatever the other threads and \<open>epoll_wait\<close>
  did before; and if the worker ends because of the request, then every transfer on a helper of a
  handler that still exists returns an error without moving a byte.
\<close>

theorem service_shutdown_stops_transfers:
  assumes "0 \<le> epollFd s"
    and "service_Worker err (turns @ [(OnShutdown, res)]) s = (ended, s')"
  shows "ended \<and> (shutdownPending s' \<longrightarrow> (\<forall>(hid, h) \<in> set (commHandlers s'). handler_ok h \<longrightarrow>
    (\<forall>side \<in> {reader h, writer h}. \<forall>ss buf len p. 0 < len \<longrightarrow>
      fst (Transfer ss buf len p side) < 0 \<and> x_wire (snd (Transfer ss buf len p side)) = [])))"
proof -
  have loop: "service_loop (turns @ [(OnShutdown, res)]) s = (ended, s')"
    using assms by (simp add: service_Worker_def)
  have dead: "fst (Transfer ss buf len p g) < 0 \<and> x_wire (snd (Transfer ss buf len p g)) = []"
    if "helper_ok g" "extCnt g = N_CANCEL" "0 < len" for g ss buf len p
  proof (cases "status g = 0")
    case True
    then show ?thesis using Transfer_cancelled [of g len ss buf p] that by simp
  next
    case False
    then show ?thesis using that by (auto simp: Transfer_def helper_ok_def Let_def)
  qed
  have "ended" using service_loop_ends [of turns res s] loop by simp
  moreover have "all_cancelled s'" if "shutdownPending s'"
    using service_loop_shutdown [of "turns @ [(OnShutdown, res)]" s s'] loop calculation that by simp
  ultimately show ?thesis
    using dead by (fastforce simp: all_cancelled_def list_all_iff handler_ok_def)
qed

theorem service_shutdown_stops_transfers_witness:
  "\<exists>s'. service_Worker 0 ([(\<lambda>s. s, EP_Events [(1, EPOLLIN)])] @ [(OnShutdown, EP_Timeout)])
      (snd (CreateHandlerFromSocket demo_kernel sample_config 7 (TCPCommService demo_kernel sample_config))) =
        (True, s') \<and>
    fst (Transfer [] [0] 1 False (reader (the (GetHandler 1 s')))) < 0"
proof -
  let ?s = "snd (CreateHandlerFromSocket demo_kernel sample_config 7 (TCPCommService demo_kernel sample_config))"
  let ?turns = "[(\<lambda>s. s, EP_Events [(1, EPOLLIN)])] :: ((service \<Rightarrow> service) \<times> ep_result) list"
  obtain ended s' where run: "service_Worker 0 (?turns @ [(OnShutdown, EP_Timeout)]) ?s = (ended, s')"
    by fastforce
  have s: "0 \<le> epollFd ?s" by code_simp
  have "shutdownPending (snd (service_Worker 0 (?turns @ [(OnShutdown, EP_Timeout)]) ?s)) \<and>
      commHandlers (snd (service_Worker 0 (?turns @ [(OnShutdown, EP_Timeout)]) ?s)) =
      [(1, (new_handler 7)\<lparr>reader := Cancel (TCPCommHelper 7 True), writer := Cancel (TCPCommHelper 7 False)\<rparr>)]"
    by code_simp
  moreover have "handler_ok ((new_handler 7)\<lparr>reader := Cancel (TCPCommHelper 7 True),
      writer := Cancel (TCPCommHelper 7 False)\<rparr>)"
    by (simp add: handler_ok_def new_handler_def TCPCommHelper_def Cancel_def helper_ok_def N_CANCEL_def N_HUP_def)
  ultimately have live: "shutdownPending s'" "\<exists>h. commHandlers s' = [(1, h)] \<and> handler_ok h"
    using run by simp_all
  show ?thesis
    using service_shutdown_stops_transfers [OF s run] live run by (auto simp: GetHandler_def)
qed

end
