(* ===== verification/Client_Handshake.thy ===== *)
theory Client_Handshake
  imports Comm_Service
begin

text \<open>
  \<open>src/Src/Job_ClientHandshake.cpp\<close>: the SOCKS5 server side of one connection, from the greeting
  to the reply, as the job executes it.

  The job is written against interfaces; their methods are the fields of \<open>hs_ops\<close>, over a world
  of any type: \<open>Transfer\<close> of the client's reader and writer, \<open>ConnectAndCreateHandler\<close> and
  \<open>GetHandler\<close> of the communication service (the descriptor of a valid handler, \<open>None\<close> for an
  invalid one), the resolver library and \<open>getsockname\<close>.  The job owns a buffer of \<open>BUFF_LEN\<close> bytes
  and works on the claim heap.  Each early return of the source is a step that ends the chain; the
  outcome \<open>HS_Undefined\<close> marks a read outside an object.
\<close>

section \<open>World, buffer and outcomes\<close>

record 'w hs_ops =
  op_read :: "'w transfer"
  op_write :: "'w transfer"
  op_connect :: "ip_endpoint \<Rightarrow> timeval \<Rightarrow> 'w \<Rightarrow> u64 \<times> 'w"
  op_handler :: "u64 \<Rightarrow> 'w \<Rightarrow> int option"
  op_dns_new :: "dns_ctx \<Rightarrow> 'w \<Rightarrow> bool \<times> 'w"
  op_dns_open :: "'w \<Rightarrow> bool \<times> 'w"
  op_resolve_a6 :: "string \<Rightarrow> bool \<Rightarrow> 'w \<Rightarrow> bytes list option \<times> 'w"
  op_resolve_a4 :: "string \<Rightarrow> bool \<Rightarrow> 'w \<Rightarrow> bytes list option \<times> 'w"
  op_getsockname :: "int \<Rightarrow> 'w \<Rightarrow> bytes option \<times> 'w"

record 'w hs =
  hs_buf :: bytes
  hs_heap :: claim_heap
  hs_w :: 'w

datatype hs_outcome = HS_Result job_result | HS_Undefined

type_synonym ('w, 'a) hs_step = "('w hs, hs_outcome, 'a) step"

definition BUFF_LEN :: nat where "BUFF_LEN = 512"

definition bytes_to_string :: "bytes \<Rightarrow> string" where
  "bytes_to_string bs = map (\<lambda>b. char_of (unat b)) bs"

section \<open>Early returns and transfers\<close>

definition FailWithDisclaim :: "job_state \<Rightarrow> ('w, 'a) hs_step" where
  "FailWithDisclaim st s =
     (let (st', heap') = DisclaimAllHandlers st (hs_heap s)
      in (Inl (HS_Result (JR_TERMINAL st')), s\<lparr>hs_heap := heap'\<rparr>))"

text \<open>\<open>Transfer(buff, n, false)\<close> on the client's reader: the first \<open>n\<close> bytes of the buffer, or failure.\<close>

definition recv :: "'w hs_ops \<Rightarrow> job_state \<Rightarrow> nat \<Rightarrow> ('w, bytes) hs_step" where
  "recv ops st n s =
     (let (r, buf', w') = op_read ops (hs_buf s) (int n) False (hs_w s);
          s' = s\<lparr>hs_buf := buf', hs_w := w'\<rparr>
      in if r < int n then FailWithDisclaim st s' else (Inr (take n buf'), s'))"

text \<open>The bytes put at the start of the buffer and written with \<open>Transfer(buff, n, false)\<close>.\<close>

definition send_buff :: "'w hs_ops \<Rightarrow> bytes \<Rightarrow> ('w, int) hs_step" where
  "send_buff ops data s =
     (let buf = memcpy_at 0 data (hs_buf s);
          (r, buf', w') = op_write ops buf (int (length data)) False (hs_w s)
      in (Inr r, s\<lparr>hs_buf := buf', hs_w := w'\<rparr>))"

text \<open>\<open>SendAuthFailWithDisclaim\<close> uses a two-byte buffer of its own.\<close>

definition SendAuthFailWithDisclaim :: "'w hs_ops \<Rightarrow> job_state \<Rightarrow> ('w, 'a) hs_step" where
  "SendAuthFailWithDisclaim ops st s =
     (let (r, buf', w') = op_write ops [1, 1] 2 False (hs_w s)
      in FailWithDisclaim st (s\<lparr>hs_w := w'\<rparr>))"

section \<open>Greeting and method selection\<close>

definition hs_greeting :: "'w hs_ops \<Rightarrow> job_state \<Rightarrow> ('w, bytes) hs_step" where
  "hs_greeting ops st =
     bind_step (recv ops st 1) (\<lambda>ver.
     if ver ! 0 \<noteq> 5 then FailWithDisclaim st
     else bind_step (recv ops st 1) (\<lambda>n.
     recv ops st (unat (n ! 0))))"

text \<open>The first offered method the server supports: 0 (anonymous, if allowed) or 2; else -1.\<close>

fun select_method :: "bool \<Rightarrow> bytes \<Rightarrow> int" where
  "select_method anon [] = -1"
| "select_method anon (m # ms) =
     (if (anon \<and> m = 0) \<or> m = 2 then int (unat m) else select_method anon ms)"

definition anonLoginSupported :: "config \<Rightarrow> bool" where
  "anonLoginSupported cfg \<longleftrightarrow> GetUser cfg '''' \<noteq> None"

definition hs_method :: "'w hs_ops \<Rightarrow> config \<Rightarrow> job_state \<Rightarrow> bytes \<Rightarrow> ('w, int) hs_step" where
  "hs_method ops cfg st methods =
     (let selected = select_method (anonLoginSupported cfg) methods
      in if selected < 0
      then bind_step (send_buff ops [5, 255]) (\<lambda>_ s.
        let (r, buf', w') = op_read ops (hs_buf s) (int BUFF_LEN) True (hs_w s)
        in FailWithDisclaim st (s\<lparr>hs_buf := buf', hs_w := w'\<rparr>))
      else bind_step (send_buff ops [5, word_of_int selected]) (\<lambda>r.
        if r \<noteq> 2 then FailWithDisclaim st else ret_step selected))"

section \<open>Login\<close>

definition hs_auth :: "'w hs_ops \<Rightarrow> config \<Rightarrow> job_state \<Rightarrow> int \<Rightarrow> ('w, unit) hs_step" where
  "hs_auth ops cfg st selected =
     (if selected \<noteq> 2 then ret_step ()
      else
      bind_step (recv ops st 1) (\<lambda>ver.
      if ver ! 0 \<noteq> 1 then SendAuthFailWithDisclaim ops st
      else
      bind_step (recv ops st 1) (\<lambda>ulen.
      bind_step (recv ops st (unat (ulen ! 0))) (\<lambda>username.
      bind_step (recv ops st 1) (\<lambda>plen.
      bind_step (recv ops st (unat (plen ! 0))) (\<lambda>pass.
      case GetUser cfg (bytes_to_string username) of
        None \<Rightarrow> SendAuthFailWithDisclaim ops st
      | Some u \<Rightarrow>
          if password u \<noteq> bytes_to_string pass then SendAuthFailWithDisclaim ops st
          else bind_step (send_buff ops [1, 0]) (\<lambda>r.
            if r \<noteq> 2 then FailWithDisclaim st else ret_step ())))))))"

section \<open>Request\<close>

text \<open>Addresses of an answer, in order, without the invalid ones.\<close>

definition valid_addrs :: "bytes list \<Rightarrow> ip_address list" where
  "valid_addrs raws = filter isValid (map IPAddress_raw raws)"

definition hs_resolve :: "'w hs_ops \<Rightarrow> config \<Rightarrow> job_state \<Rightarrow> string \<Rightarrow> ('w, ip_address list) hs_step" where
  "hs_resolve ops cfg st dname s =
     (let (created, w1) = op_dns_new ops (GetBaseUDNSContext cfg) (hs_w s)
      in if \<not> created then FailWithDisclaim st (s\<lparr>hs_w := w1\<rparr>)
      else
      let (opened, w2) = op_dns_open ops w1
      in if \<not> opened then FailWithDisclaim st (s\<lparr>hs_w := w2\<rparr>)
      else
      let nosrch = \<not> GetUDNSSearchDomainIsSet cfg;
          (ans6, w3) = op_resolve_a6 ops (c_str dname) nosrch w2;
          ips6 = (case ans6 of None \<Rightarrow> [] | Some raws \<Rightarrow> valid_addrs raws);
          (ans4, w4) = op_resolve_a4 ops (c_str dname) nosrch w3;
          ips4 = (case ans4 of None \<Rightarrow> [] | Some raws \<Rightarrow> valid_addrs raws)
      in (Inr (ips6 @ ips4), s\<lparr>hs_w := w4\<rparr>))"

definition hs_dest :: "'w hs_ops \<Rightarrow> pton \<Rightarrow> config \<Rightarrow> job_state \<Rightarrow> byte \<Rightarrow> ('w, ip_address list) hs_step" where
  "hs_dest ops pton cfg st atyp =
     (if atyp = 1 then bind_step (recv ops st IPV4_ADDR_LEN) (\<lambda>raw. ret_step (valid_addrs [raw]))
      else if atyp = 4 then bind_step (recv ops st IPV6_ADDR_LEN) (\<lambda>raw. ret_step (valid_addrs [raw]))
      else if atyp = 3 then
        bind_step (recv ops st 1) (\<lambda>dnameLen.
        bind_step (recv ops st (unat (dnameLen ! 0))) (\<lambda>dname.
        let testIP = IPAddress_str pton (bytes_to_string dname)
        in if isValid testIP then ret_step [testIP]
           else hs_resolve ops cfg st (bytes_to_string dname)))
      else FailWithDisclaim st)"

text \<open>The command, the destination addresses and the port of the request.\<close>

definition hs_request :: "'w hs_ops \<Rightarrow> pton \<Rightarrow> endian \<Rightarrow> config \<Rightarrow> job_state \<Rightarrow>
    ('w, byte \<times> ip_address list \<times> u16) hs_step" where
  "hs_request ops pton e cfg st =
     bind_step (recv ops st 1) (\<lambda>ver.
     if ver ! 0 \<noteq> 5 then FailWithDisclaim st
     else
     bind_step (recv ops st 2) (\<lambda>cmd.
     bind_step (recv ops st 1) (\<lambda>atyp.
     bind_step (hs_dest ops pton cfg st (atyp ! 0)) (\<lambda>destIPs.
     bind_step (recv ops st 2) (\<lambda>nsport.
     ret_step (cmd ! 0, destIPs, ntohs e (load16 e (nsport ! 0) (nsport ! 1))))))))"

section \<open>Connecting\<close>

text \<open>The timeout of one attempt: an equal share of the total, but not below the minimum.\<close>

definition connect_timeout :: "config \<Rightarrow> nat \<Rightarrow> timeval" where
  "connect_timeout cfg ipCount =
     (let minTimeout = GetMinCTimeSec cfg * 1000000;
          proposed = (GetMaxCTimeSec cfg * 1000000) sdiv int ipCount;
          t = (if proposed < minTimeout then minTimeout else proposed)
      in \<lparr>tv_sec = t sdiv 1000000, tv_usec = t - t sdiv 1000000 * 1000000\<rparr>)"

definition rep_after_error :: "u64 \<Rightarrow> byte \<Rightarrow> byte" where
  "rep_after_error target rep =
     (let rep1 = (if target = HANDLER_ERROR_CONN_REFUSED then 5 else rep)
      in if target = HANDLER_ERROR_NET_UNAVAIL then 3 else rep1)"

text \<open>
  The loop over the destination addresses: the reply code, the final state and the bind endpoint.
  \<open>getsockname\<close> fills a \<open>sockaddr\<close> of 16 bytes; an endpoint that needs more is read past its end.
\<close>

fun connect_loop :: "'w hs_ops \<Rightarrow> endian \<Rightarrow> timeval \<Rightarrow> u16 \<Rightarrow> ip_address list \<Rightarrow> byte \<Rightarrow>
    job_state immutable_storage \<Rightarrow> ip_endpoint immutable_storage \<Rightarrow>
    ('w, byte \<times> job_state immutable_storage \<times> ip_endpoint immutable_storage) hs_step" where
  "connect_loop ops e ct prt [] rep finalState bindEP s = (Inr (rep, finalState, bindEP), s)"
| "connect_loop ops e ct prt (addr # ips) rep finalState bindEP s =
     (let (target, w1) = op_connect ops (IPEndpoint addr prt) ct (hs_w s); s1 = s\<lparr>hs_w := w1\<rparr>
      in if target > HANDLER_ERROR
      then connect_loop ops e ct prt ips (rep_after_error target rep) finalState bindEP s1
      else case op_handler ops target w1 of
        None \<Rightarrow> FailWithDisclaim (IS_Get finalState) s1
      | Some tfd \<Rightarrow>
        (let (st', heap') = AddHandlerWithClaim target (IS_Get finalState) (hs_heap s1);
             finalState' = IS_Set st' finalState;
             s2 = s1\<lparr>hs_heap := heap'\<rparr>;
             (sa, w2) = op_getsockname ops tfd w1;
             s3 = s2\<lparr>hs_w := w2\<rparr>
         in case sa of
              None \<Rightarrow> FailWithDisclaim (IS_Get finalState') s3
            | Some raw \<Rightarrow>
                (case IPEndpoint_sa e raw of
                   None \<Rightarrow> (Inl HS_Undefined, s3)
                 | Some ep \<Rightarrow>
                     if \<not> isValid (address ep) then FailWithDisclaim (IS_Get finalState') s3
                     else (Inr (0, finalState', IS_Set ep bindEP), s3))))"

definition hs_command :: "'w hs_ops \<Rightarrow> endian \<Rightarrow> config \<Rightarrow> job_state \<Rightarrow> byte \<Rightarrow> ip_address list \<Rightarrow> u16 \<Rightarrow>
    ('w, byte \<times> job_state immutable_storage \<times> ip_endpoint immutable_storage) hs_step" where
  "hs_command ops e cfg st cmd destIPs prt =
     (if cmd = 1
      then connect_loop ops e (connect_timeout cfg (length destIPs)) prt destIPs 1
             (IS_new st) (IS_new IPEndpoint_default)
      else ret_step (7, IS_new st, IS_new IPEndpoint_default))"

section \<open>Reply and result\<close>

definition hs_reply :: "'w hs_ops \<Rightarrow> endian \<Rightarrow> byte \<Rightarrow> byte \<Rightarrow> job_state \<Rightarrow> ip_endpoint \<Rightarrow>
    ('w, hs_outcome) hs_step" where
  "hs_reply ops e cmd rep st ep s =
     (let buf1 = memcpy_at 0 [5, rep, 0, if isV6 (address ep) then 4 else 1] (hs_buf s);
          (buf2, epLen) = IPEndpoint_ToRawBuff e ep 4 buf1;
          respLen = epLen + 4;
          (r, buf3, w') = op_write ops buf2 (int respLen) False (hs_w s);
          s' = s\<lparr>hs_buf := buf3, hs_w := w'\<rparr>
      in if r < int respLen then FailWithDisclaim st s'
      else if cmd = 1 \<and> rep = 0
      then (let (st', heap') = DisclaimAllHandlers st (hs_heap s')
            in (Inr (HS_Result (JR_CLIENT_MODE_CONNECT st')), s'\<lparr>hs_heap := heap'\<rparr>))
      else FailWithDisclaim st s')"

text \<open>The conversation with the client, after the checks on the job's configuration.\<close>

definition hs_session :: "'w hs_ops \<Rightarrow> pton \<Rightarrow> endian \<Rightarrow> config \<Rightarrow> job_state \<Rightarrow> ('w, hs_outcome) hs_step" where
  "hs_session ops pton e cfg st =
     bind_step (hs_greeting ops st) (\<lambda>methods.
     bind_step (hs_method ops cfg st methods) (\<lambda>selected.
     bind_step (hs_auth ops cfg st selected) (\<lambda>_.
     bind_step (hs_request ops pton e cfg st) (\<lambda>(cmd, destIPs, prt).
     bind_step (hs_command ops e cfg st cmd destIPs prt) (\<lambda>(rep, finalState, bindEP).
     hs_reply ops e cmd rep (IS_Get finalState) (IS_Get bindEP))))))"

text \<open>\<open>Job_ClientHandshake(...)\<close> claims the handlers of the state it is given.\<close>

definition Job_ClientHandshake :: "job_state \<Rightarrow> claim_heap \<Rightarrow> job_state \<times> claim_heap" where
  "Job_ClientHandshake st heap = ClaimAllHandlers st heap"

definition handshake_Execute :: "'w hs_ops \<Rightarrow> pton \<Rightarrow> endian \<Rightarrow> config \<Rightarrow> job_state \<Rightarrow>
    claim_heap \<Rightarrow> 'w \<Rightarrow> hs_outcome \<times> 'w hs" where
  "handshake_Execute ops pton e cfg st heap w =
     (let s = \<lparr>hs_buf = replicate BUFF_LEN 0, hs_heap = heap, hs_w = w\<rparr>;
          run = (if length (handlerClaims st) \<noteq> 1 then FailWithDisclaim st s
            else case op_handler ops (cs_handlerID (handlerClaimStates st ! 0)) w of
              None \<Rightarrow> FailWithDisclaim st s
            | Some _ \<Rightarrow> hs_session ops pton e cfg st s)
      in case run of (Inl out, s') \<Rightarrow> (out, s') | (Inr out, s') \<Rightarrow> (out, s'))"

text \<open>\<open>Cancel\<close> does nothing.\<close>

definition handshake_Cancel :: "'w hs \<Rightarrow> 'w hs" where
  "handshake_Cancel s = s"

end
