(* ===== verification/Handshake_Claims.thy ===== *)
theory Handshake_Claims
  imports Client_Handshake
begin

text \<open>
  What the handshake does with the claims of its job, for any implementation of the interfaces it
  calls: every way out of \<open>Execute\<close> releases the claims once, the claim of a new target connection
  included, and reports the counters it left.  A locale adds what the environment keeps track of: which
  target connection was made, so that the claim that was added is the one of that connection.
\<close>

section \<open>The environment\<close>

text \<open>
  \<open>Q None\<close> holds of the world as long as no target is connected, \<open>Q (Some t)\<close> once \<open>t\<close> is.  A target that
  cannot be found right after it was connected counts as not connected.
\<close>

locale target_tracking =
  fixes ops :: "'w hs_ops" and Q :: "u64 option \<Rightarrow> 'w \<Rightarrow> bool"
  assumes q_read: "Q t w \<Longrightarrow> op_read ops buf len p w = (r, buf', w') \<Longrightarrow> Q t w'"
    and q_write: "Q t w \<Longrightarrow> op_write ops buf len p w = (r, buf', w') \<Longrightarrow> Q t w'"
    and q_dns_new: "Q t w \<Longrightarrow> op_dns_new ops ctx w = (ok, w') \<Longrightarrow> Q t w'"
    and q_dns_open: "Q t w \<Longrightarrow> op_dns_open ops w = (ok, w') \<Longrightarrow> Q t w'"
    and q_resolve: "Q t w \<Longrightarrow> op_resolve_a6 ops nm srch w = (ans, w') \<Longrightarrow> Q t w'"
      "Q t w \<Longrightarrow> op_resolve_a4 ops nm srch w = (ans, w') \<Longrightarrow> Q t w'"
    and q_getsockname: "Q t w \<Longrightarrow> op_getsockname ops sock w = (sa, w') \<Longrightarrow> Q t w'"
    and q_connect: "Q None w \<Longrightarrow> op_connect ops ep tv w = (target, w') \<Longrightarrow>
      if HANDLER_ERROR < target \<or> op_handler ops target w' = None then Q None w' else Q (Some target) w'"

section \<open>Steps that do not touch the claims\<close>

text \<open>A step keeps the heap if it goes on, and ends the job by releasing the claims of \<open>st\<close> if not.\<close>

definition hs_keeps :: "(u64 option \<Rightarrow> 'w \<Rightarrow> bool) \<Rightarrow> job_state \<Rightarrow> ('w, 'a) hs_step \<Rightarrow> bool" where
  "hs_keeps Q st m \<longleftrightarrow> (\<forall>s. Q None (hs_w s) \<longrightarrow> (case m s of
       (Inr _, s') \<Rightarrow> hs_heap s' = hs_heap s \<and> Q None (hs_w s')
     | (Inl out, s') \<Rightarrow> (\<exists>st'. out = HS_Result (JR_TERMINAL st') \<and>
         DisclaimAllHandlers st (hs_heap s) = (st', hs_heap s')) \<and> Q None (hs_w s')))"

named_theorems keeps_intros

lemma hs_keepsD:
  assumes "hs_keeps Q st m" and "Q None (hs_w s)"
  shows "m s = (Inr a, s') \<Longrightarrow> hs_heap s' = hs_heap s \<and> Q None (hs_w s')"
    and "m s = (Inl out, s') \<Longrightarrow> \<exists>st'. out = HS_Result (JR_TERMINAL st') \<and>
      DisclaimAllHandlers st (hs_heap s) = (st', hs_heap s') \<and> Q None (hs_w s')"
  using assms(1) [unfolded hs_keeps_def, rule_format, OF assms(2)] by auto

lemma hs_keepsI:
  fixes m :: "('w, 'a) hs_step"
  assumes "\<And>s a s'. Q None (hs_w s) \<Longrightarrow> m s = (Inr a, s') \<Longrightarrow> hs_heap s' = hs_heap s \<and> Q None (hs_w s')"
    and "\<And>s out s'. Q None (hs_w s) \<Longrightarrow> m s = (Inl out, s') \<Longrightarrow> \<exists>st'. out = HS_Result (JR_TERMINAL st') \<and>
      DisclaimAllHandlers st (hs_heap s) = (st', hs_heap s') \<and> Q None (hs_w s')"
  shows "hs_keeps Q st m"
  unfolding hs_keeps_def
proof (intro allI impI)
  fix s :: "'w hs" assume q: "Q None (hs_w s)"
  obtain x s' where m: "m s = (x, s')" by fastforce
  show "case m s of (Inr _, s') \<Rightarrow> hs_heap s' = hs_heap s \<and> Q None (hs_w s')
     | (Inl out, s') \<Rightarrow> (\<exists>st'. out = HS_Result (JR_TERMINAL st') \<and>
         DisclaimAllHandlers st (hs_heap s) = (st', hs_heap s')) \<and> Q None (hs_w s')"
    using assms(1) [OF q, of _ s'] assms(2) [OF q, of _ s'] unfolding m by (cases x) auto
qed

lemma hs_keeps_bind [keeps_intros]:
  assumes "hs_keeps Q st m" and "\<And>a. hs_keeps Q st (f a)"
  shows "hs_keeps Q st (bind_step m f)"
proof (rule hs_keepsI)
  fix s a s' assume q: "Q None (hs_w s)" and run: "bind_step m f s = (Inr a, s')"
  from run show "hs_heap s' = hs_heap s \<and> Q None (hs_w s')"
  proof (cases rule: bind_step_cases)
    case (cont b s1)
    then show ?thesis using hs_keepsD(1) [OF assms(1) q] hs_keepsD(1) [OF assms(2)] by metis
  qed simp
next
  fix s out s' assume q: "Q None (hs_w s)" and run: "bind_step m f s = (Inl out, s')"
  from run show "\<exists>st'. out = HS_Result (JR_TERMINAL st') \<and>
      DisclaimAllHandlers st (hs_heap s) = (st', hs_heap s') \<and> Q None (hs_w s')"
  proof (cases rule: bind_step_cases)
    case (fail r)
    then show ?thesis using hs_keepsD(2) [OF assms(1) q] by simp
  next
    case (cont b s1)
    then show ?thesis using hs_keepsD(1) [OF assms(1) q] hs_keepsD(2) [OF assms(2), of s1] by metis
  qed
qed

lemma hs_keeps_if [keeps_intros]:
  "(b \<Longrightarrow> hs_keeps Q st m) \<Longrightarrow> (\<not> b \<Longrightarrow> hs_keeps Q st m') \<Longrightarrow> hs_keeps Q st (if b then m else m')"
  by simp

lemma hs_keeps_option [keeps_intros]:
  "hs_keeps Q st m \<Longrightarrow> (\<And>x. hs_keeps Q st (f x)) \<Longrightarrow>
   hs_keeps Q st (case opt of None \<Rightarrow> m | Some x \<Rightarrow> f x)"
  by (cases opt) simp_all

lemma hs_keeps_Let [keeps_intros]: "hs_keeps Q st (f a) \<Longrightarrow> hs_keeps Q st (let x = a in f x)"
  by simp

lemma hs_keeps_plain [keeps_intros]: "hs_keeps Q st (FailWithDisclaim st)" "hs_keeps Q st (ret_step a)"
  by (simp_all add: hs_keeps_def FailWithDisclaim_def Let_def split: prod.splits)

section \<open>How a job ends\<close>

text \<open>
  How the command leaves states and heap: \<open>Some t\<close> means that a target connection \<open>t\<close> was made and
  its claim added to the state.
\<close>

definition with_target :: "u64 option \<Rightarrow> job_state \<Rightarrow> claim_heap \<Rightarrow> job_state \<times> claim_heap" where
  "with_target target st heap =
     (case target of None \<Rightarrow> (st, heap) | Some t \<Rightarrow> AddHandlerWithClaim t st heap)"

definition hs_ends :: "(u64 option \<Rightarrow> 'w \<Rightarrow> bool) \<Rightarrow> job_state \<Rightarrow> claim_heap \<Rightarrow> hs_outcome \<Rightarrow> 'w hs \<Rightarrow> bool" where
  "hs_ends Q st heap out s' \<longleftrightarrow> out = HS_Undefined \<or>
     (\<exists>target st1 heap1 st'. with_target target st heap = (st1, heap1) \<and>
        DisclaimAllHandlers st1 heap1 = (st', hs_heap s') \<and> Q target (hs_w s') \<and>
        (out = HS_Result (JR_TERMINAL st') \<or>
         out = HS_Result (JR_CLIENT_MODE_CONNECT st') \<and> target \<noteq> None))"

text \<open>How the command goes on: the reply code tells whether there is a target.\<close>

definition hs_goes_on :: "(u64 option \<Rightarrow> 'w \<Rightarrow> bool) \<Rightarrow> job_state \<Rightarrow> claim_heap \<Rightarrow>
    byte \<times> job_state immutable_storage \<times> ip_endpoint immutable_storage \<Rightarrow> 'w hs \<Rightarrow> bool" where
  "hs_goes_on Q st heap a s' \<longleftrightarrow> (\<exists>target. with_target target st heap = (IS_Get (fst (snd a)), hs_heap s') \<and>
     Q target (hs_w s') \<and> (fst a = 0 \<longleftrightarrow> target \<noteq> None))"

lemma with_target_simps:
  "with_target None st heap = (st, heap)"
  "with_target (Some t) st heap = AddHandlerWithClaim t st heap"
  by (simp_all add: with_target_def)

lemma hs_endsI_fail:
  assumes "with_target target st heap = (st1, hs_heap s)" and "Q target (hs_w s)"
    and "FailWithDisclaim st1 s = (x, s')"
  shows "\<exists>out. x = Inl out \<and> hs_ends Q st heap out s'"
proof -
  have "\<exists>st'. x = Inl (HS_Result (JR_TERMINAL st')) \<and> DisclaimAllHandlers st1 (hs_heap s) = (st', hs_heap s') \<and>
      hs_w s' = hs_w s"
    using assms(3) by (auto simp: FailWithDisclaim_def split: prod.splits)
  then show ?thesis using assms(1,2) unfolding hs_ends_def by metis
qed

lemma hs_endsI_keeps:
  assumes "hs_keeps Q st m" and "Q None (hs_w s)" and "m s = (Inl out, s')"
  shows "hs_ends Q st (hs_heap s) out s'"
  using hs_keepsD(2) [OF assms] by (auto simp: hs_ends_def with_target_simps intro!: exI [of _ None])

lemma rep_after_error_nonzero: "rep \<noteq> 0 \<Longrightarrow> rep_after_error target rep \<noteq> 0"
  by (simp add: rep_after_error_def)

text \<open>The conversation as a front part, which touches no claim, and the command with its reply.\<close>

lemma hs_session_split:
  "hs_session ops pton e cfg st s = bind_step (bind_step (hs_greeting ops st) (\<lambda>methods.
     bind_step (hs_method ops cfg st methods) (\<lambda>selected.
     bind_step (hs_auth ops cfg st selected) (\<lambda>_. hs_request ops pton e cfg st))))
     (\<lambda>(cmd, destIPs, prt).
     bind_step (hs_command ops e cfg st cmd destIPs prt) (\<lambda>(rep, finalState, bindEP).
     hs_reply ops e cmd rep (IS_Get finalState) (IS_Get bindEP))) s"
  by (simp add: hs_session_def bind_step_def split: prod.splits sum.splits)

section \<open>The whole job\<close>

context target_tracking
begin

lemma hs_keeps_calls [keeps_intros]:
  "hs_keeps Q st (recv ops st n)" "hs_keeps Q st (send_buff ops data)"
  "hs_keeps Q st (SendAuthFailWithDisclaim ops st)"
  "hs_keeps Q st (\<lambda>s. let (r, buf', w') = op_read ops (hs_buf s) len True (hs_w s)
     in FailWithDisclaim st (s\<lparr>hs_buf := buf', hs_w := w'\<rparr>))"
  by (auto simp: hs_keeps_def FailWithDisclaim_def recv_def send_buff_def
      SendAuthFailWithDisclaim_def Let_def split: prod.splits dest: q_read q_write)

lemma hs_keeps_resolve [keeps_intros]: "hs_keeps Q st (hs_resolve ops cfg st dname)"
  by (auto simp: hs_keeps_def hs_resolve_def FailWithDisclaim_def Let_def split: prod.splits)
    (blast dest: q_dns_new q_dns_open q_resolve)+

lemma hs_keeps_front:
  "hs_keeps Q st (bind_step (hs_greeting ops st) (\<lambda>methods.
     bind_step (hs_method ops cfg st methods) (\<lambda>selected.
     bind_step (hs_auth ops cfg st selected) (\<lambda>_. hs_request ops pton e cfg st))))"
  unfolding hs_greeting_def hs_method_def hs_auth_def hs_request_def hs_dest_def by (intro keeps_intros)

lemma connect_loop_claims:
  assumes "rep \<noteq> 0" and "IS_Get fs = st" and "hs_heap s = heap" and "Q None (hs_w s)"
    and "connect_loop ops e ct prt ips rep fs ep s = (x, s')"
  shows "case x of Inl out \<Rightarrow> hs_ends Q st heap out s' | Inr a \<Rightarrow> hs_goes_on Q st heap a s'"
  using assms
proof (induction ips arbitrary: rep s)
  case Nil
  then show ?case by (auto intro!: exI [of _ None] simp: with_target_simps hs_goes_on_def)
next
  case (Cons addr ips)
  obtain target w1 where con: "op_connect ops (IPEndpoint addr prt) ct (hs_w s) = (target, w1)"
    by fastforce
  let ?s1 = "s\<lparr>hs_w := w1\<rparr>"
  note q1 = q_connect [OF Cons.prems(4) con]
  show ?case
  proof (cases "target > HANDLER_ERROR")
    case True
    then have "connect_loop ops e ct prt ips (rep_after_error target rep) fs ep ?s1 = (x, s')"
      using Cons.prems(5) by (simp add: con)
    then show ?thesis
      using Cons.IH [of "rep_after_error target rep" ?s1] Cons.prems(1-3) rep_after_error_nonzero q1 True by simp
  next
    case connected: False
    show ?thesis
    proof (cases "op_handler ops target w1")
      case None
      then have "FailWithDisclaim st ?s1 = (x, s')"
        using Cons.prems(2,5) connected by (simp add: con)
      then obtain out where "x = Inl out" "hs_ends Q st heap out s'"
        using hs_endsI_fail [of None st heap st ?s1 Q x s'] Cons.prems(3) q1 None by (auto simp: with_target_simps)
      then show ?thesis by simp
    next
      case (Some tfd)
      obtain st1 heap1 where add: "AddHandlerWithClaim target st heap = (st1, heap1)" by fastforce
      obtain sa w2 where gs: "op_getsockname ops tfd w1 = (sa, w2)" by fastforce
      let ?s3 = "s\<lparr>hs_heap := heap1, hs_w := w2\<rparr>"
      have q2: "Q (Some target) w2" using q_getsockname [OF _ gs] q1 connected Some by simp
      have fail: "FailWithDisclaim st1 ?s3 = (x, s') \<Longrightarrow>
          \<exists>out. x = Inl out \<and> hs_ends Q st heap out s'"
        using hs_endsI_fail [of "Some target" st heap st1 ?s3 Q] add q2 by (simp add: with_target_simps)
      show ?thesis
        using Cons.prems connected Some con add gs fail q2
        by (auto simp: hs_ends_def [of _ _ _ HS_Undefined] hs_goes_on_def with_target_simps Let_def
            intro!: exI [of _ "Some target"] split: option.splits if_splits)
    qed
  qed
qed

lemma hs_command_claims:
  assumes "hs_command ops e cfg st cmd ips prt s = (x, s')" and "Q None (hs_w s)"
  shows "case x of Inl out \<Rightarrow> hs_ends Q st (hs_heap s) out s' | Inr a \<Rightarrow> hs_goes_on Q st (hs_heap s) a s'"
proof (cases "cmd = 1")
  case True
  have "connect_loop ops e (connect_timeout cfg (length ips)) prt ips 1 (IS_new st)
      (IS_new IPEndpoint_default) s = (x, s')"
    using assms(1) True by (simp add: hs_command_def)
  from connect_loop_claims [OF _ _ refl assms(2) this] show ?thesis by simp
next
  case False
  then show ?thesis
    using assms by (auto simp: hs_command_def hs_goes_on_def with_target_simps intro!: exI [of _ None])
qed

lemma hs_reply_claims:
  assumes "hs_goes_on Q st heap (rep, fs, ep) s"
    and "hs_reply ops e cmd rep (IS_Get fs) ep' s = (x, s')"
  shows "hs_ends Q st heap (case x of Inl out \<Rightarrow> out | Inr out \<Rightarrow> out) s'"
proof -
  let ?st1 = "IS_Get fs"
  obtain target where target: "with_target target st heap = (?st1, hs_heap s)" "Q target (hs_w s)"
      "rep = 0 \<longleftrightarrow> target \<noteq> None"
    using assms(1) by (auto simp: hs_goes_on_def)
  obtain b2 n where raw: "IPEndpoint_ToRawBuff e ep' 4
      (memcpy_at 0 [5, rep, 0, if isV6 (address ep') then 4 else 1] (hs_buf s)) = (b2, n)"
    by fastforce
  obtain r buf3 w' where wr: "op_write ops b2 (int (n + 4)) False (hs_w s) = (r, buf3, w')"
    by (metis prod.collapse)
  let ?s' = "s\<lparr>hs_buf := buf3, hs_w := w'\<rparr>"
  have q: "Q target w'" using q_write [OF target(2) wr] .
  have run: "hs_reply ops e cmd rep ?st1 ep' s =
      (if r < int (n + 4) then FailWithDisclaim ?st1 ?s'
       else if cmd = 1 \<and> rep = 0
       then (let (st', heap') = DisclaimAllHandlers ?st1 (hs_heap s)
             in (Inr (HS_Result (JR_CLIENT_MODE_CONNECT st')), ?s'\<lparr>hs_heap := heap'\<rparr>))
       else FailWithDisclaim ?st1 ?s')"
    unfolding hs_reply_def Let_def raw prod.case wr by simp
  show ?thesis
  proof (cases "FailWithDisclaim ?st1 ?s' = (x, s')")
    case True
    then obtain out where "x = Inl out" "hs_ends Q st heap out s'"
      using hs_endsI_fail [of target st heap ?st1 ?s' Q x s'] target(1) q by auto
    then show ?thesis by simp
  next
    case False
    then show ?thesis
      using assms(2) run target q by (auto simp: hs_ends_def Let_def split: prod.splits if_splits
          intro!: exI [of _ target])
  qed
qed

lemma hs_session_claims:
  assumes "hs_session ops pton e cfg st s = (x, s')" and "Q None (hs_w s)"
  shows "hs_ends Q st (hs_heap s) (case x of Inl out \<Rightarrow> out | Inr out \<Rightarrow> out) s'"
proof -
  note front = hs_keeps_front [of st cfg pton e]
  from assms(1) [unfolded hs_session_split] show ?thesis
  proof (cases rule: bind_step_cases)
    case (fail r)
    then show ?thesis using hs_endsI_keeps [OF front assms(2)] by simp
  next
    case (cont a s1)
    obtain cmd destIPs prt where a: "a = (cmd, destIPs, prt)" by (cases a)
    have s1: "hs_heap s1 = hs_heap s" "Q None (hs_w s1)" using hs_keepsD(1) [OF front assms(2) cont(1)] by auto
    from cont(2) have "bind_step (hs_command ops e cfg st cmd destIPs prt) (\<lambda>(rep, finalState, bindEP).
       hs_reply ops e cmd rep (IS_Get finalState) (IS_Get bindEP)) s1 = (x, s')"
      by (simp add: a)
    then show ?thesis
    proof (cases rule: bind_step_cases)
      case (fail r)
      then show ?thesis using hs_command_claims [OF _ s1(2), of e cfg st cmd destIPs prt] s1(1) by fastforce
    next
      case (cont b s2)
      obtain rep fs ep where b: "b = (rep, fs, ep)" by (cases b)
      have "hs_goes_on Q st (hs_heap s) (rep, fs, ep) s2"
        using hs_command_claims [OF cont(1) s1(2)] s1(1) b by simp
      then show ?thesis using hs_reply_claims cont(2) b by simp
    qed
  qed
qed

lemma handshake_Execute_tracked:
  assumes "handshake_Execute ops pton e cfg st heap w = (out, s')" and "Q None w"
  shows "hs_ends Q st heap out s'"
proof -
  let ?s = "\<lparr>hs_buf = replicate BUFF_LEN 0, hs_heap = heap, hs_w = w\<rparr>"
  have fail: "hs_ends Q st heap out s'" if "FailWithDisclaim st ?s = (Inl out, s')"
    using hs_endsI_keeps [OF hs_keeps_plain(1) _ that] assms(2) by simp
  have session: "hs_ends Q st heap (case x of Inl out \<Rightarrow> out | Inr out \<Rightarrow> out) s''"
    if "hs_session ops pton e cfg st ?s = (x, s'')" for x s''
    using hs_session_claims [OF that] assms(2) by simp
  show ?thesis
    using assms(1) fail session
    by (auto simp: handshake_Execute_def Let_def FailWithDisclaim_def
        split: if_splits option.splits prod.splits sum.splits)
qed

end

text \<open>In any environment, without keeping track of it.\<close>

interpretation untracked: target_tracking ops "\<lambda>_ _. True" for ops
  by unfold_locales simp_all

lemma handshake_Execute_claims:
  assumes "handshake_Execute ops pton e cfg st heap w = (out, s')"
  shows "hs_ends (\<lambda>_ _. True) st heap out s'"
  using untracked.handshake_Execute_tracked [OF assms TrueI] .

text \<open>The constructor and \<open>Execute\<close> together, on the heap the job is created in.\<close>

lemma job_claims_balance:
  assumes ok: "state_ok heap st" and new: "Job_ClientHandshake st heap = (st1, heap1)"
    and tgt: "with_target target st1 heap1 = (st2, heap2)"
    and dis: "DisclaimAllHandlers st2 heap2 = (st', heap')"
  shows "heap' = heap @ (case target of None \<Rightarrow> [] | Some t \<Rightarrow> [\<lparr>counter = 0, handlerID = t\<rparr>]) \<and>
    handlerClaims st' = handlerClaims st @ (case target of None \<Rightarrow> [] | Some t \<Rightarrow> [length heap]) \<and>
    handlerClaimStates st' = map (claim_snapshot heap') (handlerClaims st')"
proof -
  have st1: "st1 = fst (ClaimAllHandlers st heap)" "heap1 = bump 1 (handlerClaims st) heap"
      "handlerClaims st1 = handlerClaims st" "state_ok heap1 st1"
    using new ok state_ok_ops(1) [OF ok] by (auto simp: Job_ClientHandshake_def ClaimAllHandlers_eq)
  have st2: "state_ok heap2 st2"
    using tgt st1(4) state_ok_ops(4) [OF st1(4)] by (auto simp: with_target_def split: option.splits)
  have st': "heap' = bump (-1) (handlerClaims st2) heap2" "handlerClaims st' = handlerClaims st2"
      "handlerClaimStates st' = map (claim_snapshot heap') (handlerClaims st')"
    using dis st2 by (auto simp: DisclaimAllHandlers_eq)
  show ?thesis
  proof (cases target)
    case None
    then show ?thesis using tgt st' st1 by (auto simp: with_target_simps bump_bump bump_0)
  next
    case (Some t)
    then have 2: "handlerClaims st2 = handlerClaims st @ [length heap]"
        "heap2 = bump 1 (handlerClaims st) heap @ [\<lparr>counter = 1, handlerID = t\<rparr>]"
      using tgt st1 by (auto simp: with_target_simps AddHandlerWithClaim_eq)
    have "heap' = heap @ [\<lparr>counter = 0, handlerID = t\<rparr>]"
      using ok unfolding st'(1) 2
      by (intro nth_equalityI) (auto simp: nth_bump nth_append state_ok_def)
    then show ?thesis using Some 2 st' by simp
  qed
qed

end
