(* ===== verification/Socks_Session.thy ===== *)
theory Socks_Session
  imports Handshake_Claims
begin

text \<open>
  What a SOCKS5 conversation is, independently of the code that conducts it: sessions (RFC 1928 and
  1929), their bytes, which sessions a configuration authorises, and the bytes a server answers.
  A locale states what the handshake relies on in its environment, and inside it the handshake is
  shown to follow the protocol.
\<close>

section \<open>Sessions\<close>

datatype s5_dest = Dest_V4 bytes | Dest_V6 bytes | Dest_Name bytes

record s5_session =
  ss_methods :: bytes
  ss_login :: "(bytes \<times> bytes) option"
  ss_cmd :: byte
  ss_rsv :: byte
  ss_dest :: s5_dest
  ss_port :: u16

definition len_byte :: "bytes \<Rightarrow> byte" where
  "len_byte bs = word_of_nat (length bs)"

fun enc_dest :: "s5_dest \<Rightarrow> bytes" where
  "enc_dest (Dest_V4 bs) = 1 # bs"
| "enc_dest (Dest_V6 bs) = 4 # bs"
| "enc_dest (Dest_Name bs) = 3 # len_byte bs # bs"

fun enc_login :: "(bytes \<times> bytes) option \<Rightarrow> bytes" where
  "enc_login None = []"
| "enc_login (Some (u, p)) = [1, len_byte u] @ u @ [len_byte p] @ p"

definition enc_request :: "byte \<Rightarrow> byte \<Rightarrow> s5_dest \<Rightarrow> u16 \<Rightarrow> bytes" where
  "enc_request cmd rsv dest prt = [5, cmd, rsv] @ enc_dest dest @ be16 prt"

definition enc_session :: "s5_session \<Rightarrow> bytes" where
  "enc_session ss = [5, len_byte (ss_methods ss)] @ ss_methods ss @ enc_login (ss_login ss) @
     enc_request (ss_cmd ss) (ss_rsv ss) (ss_dest ss) (ss_port ss)"

fun dest_ok :: "s5_dest \<Rightarrow> bool" where
  "dest_ok (Dest_V4 bs) \<longleftrightarrow> length bs = 4"
| "dest_ok (Dest_V6 bs) \<longleftrightarrow> length bs = 16"
| "dest_ok (Dest_Name bs) \<longleftrightarrow> length bs < 256"

text \<open>
  The method a server with this configuration picks: the first offered one among no login (only if
  a user with an empty name exists) and login with name and password.
\<close>

definition chosen_method :: "config \<Rightarrow> bytes \<Rightarrow> byte option" where
  "chosen_method cfg ms = find (\<lambda>m. m = 2 \<or> (m = 0 \<and> GetUser cfg '''' \<noteq> None)) ms"

definition login_ok :: "config \<Rightarrow> bytes \<times> bytes \<Rightarrow> bool" where
  "login_ok cfg up \<longleftrightarrow> length (fst up) < 256 \<and> length (snd up) < 256 \<and>
     (case GetUser cfg (bytes_to_string (fst up)) of None \<Rightarrow> False
      | Some u \<Rightarrow> password u = bytes_to_string (snd up))"

definition auth_ok :: "config \<Rightarrow> bytes \<Rightarrow> (bytes \<times> bytes) option \<Rightarrow> bool" where
  "auth_ok cfg ms lg \<longleftrightarrow> length ms < 256 \<and>
     (case lg of None \<Rightarrow> chosen_method cfg ms = Some 0
      | Some up \<Rightarrow> chosen_method cfg ms = Some 2 \<and> login_ok cfg up)"

definition session_ok :: "config \<Rightarrow> s5_session \<Rightarrow> bool" where
  "session_ok cfg ss \<longleftrightarrow> auth_ok cfg (ss_methods ss) (ss_login ss) \<and> dest_ok (ss_dest ss)"

fun login_replies :: "(bytes \<times> bytes) option \<Rightarrow> bytes" where
  "login_replies None = [5, 0]"
| "login_replies (Some up) = [5, 2, 1, 0]"

definition final_reply :: "byte \<Rightarrow> ip_endpoint \<Rightarrow> bytes" where
  "final_reply rep ep = [5, rep, 0, if isV6 (address ep) then 4 else 1] @ wire_endpoint ep"

text \<open>
  The addresses a connection for a destination may go to.  A name that reads as an address stands for
  that address; any other name for the addresses the resolver answers to a query for exactly this
  name, with or without the search domain as configured.  \<open>answers nm nosrch raws\<close> tells that \<open>raws\<close> is
  an answer of the resolver.
\<close>

type_synonym answers = "string \<Rightarrow> bool \<Rightarrow> bytes list \<Rightarrow> bool"

definition name_addr :: "answers \<Rightarrow> bool \<Rightarrow> string \<Rightarrow> ip_address \<Rightarrow> bool" where
  "name_addr answers nosrch nm a \<longleftrightarrow>
     isValid a \<and> (\<exists>raws. answers (c_str nm) nosrch raws \<and> a \<in> IPAddress_raw ` set raws)"

fun dest_addr :: "answers \<Rightarrow> bool \<Rightarrow> pton \<Rightarrow> s5_dest \<Rightarrow> ip_address \<Rightarrow> bool" where
  "dest_addr answers nosrch pton (Dest_V4 bs) a \<longleftrightarrow> a = IPAddress_raw bs"
| "dest_addr answers nosrch pton (Dest_V6 bs) a \<longleftrightarrow> a = IPAddress_raw bs"
| "dest_addr answers nosrch pton (Dest_Name bs) a \<longleftrightarrow>
     (let nm = bytes_to_string bs; lit = IPAddress_str pton nm
      in if isValid lit then a = lit else name_addr answers nosrch nm a)"

section \<open>The environment of the handshake\<close>

definition ready :: "('w \<Rightarrow> bool) \<Rightarrow> 'w hs \<Rightarrow> bool" where
  "ready ok s \<longleftrightarrow> ok (hs_w s) \<and> length (hs_buf s) = BUFF_LEN"

text \<open>From \<open>s\<close> to \<open>s'\<close> the client's bytes \<open>i\<close> were read and \<open>o\<close> written; \<open>d\<close> are connection attempts.\<close>

definition talk :: "('w \<Rightarrow> bool) \<Rightarrow> ('w \<Rightarrow> bytes) \<Rightarrow> ('w \<Rightarrow> bytes) \<Rightarrow> ('w \<Rightarrow> ip_endpoint list) \<Rightarrow>
    'w hs \<Rightarrow> 'w hs \<Rightarrow> bytes \<Rightarrow> bytes \<Rightarrow> ip_endpoint list \<Rightarrow> bool" where
  "talk ok rwire wwire dials s s' i out d \<longleftrightarrow> ready ok s' \<and>
     rwire (hs_w s') = rwire (hs_w s) @ i \<and> wwire (hs_w s') = wwire (hs_w s) @ out \<and>
     dials (hs_w s') = dials (hs_w s) @ d"

lemma talk_trans:
  "talk ok rw ww dl s s1 i out d \<Longrightarrow> talk ok rw ww dl s1 s2 i' out' d' \<Longrightarrow>
     talk ok rw ww dl s s2 (i @ i') (out @ out') (d @ d')"
  by (simp add: talk_def)

lemma talk_refl: "ready ok s \<Longrightarrow> talk ok rw ww dl s s [] [] []"
  by (simp add: talk_def)

lemma talk_ready: "talk ok rw ww dl s s' i out d \<Longrightarrow> ready ok s'"
  by (simp add: talk_def)

lemma len_byte_unat: "length bs = unat n \<Longrightarrow> len_byte bs = n"
  by (simp add: len_byte_def)

lemma singleton_hd: "length xs = Suc 0 \<Longrightarrow> xs = [xs ! 0]"
  by (cases xs) auto

lemma pair_list: "length xs = 2 \<Longrightarrow> xs = [xs ! 0, xs ! 1]"
  by (cases xs; cases "tl xs") auto

lemma fails_no_value [simp]:
  "FailWithDisclaim st s \<noteq> (Inr a, s')" "SendAuthFailWithDisclaim ops st s \<noteq> (Inr a, s')"
  by (auto simp: FailWithDisclaim_def SendAuthFailWithDisclaim_def Let_def split: prod.splits)

lemma select_method_chosen:
  "select_method (anonLoginSupported cfg) ms =
     (case chosen_method cfg ms of None \<Rightarrow> -1 | Some m \<Rightarrow> uint m)"
  by (induction ms) (auto simp: chosen_method_def anonLoginSupported_def)

lemma chosen_method_values: "chosen_method cfg ms = Some m \<Longrightarrow> m = 0 \<or> m = 2"
  by (auto simp: chosen_method_def find_Some_iff)

text \<open>
  What a run from world \<open>w\<close> to \<open>w'\<close> with a given outcome may be: either the client sent an authorised
  session with a connect command, and every connection attempt goes to the destination it asked
  for; if the job then reports a connected client, the client was sent the replies of the protocol.
  Or no connection attempt was made and no connected client is reported.
\<close>

definition hs_sound :: "answers \<Rightarrow> pton \<Rightarrow> config \<Rightarrow> ('w \<Rightarrow> bytes) \<Rightarrow> ('w \<Rightarrow> bytes) \<Rightarrow> ('w \<Rightarrow> ip_endpoint list) \<Rightarrow>
    'w \<Rightarrow> 'w \<Rightarrow> hs_outcome \<Rightarrow> bool" where
  "hs_sound answers pton cfg rwire wwire dials w w' out \<longleftrightarrow>
     (\<exists>ss eps. session_ok cfg ss \<and> ss_cmd ss = 1 \<and> rwire w' = rwire w @ enc_session ss \<and>
        dials w' = dials w @ eps \<and>
        list_all (\<lambda>ep. port ep = ss_port ss \<and> dest_addr answers (\<not> GetUDNSSearchDomainIsSet cfg) pton (ss_dest ss) (address ep)) eps \<and>
        (\<forall>st'. out = HS_Result (JR_CLIENT_MODE_CONNECT st') \<longrightarrow>
           (\<exists>ep. wwire w' = wwire w @ login_replies (ss_login ss) @ final_reply 0 ep))) \<or>
     (dials w' = dials w \<and> (\<forall>st'. out \<noteq> HS_Result (JR_CLIENT_MODE_CONNECT st')))"

lemma FailWithDisclaim_terminal:
  "FailWithDisclaim st s = (x, s') \<Longrightarrow> \<exists>st'. x = Inl (HS_Result (JR_TERMINAL st')) \<and> hs_w s' = hs_w s"
  by (auto simp: FailWithDisclaim_def split: prod.splits)

lemma hs_reply_terminal:
  assumes "hs_reply ops e cmd rep st ep s = (x, s')"
  shows "case x of Inl out \<Rightarrow> (\<forall>st'. out \<noteq> HS_Result (JR_CLIENT_MODE_CONNECT st')) | Inr out \<Rightarrow> True"
  using assms
  by (auto simp: hs_reply_def Let_def split: prod.splits if_splits sum.splits dest!: FailWithDisclaim_terminal)

lemma connect_loop_fails_terminal:
  "connect_loop ops e ct prt ips rep fs ep s = (Inl out, s') \<Longrightarrow>
     out \<noteq> HS_Result (JR_CLIENT_MODE_CONNECT st')"
  by (induction ips arbitrary: rep s)
    (auto simp: Let_def split: if_splits option.splits prod.splits dest!: FailWithDisclaim_terminal)

locale handshake_io =
  rd: icomm_helper "op_read ops" rwire ok + wr: icomm_helper "op_write ops" wwire ok
  for ops :: "'w hs_ops" and rwire wwire :: "'w \<Rightarrow> bytes" and ok :: "'w \<Rightarrow> bool" +
  fixes dials :: "'w \<Rightarrow> ip_endpoint list" and answers :: answers
  assumes read_frame: "op_read ops buf len p w = (r, buf', w') \<Longrightarrow>
      wwire w' = wwire w \<and> dials w' = dials w"
    and write_frame: "op_write ops buf len p w = (r, buf', w') \<Longrightarrow>
      rwire w' = rwire w \<and> dials w' = dials w"
    and write_keeps_buffer: "ok w \<Longrightarrow> len \<le> int (length buf) \<Longrightarrow>
      op_write ops buf len p w = (r, buf', w') \<Longrightarrow> buf' = buf"
    and connect_frame: "ok w \<Longrightarrow> op_connect ops ep tv w = (t, w') \<Longrightarrow>
      ok w' \<and> rwire w' = rwire w \<and> wwire w' = wwire w \<and> dials w' = dials w @ [ep]"
    and dns_new_frame: "op_dns_new ops ctx w = (b, w') \<Longrightarrow>
      ok w' = ok w \<and> rwire w' = rwire w \<and> wwire w' = wwire w \<and> dials w' = dials w"
    and dns_open_frame: "op_dns_open ops w = (b, w') \<Longrightarrow>
      ok w' = ok w \<and> rwire w' = rwire w \<and> wwire w' = wwire w \<and> dials w' = dials w"
    and resolve_frame: "op_resolve_a6 ops nm srch w = (ans, w') \<or> op_resolve_a4 ops nm srch w = (ans, w') \<Longrightarrow>
      ok w' = ok w \<and> rwire w' = rwire w \<and> wwire w' = wwire w \<and> dials w' = dials w"
    and resolve_answers: "op_resolve_a6 ops nm srch w = (Some raws, w') \<or> op_resolve_a4 ops nm srch w = (Some raws, w') \<Longrightarrow>
      answers nm srch raws"
    and getsockname_frame: "op_getsockname ops sock w = (sa, w') \<Longrightarrow>
      ok w' = ok w \<and> rwire w' = rwire w \<and> wwire w' = wwire w \<and> dials w' = dials w"
begin

lemma recv_talk:
  assumes "ready ok s" and "n \<le> BUFF_LEN" and "recv ops st n s = (Inr data, s')"
  shows "length data = n \<and> talk ok rwire wwire dials s s' data [] []"
proof -
  obtain r buf' w' where rd: "op_read ops (hs_buf s) (int n) False (hs_w s) = (r, buf', w')"
    by (metis prod.collapse)
  then have "\<not> r < int n" "data = take n buf'" "s' = s\<lparr>hs_buf := buf', hs_w := w'\<rparr>"
    using assms(3) by (auto simp: recv_def FailWithDisclaim_def Let_def split: if_splits prod.splits)
  then show ?thesis
    using rd.complete_transfer [OF _ _ _ rd] read_frame [OF rd] assms(1,2)
    by (auto simp: talk_def ready_def)
qed

lemma recv1_talk:
  assumes "ready ok s" and "recv ops st 1 s = (Inr data, s')"
  shows "talk ok rwire wwire dials s s' [data ! 0] [] []"
  using recv_talk [OF assms(1) _ assms(2)] singleton_hd [of data] by (auto simp: BUFF_LEN_def)

lemma recv_byte_talk:
  assumes "ready ok s" and "recv ops st (unat (n :: byte)) s = (Inr data, s')"
  shows "talk ok rwire wwire dials s s' data [] [] \<and> len_byte data = n \<and> length data < 256"
  using recv_talk [OF assms(1) _ assms(2)] unat_byte_bound [of n]
  by (simp add: BUFF_LEN_def len_byte_unat less_imp_le_nat)

lemma send_buff_talk:
  assumes "ready ok s" and "length data \<le> BUFF_LEN" and "send_buff ops data s = (Inr r, s')"
    and "\<not> r < int (length data)"
  shows "talk ok rwire wwire dials s s' [] data []"
proof -
  let ?buf = "memcpy_at 0 data (hs_buf s)"
  have len: "length ?buf = BUFF_LEN" using assms(1,2) by (simp add: ready_def buff_simps)
  obtain buf' w' where wr: "op_write ops ?buf (int (length data)) False (hs_w s) = (r, buf', w')"
      and s': "s' = s\<lparr>hs_buf := buf', hs_w := w'\<rparr>"
    using assms(3) by (auto simp: send_buff_def Let_def split: prod.splits)
  have "buf' = ?buf"
    using write_keeps_buffer [OF _ _ wr] assms(1,2) len by (simp add: ready_def)
  then show ?thesis
    using wr.complete_transfer [OF _ _ _ wr] write_frame [OF wr] assms len s'
    by (auto simp: talk_def ready_def take_memcpy_at_0)
qed


lemma greeting_talk:
  assumes "ready ok s" and "hs_greeting ops st s = (Inr ms, s')"
  shows "talk ok rwire wwire dials s s' ([5, len_byte ms] @ ms) [] [] \<and> length ms < 256"
proof -
  obtain ver s1 n s2 where run: "recv ops st 1 s = (Inr ver, s1)" "ver ! 0 = 5"
      "recv ops st 1 s1 = (Inr n, s2)" "recv ops st (unat (n ! 0)) s2 = (Inr ms, s')"
    using assms(2) by (auto simp: hs_greeting_def bind_step_Inr_iff split: if_splits)
  note t1 = recv1_talk [OF assms(1) run(1)]
  note t2 = recv1_talk [OF talk_ready [OF t1] run(3)]
  note t3 = recv_byte_talk [OF talk_ready [OF t2] run(4)]
  show ?thesis using talk_trans [OF talk_trans [OF t1 t2]] t3 run(2) by fastforce
qed

lemma method_talk:
  assumes "ready ok s" and "hs_method ops cfg st ms s = (Inr sel, s')"
  shows "\<exists>m. chosen_method cfg ms = Some m \<and> sel = uint m \<and>
    talk ok rwire wwire dials s s' [] [5, m] []"
proof -
  obtain m where m: "chosen_method cfg ms = Some m"
    using assms(2)
    by (auto simp: hs_method_def select_method_chosen bind_step_Inr_iff Let_def case_prod_beta
        split: if_splits option.splits)
  then have "bind_step (send_buff ops [5, m]) (\<lambda>r. if r \<noteq> 2 then FailWithDisclaim st
      else ret_step (uint m)) s = (Inr sel, s')"
    using assms(2) by (simp add: hs_method_def select_method_chosen)
  then obtain s1 where "send_buff ops [5, m] s = (Inr 2, s1)" "sel = uint m" "s' = s1"
    by (auto simp: bind_step_Inr_iff split: if_splits)
  then show ?thesis
    using send_buff_talk [OF assms(1), of "[5, m]" 2 s'] m by (simp add: BUFF_LEN_def)
qed

lemma auth_talk:
  assumes "ready ok s" and "hs_auth ops cfg st (uint (m :: byte)) s = (Inr u, s')"
  shows "\<exists>lg. talk ok rwire wwire dials s s' (enc_login lg) (drop 2 (login_replies lg)) [] \<and>
    (case lg of None \<Rightarrow> m \<noteq> 2 | Some up \<Rightarrow> m = 2 \<and> login_ok cfg up)"
proof (cases "m = 2")
  case False
  then have "uint m \<noteq> 2"
    by (simp add: word_uint_eq_iff)
  then show ?thesis
    using assms False talk_refl [OF assms(1)]
    by (intro exI [of _ None]) (auto simp: hs_auth_def)
next
  case True
  then have sel: "uint m = 2" by simp
  obtain ver s1 ul s2 name s3 pl s4 pass s5 usr r where run:
      "recv ops st 1 s = (Inr ver, s1)" "ver ! 0 = 1"
      "recv ops st 1 s1 = (Inr ul, s2)" "recv ops st (unat (ul ! 0)) s2 = (Inr name, s3)"
      "recv ops st 1 s3 = (Inr pl, s4)" "recv ops st (unat (pl ! 0)) s4 = (Inr pass, s5)"
      "GetUser cfg (bytes_to_string name) = Some usr" "password usr = bytes_to_string pass"
      "send_buff ops [1, 0] s5 = (Inr r, s')" "r = 2"
    using assms(2) unfolding hs_auth_def sel
    by (auto simp: bind_step_Inr_iff split: if_splits option.splits)
  note t1 = recv1_talk [OF assms(1) run(1)]
  note t2 = talk_trans [OF t1 recv1_talk [OF talk_ready [OF t1] run(3)]]
  note n = recv_byte_talk [OF talk_ready [OF t2] run(4)]
  note t3 = talk_trans [OF t2 conjunct1 [OF n]]
  note t4 = talk_trans [OF t3 recv1_talk [OF talk_ready [OF t3] run(5)]]
  note p = recv_byte_talk [OF talk_ready [OF t4] run(6)]
  note t5 = talk_trans [OF t4 conjunct1 [OF p]]
  have "talk ok rwire wwire dials s5 s' [] [1, 0] []"
    using send_buff_talk [OF talk_ready [OF t5] _ run(9)] run(10) by (simp add: BUFF_LEN_def)
  from talk_trans [OF t5 this] show ?thesis
    using run(2,7,8) n p True
    by (intro exI [of _ "Some (name, pass)"]) (simp add: login_ok_def)
qed

lemma valid_addrs_one: "a \<in> set (valid_addrs [raw]) \<Longrightarrow> a = IPAddress_raw raw"
  by (auto simp: valid_addrs_def split: if_splits)

lemma resolve_talk:
  assumes "ready ok s" and "hs_resolve ops cfg st nm s = (Inr ips, s')"
  shows "talk ok rwire wwire dials s s' [] [] [] \<and>
    (\<forall>a \<in> set ips. name_addr answers (\<not> GetUDNSSearchDomainIsSet cfg) nm a)"
proof -
  obtain w1 w2 ans6 w3 ans4 w4 where run:
      "op_dns_new ops (GetBaseUDNSContext cfg) (hs_w s) = (True, w1)" "op_dns_open ops w1 = (True, w2)"
      "op_resolve_a6 ops (c_str nm) (\<not> GetUDNSSearchDomainIsSet cfg) w2 = (ans6, w3)"
      "op_resolve_a4 ops (c_str nm) (\<not> GetUDNSSearchDomainIsSet cfg) w3 = (ans4, w4)"
      "s' = s\<lparr>hs_w := w4\<rparr>"
      "ips = (case ans6 of None \<Rightarrow> [] | Some raws \<Rightarrow> valid_addrs raws) @
        (case ans4 of None \<Rightarrow> [] | Some raws \<Rightarrow> valid_addrs raws)"
    using assms(2) by (auto simp: hs_resolve_def Let_def split: prod.splits if_splits)
  have "\<forall>a \<in> set ips. name_addr answers (\<not> GetUDNSSearchDomainIsSet cfg) nm a"
    using run(3,4,6) resolve_answers by (fastforce simp: valid_addrs_def name_addr_def split: option.splits)
  moreover have "talk ok rwire wwire dials s s' [] [] []"
    using dns_new_frame [OF run(1)] dns_open_frame [OF run(2)] resolve_frame [OF disjI1 [OF run(3)]]
      resolve_frame [OF disjI2 [OF run(4)]] assms(1) run(5)
    by (simp add: talk_def ready_def)
  ultimately show ?thesis by simp
qed

lemma dest_talk:
  assumes "ready ok s" and "hs_dest ops pton cfg st atyp s = (Inr ips, s')"
  shows "\<exists>dest. dest_ok dest \<and> enc_dest dest = atyp # tl (enc_dest dest) \<and>
    talk ok rwire wwire dials s s' (tl (enc_dest dest)) [] [] \<and> (\<forall>a \<in> set ips. dest_addr answers (\<not> GetUDNSSearchDomainIsSet cfg) pton dest a)"
proof -
  consider "atyp = 1" | "atyp = 4" | "atyp = 3"
    using assms(2) by (auto simp: hs_dest_def split: if_splits)
  then show ?thesis
  proof cases
    case 1
    then obtain raw where raw: "recv ops st IPV4_ADDR_LEN s = (Inr raw, s')" "ips = valid_addrs [raw]"
      using assms(2) by (auto simp: hs_dest_def bind_step_Inr_iff)
    then show ?thesis
      using recv_talk [OF assms(1) _ raw(1)] 1
      by (intro exI [of _ "Dest_V4 raw"]) (auto simp: BUFF_LEN_def IPV4_ADDR_LEN_def dest: valid_addrs_one)
  next
    case 2
    then obtain raw where raw: "recv ops st IPV6_ADDR_LEN s = (Inr raw, s')" "ips = valid_addrs [raw]"
      using assms(2) by (auto simp: hs_dest_def bind_step_Inr_iff)
    then show ?thesis
      using recv_talk [OF assms(1) _ raw(1)] 2
      by (intro exI [of _ "Dest_V6 raw"]) (auto simp: BUFF_LEN_def IPV6_ADDR_LEN_def dest: valid_addrs_one)
  next
    case 3
    then obtain n s1 nm s2 where run: "recv ops st 1 s = (Inr n, s1)" "recv ops st (unat (n ! 0)) s1 = (Inr nm, s2)"
        "(if isValid (IPAddress_str pton (bytes_to_string nm)) then ret_step [IPAddress_str pton (bytes_to_string nm)]
          else hs_resolve ops cfg st (bytes_to_string nm)) s2 = (Inr ips, s')"
      using assms(2) by (auto simp: hs_dest_def bind_step_Inr_iff Let_def)
    note t1 = recv1_talk [OF assms(1) run(1)]
    note b = recv_byte_talk [OF talk_ready [OF t1] run(2)]
    note t2 = talk_trans [OF t1 conjunct1 [OF b]]
    have t3: "talk ok rwire wwire dials s2 s' [] [] [] \<and> (\<forall>a \<in> set ips. dest_addr answers (\<not> GetUDNSSearchDomainIsSet cfg) pton (Dest_Name nm) a)"
      using run(3) resolve_talk [OF talk_ready [OF t2]] talk_refl [OF talk_ready [OF t2]]
      by (auto simp: Let_def split: if_splits)
    show ?thesis
      using talk_trans [OF t2 conjunct1 [OF t3]] t3 b 3
      by (intro exI [of _ "Dest_Name nm"]) (simp add: Let_def)
  qed
qed

lemma request_talk:
  assumes "ready ok s" and "hs_request ops pton e cfg st s = (Inr (cmd, ips, prt), s')"
  shows "\<exists>rsv dest. dest_ok dest \<and> talk ok rwire wwire dials s s' (enc_request cmd rsv dest prt) [] [] \<and>
    (\<forall>a \<in> set ips. dest_addr answers (\<not> GetUDNSSearchDomainIsSet cfg) pton dest a)"
proof -
  obtain ver s1 c s2 at s3 s4 np where run:
      "recv ops st 1 s = (Inr ver, s1)" "ver ! 0 = 5" "recv ops st 2 s1 = (Inr c, s2)"
      "recv ops st 1 s2 = (Inr at, s3)" "hs_dest ops pton cfg st (at ! 0) s3 = (Inr ips, s4)"
      "recv ops st 2 s4 = (Inr np, s')" "cmd = c ! 0" "prt = of_be16 (np ! 0) (np ! 1)"
    using assms(2) by (auto simp: hs_request_def bind_step_Inr_iff split: if_splits)
  note t1 = recv1_talk [OF assms(1) run(1)]
  have c: "length c = 2 \<and> talk ok rwire wwire dials s1 s2 c [] []"
    using recv_talk [OF talk_ready [OF t1] _ run(3)] by (simp add: BUFF_LEN_def)
  note t2 = talk_trans [OF t1 conjunct2 [OF c]]
  note t3 = talk_trans [OF t2 recv1_talk [OF talk_ready [OF t2] run(4)]]
  obtain dest where dest: "dest_ok dest" "enc_dest dest = at ! 0 # tl (enc_dest dest)"
      "talk ok rwire wwire dials s3 s4 (tl (enc_dest dest)) [] []" "\<forall>a \<in> set ips. dest_addr answers (\<not> GetUDNSSearchDomainIsSet cfg) pton dest a"
    using dest_talk [OF talk_ready [OF t3] run(5)] by blast
  note t4 = talk_trans [OF t3 dest(3)]
  have np: "length np = 2 \<and> talk ok rwire wwire dials s4 s' np [] []"
    using recv_talk [OF talk_ready [OF t4] _ run(6)] by (simp add: BUFF_LEN_def)
  have "enc_request cmd (c ! 1) dest prt = [ver ! 0] @ c @ [at ! 0] @ tl (enc_dest dest) @ np"
    using run(2,7,8) pair_list [of c] pair_list [of np] c np dest(2)
    by (simp add: enc_request_def)
  then have "talk ok rwire wwire dials s s' (enc_request cmd (c ! 1) dest prt) [] []"
    using talk_trans [OF t4 conjunct2 [OF np]] by simp
  with dest(1,4) show ?thesis by blast
qed

lemma connect_loop_talk:
  assumes "ready ok s" and "connect_loop ops e ct prt ips rep fs ep s = (x, s')"
  shows "\<exists>k. talk ok rwire wwire dials s s' [] [] (map (\<lambda>a. IPEndpoint a prt) (take k ips))"
  using assms
proof (induction ips arbitrary: rep s)
  case Nil
  then show ?case using talk_refl by (auto intro!: exI [of _ 0])
next
  case (Cons a ips)
  obtain t w1 where con: "op_connect ops (IPEndpoint a prt) ct (hs_w s) = (t, w1)" by fastforce
  let ?s1 = "s\<lparr>hs_w := w1\<rparr>"
  have t1: "talk ok rwire wwire dials s ?s1 [] [] [IPEndpoint a prt]"
    using connect_frame [OF _ con] Cons.prems(1) by (simp add: talk_def ready_def)
  show ?case
  proof (cases "HANDLER_ERROR < t")
    case True
    then have "connect_loop ops e ct prt ips (rep_after_error t rep) fs ep ?s1 = (x, s')"
      using Cons.prems(2) con by simp
    from Cons.IH [OF talk_ready [OF t1] this] obtain k where
      "talk ok rwire wwire dials ?s1 s' [] [] (map (\<lambda>a. IPEndpoint a prt) (take k ips))" by blast
    from talk_trans [OF t1 this] show ?thesis by (intro exI [of _ "Suc k"]) simp
  next
    case False
    have "ready ok s' \<and> rwire (hs_w s') = rwire w1 \<and> wwire (hs_w s') = wwire w1 \<and> dials (hs_w s') = dials w1"
      using Cons.prems(2) con False talk_ready [OF t1] getsockname_frame
      by (auto simp: FailWithDisclaim_def ready_def Let_def split: option.splits prod.splits if_splits)
    then show ?thesis using t1 by (intro exI [of _ 1]) (simp add: talk_def)
  qed
qed

text \<open>The part of the conversation before the command is carried out.\<close>

lemma front_talk:
  assumes "ready ok s"
    and "bind_step (hs_greeting ops st) (\<lambda>methods.
     bind_step (hs_method ops cfg st methods) (\<lambda>selected.
     bind_step (hs_auth ops cfg st selected) (\<lambda>_. hs_request ops pton e cfg st))) s =
       (Inr (cmd, ips, prt), s')"
  shows "\<exists>ss. session_ok cfg ss \<and> ss_cmd ss = cmd \<and> ss_port ss = prt \<and>
    (\<forall>a \<in> set ips. dest_addr answers (\<not> GetUDNSSearchDomainIsSet cfg) pton (ss_dest ss) a) \<and>
    talk ok rwire wwire dials s s' (enc_session ss) (login_replies (ss_login ss)) []"
proof -
  obtain ms s1 sel s2 u s3 where run: "hs_greeting ops st s = (Inr ms, s1)"
      "hs_method ops cfg st ms s1 = (Inr sel, s2)" "hs_auth ops cfg st sel s2 = (Inr u, s3)"
      "hs_request ops pton e cfg st s3 = (Inr (cmd, ips, prt), s')"
    using assms(2) by (auto simp: bind_step_Inr_iff)
  note g = greeting_talk [OF assms(1) run(1)]
  obtain m where m: "chosen_method cfg ms = Some m" "sel = uint m"
      "talk ok rwire wwire dials s1 s2 [] [5, m] []"
    using method_talk [OF talk_ready [OF conjunct1 [OF g]] run(2)] by blast
  obtain lg where lg: "talk ok rwire wwire dials s2 s3 (enc_login lg) (drop 2 (login_replies lg)) []"
      "case lg of None \<Rightarrow> m \<noteq> 2 | Some up \<Rightarrow> m = 2 \<and> login_ok cfg up"
    using auth_talk [OF talk_ready [OF m(3)] run(3) [unfolded m(2)]] by blast
  obtain rsv dest where rq: "dest_ok dest"
      "talk ok rwire wwire dials s3 s' (enc_request cmd rsv dest prt) [] []"
      "\<forall>a \<in> set ips. dest_addr answers (\<not> GetUDNSSearchDomainIsSet cfg) pton dest a"
    using request_talk [OF talk_ready [OF lg(1)] run(4)] by blast
  let ?ss = "\<lparr>ss_methods = ms, ss_login = lg, ss_cmd = cmd, ss_rsv = rsv, ss_dest = dest, ss_port = prt\<rparr>"
  have "[5, m] @ drop 2 (login_replies lg) = login_replies lg"
    using lg(2) chosen_method_values [OF m(1)] by (cases lg) auto
  then have "talk ok rwire wwire dials s s' (enc_session ?ss) (login_replies lg) []"
    using talk_trans [OF talk_trans [OF talk_trans [OF conjunct1 [OF g] m(3)] lg(1)] rq(2)]
    by (simp add: enc_session_def)
  moreover have "session_ok cfg ?ss"
    using g lg(2) m(1) chosen_method_values [OF m(1)] rq(1)
    by (auto simp: session_ok_def auth_ok_def split: option.splits)
  ultimately show ?thesis using rq(3) by (intro exI [of _ ?ss]) simp
qed

lemma reply_talk:
  assumes "ready ok s" and "hs_reply ops e cmd rep st ep s = (x, s')"
  shows "dials (hs_w s') = dials (hs_w s) \<and> rwire (hs_w s') = rwire (hs_w s) \<and>
    (\<forall>out. x = Inr out \<longrightarrow> cmd = 1 \<and> rep = 0 \<and> talk ok rwire wwire dials s s' [] (final_reply rep ep) [])"
proof -
  let ?hdr = "[5, rep, 0, if isV6 (address ep) then 4 else 1] :: bytes"
  define buf where "buf = memcpy_at 0 ?hdr (hs_buf s)"
  define out where "out = final_reply rep ep"
  have len: "length buf = BUFF_LEN" "length (wire_endpoint ep) \<le> 18" "length out \<le> BUFF_LEN"
    using assms(1) by (auto simp: buf_def ready_def buff_simps BUFF_LEN_def out_def final_reply_def)
  have raw: "IPEndpoint_ToRawBuff e ep 4 buf = (memcpy_at 4 (wire_endpoint ep) buf, length (wire_endpoint ep))"
    using len by (simp add: IPEndpoint_ToRawBuff_eq BUFF_LEN_def)
  obtain r buf3 w' where wr: "op_write ops (memcpy_at 4 (wire_endpoint ep) buf) (int (length out)) False (hs_w s) =
      (r, buf3, w')"
    by (metis prod.collapse)
  let ?s' = "s\<lparr>hs_buf := buf3, hs_w := w'\<rparr>"
  have run: "hs_reply ops e cmd rep st ep s = (if r < int (length out) then FailWithDisclaim st ?s'
       else if cmd = 1 \<and> rep = 0
       then (let (st', heap') = DisclaimAllHandlers st (hs_heap s)
             in (Inr (HS_Result (JR_CLIENT_MODE_CONNECT st')), ?s'\<lparr>hs_heap := heap'\<rparr>))
       else FailWithDisclaim st ?s')"
    using wr unfolding hs_reply_def Let_def buf_def [symmetric] raw prod.case out_def final_reply_def
    by (simp add: add.commute)
  have copy: "memcpy_at 4 (wire_endpoint ep) buf = memcpy_at 0 out (hs_buf s)"
    using memcpy_at_adjacent [of 0 ?hdr "wire_endpoint ep" "hs_buf s"] assms(1) len(3)
    by (simp add: buf_def out_def final_reply_def ready_def eval_nat_numeral)
  have "length (memcpy_at 0 out (hs_buf s)) = BUFF_LEN"
    using assms(1) len(3) by (simp add: ready_def length_memcpy_at)
  moreover note wr [unfolded copy]
  moreover have "buf3 = memcpy_at 0 out (hs_buf s)"
    using write_keeps_buffer [OF _ _ wr [unfolded copy]] assms(1) len(3) calculation(1) by (simp add: ready_def)
  ultimately have "talk ok rwire wwire dials s ?s' [] out []" if "\<not> r < int (length out)"
    using wr.complete_transfer [OF _ _ _ wr [unfolded copy]] write_frame [OF wr] assms(1) len(3) that
    by (auto simp: talk_def ready_def take_memcpy_at_0)
  then show ?thesis
    using run assms write_frame [OF wr]
    by (auto simp: FailWithDisclaim_def out_def talk_def ready_def Let_def split: if_splits prod.splits)
qed

text \<open>No step before the command makes a connection attempt.\<close>

lemma quiet_basic:
  "step_keeps (\<lambda>s. dials (hs_w s) = d) (FailWithDisclaim st)"
  "step_keeps (\<lambda>s. dials (hs_w s) = d) (recv ops st n)"
  "step_keeps (\<lambda>s. dials (hs_w s) = d) (send_buff ops data)"
  "step_keeps (\<lambda>s. dials (hs_w s) = d) (SendAuthFailWithDisclaim ops st)"
  "step_keeps (\<lambda>s. dials (hs_w s) = d) (\<lambda>s. case op_read ops (hs_buf s) m True (hs_w s) of
     (r, buf', w') \<Rightarrow> FailWithDisclaim st (s\<lparr>hs_buf := buf', hs_w := w'\<rparr>))"
  using read_frame write_frame
  by (auto simp: step_keeps_def FailWithDisclaim_def recv_def send_buff_def SendAuthFailWithDisclaim_def
      Let_def split: prod.splits)

lemma quiet_resolve: "step_keeps (\<lambda>s. dials (hs_w s) = d) (hs_resolve ops cfg st nm)"
  using dns_new_frame dns_open_frame resolve_frame
  by (auto simp: step_keeps_def hs_resolve_def FailWithDisclaim_def Let_def split: prod.splits) metis+

lemmas quiet_intros = quiet_basic quiet_resolve step_keeps_bind step_keeps_ret

lemma quiet_front:
  "step_keeps (\<lambda>s. dials (hs_w s) = d) (bind_step (hs_greeting ops st) (\<lambda>methods.
     bind_step (hs_method ops cfg st methods) (\<lambda>selected.
     bind_step (hs_auth ops cfg st selected) (\<lambda>_. hs_request ops pton e cfg st))))"
  unfolding hs_greeting_def hs_method_def hs_auth_def hs_request_def hs_dest_def
  by (auto intro!: quiet_intros simp: Let_def split: option.splits)

lemma command_sound:
  assumes ss: "session_ok cfg ss" "ss_cmd ss = cmd" "ss_port ss = prt"
      "\<forall>a \<in> set ips. dest_addr answers (\<not> GetUDNSSearchDomainIsSet cfg) pton (ss_dest ss) a"
      "talk ok rwire wwire dials s s1 (enc_session ss) (login_replies (ss_login ss)) []"
    and run: "bind_step (hs_command ops e cfg st cmd ips prt) (\<lambda>(rep, finalState, bindEP).
       hs_reply ops e cmd rep (IS_Get finalState) (IS_Get bindEP)) s1 = (x, s')"
  shows "hs_sound answers pton cfg rwire wwire dials (hs_w s) (hs_w s') (case x of Inl out \<Rightarrow> out | Inr out \<Rightarrow> out)"
proof (cases "cmd = 1")
  case False
  then have "hs_reply ops e cmd 7 st IPEndpoint_default s1 = (x, s')"
    using run by (simp add: hs_command_def bind_step_def)
  from reply_talk [OF talk_ready [OF ss(5)] this] hs_reply_terminal [OF this] show ?thesis
    using ss(5) False by (auto simp: hs_sound_def talk_def split: sum.splits)
next
  case True
  let ?ct = "connect_timeout cfg (length ips)"
  have "bind_step (connect_loop ops e ?ct prt ips 1 (IS_new st) (IS_new IPEndpoint_default))
      (\<lambda>(rep, fs, ep). hs_reply ops e 1 rep (IS_Get fs) (IS_Get ep)) s1 = (x, s')"
    using run True by (simp add: hs_command_def)
  then show ?thesis
  proof (cases rule: bind_step_cases)
    case (fail r)
    obtain k where "talk ok rwire wwire dials s1 s' [] [] (map (\<lambda>a. IPEndpoint a prt) (take k ips))"
      using connect_loop_talk [OF talk_ready [OF ss(5)] fail(1)] by blast
    from talk_trans [OF ss(5) this] show ?thesis
      using ss(1-4) True fail connect_loop_fails_terminal [OF fail(1)] unfolding hs_sound_def
      by (intro disjI1 exI [of _ ss] exI [of _ "map (\<lambda>a. IPEndpoint a prt) (take k ips)"])
        (auto simp: talk_def list_all_iff dest: in_set_takeD)
  next
    case (cont b s2)
    obtain rep fs ep where b: "b = (rep, fs, ep)" by (cases b)
    obtain k where "talk ok rwire wwire dials s1 s2 [] [] (map (\<lambda>a. IPEndpoint a prt) (take k ips))"
      using connect_loop_talk [OF talk_ready [OF ss(5)] cont(1)] by blast
    note t = talk_trans [OF ss(5) this]
    have rp: "hs_reply ops e 1 rep (IS_Get fs) (IS_Get ep) s2 = (x, s')" using cont(2) b by simp
    note r = reply_talk [OF talk_ready [OF t] rp] hs_reply_terminal [OF rp]
    show ?thesis
      using ss(1-4) True t r unfolding hs_sound_def
      by (intro disjI1 exI [of _ ss] exI [of _ "map (\<lambda>a. IPEndpoint a prt) (take k ips)"])
        (auto simp: talk_def list_all_iff dest: in_set_takeD split: sum.splits)
  qed
qed

lemma session_sound:
  assumes ready: "ready ok s" and run: "hs_session ops pton e cfg st s = (x, s')"
  shows "hs_sound answers pton cfg rwire wwire dials (hs_w s) (hs_w s') (case x of Inl out \<Rightarrow> out | Inr out \<Rightarrow> out)"
proof -
  let ?front = "bind_step (hs_greeting ops st) (\<lambda>methods.
     bind_step (hs_method ops cfg st methods) (\<lambda>selected.
     bind_step (hs_auth ops cfg st selected) (\<lambda>_. hs_request ops pton e cfg st)))"
  have "bind_step ?front (\<lambda>(cmd, destIPs, prt).
     bind_step (hs_command ops e cfg st cmd destIPs prt) (\<lambda>(rep, finalState, bindEP).
     hs_reply ops e cmd rep (IS_Get finalState) (IS_Get bindEP))) s = (x, s')"
    using run hs_session_split by metis
  then show ?thesis
  proof (cases rule: bind_step_cases)
    case (fail r)
    have "\<exists>st'. r = HS_Result (JR_TERMINAL st')"
      using hs_keepsD(2) [OF untracked.hs_keeps_front TrueI fail(1)] by blast
    moreover have "dials (hs_w s') = dials (hs_w s)"
      using quiet_front [of "dials (hs_w s)" st cfg pton e] fail by (auto simp: step_keeps_def dest!: spec [of _ s])
    ultimately show ?thesis using fail by (auto simp: hs_sound_def)
  next
    case (cont a s1)
    obtain cmd ips prt where a: "a = (cmd, ips, prt)" by (cases a)
    obtain ss where ss: "session_ok cfg ss" "ss_cmd ss = cmd" "ss_port ss = prt"
        "\<forall>a \<in> set ips. dest_addr answers (\<not> GetUDNSSearchDomainIsSet cfg) pton (ss_dest ss) a"
        "talk ok rwire wwire dials s s1 (enc_session ss) (login_replies (ss_login ss)) []"
      using front_talk [OF ready cont(1) [unfolded a]] by blast
    from cont(2) have "bind_step (hs_command ops e cfg st cmd ips prt) (\<lambda>(rep, finalState, bindEP).
       hs_reply ops e cmd rep (IS_Get finalState) (IS_Get bindEP)) s1 = (x, s')"
      by (simp add: a)
    then show ?thesis
      using command_sound [OF ss] by blast
  qed
qed

text \<open>The whole job, started in a world where the client's connection is usable.\<close>

lemma Execute_sound:
  assumes "ok w" and "handshake_Execute ops pton e cfg st heap w = (out, s')"
  shows "hs_sound answers pton cfg rwire wwire dials w (hs_w s') out"
proof -
  let ?s = "\<lparr>hs_buf = replicate BUFF_LEN 0, hs_heap = heap, hs_w = w\<rparr>"
  have ready: "ready ok ?s" using assms(1) by (simp add: ready_def)
  consider "FailWithDisclaim st ?s = (Inl out :: hs_outcome + hs_outcome, s')"
    | x where "hs_session ops pton e cfg st ?s = (x, s')" "out = (case x of Inl out \<Rightarrow> out | Inr out \<Rightarrow> out)"
    using assms(2)
    by (auto simp: handshake_Execute_def Let_def FailWithDisclaim_def
        split: if_splits option.splits prod.splits sum.splits)
  then show ?thesis
  proof cases
    case 1
    then show ?thesis using FailWithDisclaim_terminal [OF 1] by (auto simp: hs_sound_def)
  next
    case (2 x)
    then show ?thesis using session_sound [OF ready 2(1)] by simp
  qed
qed

end

end
