(* ===== verification/Handshake_Net.thy ===== *)
theory Handshake_Net
  imports Socks_Session
begin

text \<open>
  The handshake on the program's own communication service: the client's reader and writer are the
  TCP helpers of its handler in the service, targets are connected by \<open>ConnectAndCreateHandler\<close>.
  The resolver library, the kernel and \<open>getsockname\<close> are parameters.
\<close>

section \<open>The world of a handshake job\<close>

record resolver =
  lib_new :: "dns_ctx \<Rightarrow> nat \<Rightarrow> bool"
  lib_open :: "nat \<Rightarrow> bool"
  lib_a6 :: "string \<Rightarrow> bool \<Rightarrow> nat \<Rightarrow> bytes list option"
  lib_a4 :: "string \<Rightarrow> bool \<Rightarrow> nat \<Rightarrow> bytes list option"
  lib_sockname :: "int \<Rightarrow> nat \<Rightarrow> bytes option"

text \<open>
  The service, the client's identifier, the environment of each coming transfer on the client's
  reader and writer, the bytes read and written so far, the connection attempts, and the number of
  library calls made (a library may answer differently each time).
\<close>

record net =
  n_svc :: service
  n_client :: u64
  n_rscript :: "xstep list list"
  n_wscript :: "xstep list list"
  n_rwire :: bytes
  n_wwire :: bytes
  n_dials :: "ip_endpoint list"
  n_time :: nat

definition set_handler :: "u64 \<Rightarrow> comm_handler \<Rightarrow> service \<Rightarrow> service" where
  "set_handler hid h s = s\<lparr>commHandlers := AList.update hid h (commHandlers s)\<rparr>"

text \<open>The channel of theory \<open>Jobs\<close> formed by one helper of the client, and the transfer on it.\<close>

definition reader_chan :: "comm_handler \<Rightarrow> net \<Rightarrow> chan" where
  "reader_chan h w = \<lparr>ch_h = reader h, ch_script = n_rscript w, ch_wire = n_rwire w, ch_calls = []\<rparr>"

definition writer_chan :: "comm_handler \<Rightarrow> net \<Rightarrow> chan" where
  "writer_chan h w = \<lparr>ch_h = writer h, ch_script = n_wscript w, ch_wire = n_wwire w, ch_calls = []\<rparr>"

definition net_read :: "net transfer" where
  "net_read buf len p w =
     (case GetHandler (n_client w) (n_svc w) of
        None \<Rightarrow> (-1, buf, w)
      | Some h \<Rightarrow>
          let (r, buf', c) = chan_transfer buf len p (reader_chan h w)
          in (r, buf', w\<lparr>n_svc := set_handler (n_client w) (h\<lparr>reader := ch_h c\<rparr>) (n_svc w),
                n_rscript := ch_script c, n_rwire := ch_wire c\<rparr>))"

definition net_write :: "net transfer" where
  "net_write buf len p w =
     (case GetHandler (n_client w) (n_svc w) of
        None \<Rightarrow> (-1, buf, w)
      | Some h \<Rightarrow>
          let (r, buf', c) = chan_transfer buf len p (writer_chan h w)
          in (r, buf', w\<lparr>n_svc := set_handler (n_client w) (h\<lparr>writer := ch_h c\<rparr>) (n_svc w),
                n_wscript := ch_script c, n_wwire := ch_wire c\<rparr>))"

definition net_connect :: "kernel \<Rightarrow> endian \<Rightarrow> config \<Rightarrow> ip_endpoint \<Rightarrow> timeval \<Rightarrow> net \<Rightarrow> u64 \<times> net" where
  "net_connect k e cfg ep tv w =
     (let (t, svc) = ConnectAndCreateHandler k e cfg ep tv (n_svc w)
      in (t, w\<lparr>n_svc := svc, n_dials := n_dials w @ [ep]\<rparr>))"

definition net_handler :: "u64 \<Rightarrow> net \<Rightarrow> int option" where
  "net_handler hid w =
     (let h = GetHandler hid (n_svc w) in if handler_IsValid h then map_option h_fd h else None)"

definition net_lib :: "(nat \<Rightarrow> 'a) \<Rightarrow> net \<Rightarrow> 'a \<times> net" where
  "net_lib f w = (f (n_time w), w\<lparr>n_time := Suc (n_time w)\<rparr>)"

definition net_ops :: "kernel \<Rightarrow> endian \<Rightarrow> config \<Rightarrow> resolver \<Rightarrow> net hs_ops" where
  "net_ops k e cfg lib =
     \<lparr>op_read = net_read, op_write = net_write, op_connect = net_connect k e cfg,
      op_handler = net_handler,
      op_dns_new = (\<lambda>ctx. net_lib (lib_new lib ctx)), op_dns_open = net_lib (lib_open lib),
      op_resolve_a6 = (\<lambda>nm srch. net_lib (lib_a6 lib nm srch)),
      op_resolve_a4 = (\<lambda>nm srch. net_lib (lib_a4 lib nm srch)),
      op_getsockname = (\<lambda>sock. net_lib (lib_sockname lib sock))\<rparr>"

definition net_ok :: "net \<Rightarrow> bool" where
  "net_ok w \<longleftrightarrow> (case GetHandler (n_client w) (n_svc w) of None \<Rightarrow> False | Some h \<Rightarrow> handler_ok h)"

section \<open>The service keeps the client's handler\<close>

lemma CreateHandlerFromSocket_keeps:
  assumes "CreateHandlerFromSocket k cfg sock s = (hid, s')" and "GetHandler j s = Some h"
  shows "GetHandler j s' = Some h"
proof (cases "map_of (commHandlers s) (handlerIdCounter s + 1)")
  case None
  then show ?thesis
    using CreateHandlerFromSocket_view [OF assms(1) None] assms(2)
    by (auto simp: svc_view_def GetHandler_def)
next
  case (Some h')
  define s1 where "s1 = SetSocketNonBlocking k sock (SetSocketDefaultTimeouts k cfg sock
                 (TuneSocketBaseParams k cfg sock s))"
  have "svc_view s1 = svc_view s" by (simp add: s1_def view_simps)
  then have s1: "handlerIdCounter s1 = handlerIdCounter s" "commHandlers s1 = commHandlers s"
    by (simp_all add: svc_view_def)
  have "commHandlers s' = commHandlers s"
    using assms(1) Some unfolding CreateHandlerFromSocket_def s1_def [symmetric] Let_def s1
    by (auto simp: s1 sys_def HandleError_def Let_def split: prod.splits if_splits)
  then show ?thesis using assms(2) by (simp add: GetHandler_def)
qed

lemma ConnectAndCreateHandler_keeps:
  assumes "ConnectAndCreateHandler k e cfg target tv s = (hid, s')" and "GetHandler j s = Some h"
  shows "GetHandler j s' = Some h"
proof -
  obtain sock err s1 where so: "sys k (SysSocket (isV6 (address target))) s = ((sock, err), s1)"
    by (metis prod.collapse)
  define s2 where "s2 = SetSocketCustomTimeouts k sock tv (TuneSocketBaseParams k cfg sock s1)"
  obtain cr error s3 where co: "sys k (SysConnect sock (target_sa e target)) s2 = ((cr, error), s3)"
    by (metis prod.collapse)
  obtain r cerr s4 where cl: "sys k (SysClose sock) s3 = ((r, cerr), s4)"
    by (metis prod.collapse)
  have "svc_view s2 = svc_view s1" by (simp add: s2_def view_simps)
  then have same: "commHandlers s1 = commHandlers s" "commHandlers s3 = commHandlers s"
      "commHandlers s4 = commHandlers s"
    using sys_opened [OF so] sys_opened [OF co] sys_opened [OF cl] by (simp_all add: svc_view_def)
  consider "commHandlers s' = commHandlers s" | "CreateHandlerFromSocket k cfg sock s3 = (hid, s')"
    using assms(1) so co cl same
    by (auto simp: ConnectAndCreateHandler_def s2_def HandleError_def split: if_splits)
  then show ?thesis
    using CreateHandlerFromSocket_keeps [of k cfg sock s3 hid s' j h] assms(2) same
    by cases (auto simp: GetHandler_def)
qed

lemma GetHandler_set_handler:
  "GetHandler j (set_handler hid h s) = (if j = hid then Some h else GetHandler j s)"
  by (simp add: GetHandler_def set_handler_def update_conv)

lemma service_ok_handler: "service_ok n s \<Longrightarrow> GetHandler i s = Some h \<Longrightarrow> handler_ok h"
  by (fastforce simp: service_ok_def GetHandler_def dest: map_of_SomeD)

lemma service_ok_set_handler:
  assumes "service_ok n s" and "GetHandler i s = Some h0" and "handler_ok h"
  shows "service_ok n (set_handler i h s)"
proof -
  obtain us vs where split: "commHandlers s = us @ (i, h0) # vs"
      "AList.update i h (commHandlers s) = us @ (i, h) # vs"
    using AList_update_split [of "commHandlers s" i h0] assms(2) unfolding GetHandler_def by metis
  then show ?thesis
    using assms(1,3) by (auto simp: service_ok_def set_handler_def)
qed

section \<open>The handshake's environment, provided\<close>

lemma net_readE:
  assumes "net_ok w" and "net_read buf len p w = (r, buf', w')"
  obtains h c where "helper_ok (ch_h (reader_chan h w))" and "chan_transfer buf len p (reader_chan h w) = (r, buf', c)"
    and "n_rwire w' = ch_wire c" and "net_ok w'" and "n_rwire w = ch_wire (reader_chan h w)"
proof -
  obtain h where h: "GetHandler (n_client w) (n_svc w) = Some h" "handler_ok h"
    using assms(1) by (auto simp: net_ok_def split: option.splits)
  obtain c where c: "chan_transfer buf len p (reader_chan h w) = (r, buf', c)"
      "w' = w\<lparr>n_svc := set_handler (n_client w) (h\<lparr>reader := ch_h c\<rparr>) (n_svc w),
                n_rscript := ch_script c, n_rwire := ch_wire c\<rparr>"
    using assms(2) h(1) by (auto simp: net_read_def Let_def split: prod.splits)
  have ok: "helper_ok (ch_h (reader_chan h w))" using h(2) by (simp add: reader_chan_def handler_ok_def)
  then have "net_ok w'"
    using chan_transfer_helper [OF c(1) ok] h c(2)
    by (simp add: net_ok_def GetHandler_set_handler handler_ok_def reader_chan_def)
  then show ?thesis using that [OF ok c(1)] c(2) by (simp add: reader_chan_def)
qed

lemma net_writeE:
  assumes "net_ok w" and "net_write buf len p w = (r, buf', w')"
  obtains h c where "helper_ok (ch_h (writer_chan h w))" and "chan_transfer buf len p (writer_chan h w) = (r, buf', c)"
    and "n_wwire w' = ch_wire c" and "net_ok w'" and "n_wwire w = ch_wire (writer_chan h w)"
    and "\<not> isReader (ch_h (writer_chan h w))"
proof -
  obtain h where h: "GetHandler (n_client w) (n_svc w) = Some h" "handler_ok h"
    using assms(1) by (auto simp: net_ok_def split: option.splits)
  obtain c where c: "chan_transfer buf len p (writer_chan h w) = (r, buf', c)"
      "w' = w\<lparr>n_svc := set_handler (n_client w) (h\<lparr>writer := ch_h c\<rparr>) (n_svc w),
                n_wscript := ch_script c, n_wwire := ch_wire c\<rparr>"
    using assms(2) h(1) by (auto simp: net_write_def Let_def split: prod.splits)
  have ok: "helper_ok (ch_h (writer_chan h w))" "\<not> isReader (ch_h (writer_chan h w))"
    using h(2) by (simp_all add: writer_chan_def handler_ok_def)
  then have "net_ok w'"
    using chan_transfer_helper [OF c(1) ok(1)] h c(2)
    by (simp add: net_ok_def GetHandler_set_handler handler_ok_def writer_chan_def)
  then show ?thesis using that [OF ok(1) c(1)] ok(2) c(2) by (simp add: writer_chan_def)
qed

lemma net_ops_sel [simp]:
  "op_read (net_ops k e cfg lib) = net_read" "op_write (net_ops k e cfg lib) = net_write"
  "op_connect (net_ops k e cfg lib) = net_connect k e cfg" "op_handler (net_ops k e cfg lib) = net_handler"
  by (simp_all add: net_ops_def)

text \<open>What the resolver library answers to a name, at any of its calls.\<close>

definition lib_answers :: "resolver \<Rightarrow> answers" where
  "lib_answers lib nm nosrch raws \<longleftrightarrow> (\<exists>n. lib_a6 lib nm nosrch n = Some raws \<or> lib_a4 lib nm nosrch n = Some raws)"

interpretation net: handshake_io "net_ops k e cfg lib" n_rwire n_wwire net_ok n_dials "lib_answers lib"
  for k e cfg lib
proof (intro handshake_io.intro handshake_io_axioms.intro, goal_cases)
  case 1
  show ?case unfolding net_ops_sel by (rule icomm_helper_via_chan) (metis net_readE)
next
  case 2
  show ?case unfolding net_ops_sel by (rule icomm_helper_via_chan) (metis net_writeE)
next
  case (3 buf len p w r buf' w')
  then show ?case by (auto simp: net_read_def Let_def split: option.splits prod.splits)
next
  case (4 buf len p w r buf' w')
  then show ?case by (auto simp: net_write_def Let_def split: option.splits prod.splits)
next
  case (5 w len buf p r buf' w')
  then show ?case unfolding net_ops_sel by (metis net_writeE chan_write_keeps_buffer)
next
  case (6 w ep tv t w')
  then show ?case
    using ConnectAndCreateHandler_keeps [of k e cfg ep tv "n_svc w"]
    by (auto simp: net_connect_def net_ok_def split: option.splits prod.splits)
next
  case (7 ctx w b w')
  then show ?case by (auto simp: net_ops_def net_lib_def net_ok_def)
next
  case (8 w b w')
  then show ?case by (auto simp: net_ops_def net_lib_def net_ok_def)
next
  case (9 nm srch w ans w')
  then show ?case by (auto simp: net_ops_def net_lib_def net_ok_def)
next
  case (10 nm srch w raws w')
  then show ?case by (auto simp: net_ops_def net_lib_def lib_answers_def)
next
  case (11 sock w sa w')
  then show ?case by (auto simp: net_ops_def net_lib_def net_ok_def)
qed

end
