(* ===== verification/Transfer_Live.thy ===== *)
theory Transfer_Live
  imports Jobs
begin

text \<open>
  When \<open>Transfer\<close> succeeds: if the bytes arrive, or the socket takes them, in any number of pieces
  and no wait of the loop times out, a transfer without partial results moves all it was asked to
  move and leaves the helper ready for the next one.
\<close>

section \<open>Transfers that end in time\<close>

text \<open>
  The notifications a turn of the transfer loop sees before it tries the socket.  A turn that finds
  its counters equal waits; it must be woken by a notification, not by the end of the wait.
\<close>

fun woken :: "(notify list \<times> bool) list \<Rightarrow> notify list option" where
  "woken [] = None"
| "woken ((ns, timeout) # ws) = (if timeout then None else if ns = [] then woken ws else Some ns)"

definition heard :: "bool \<Rightarrow> xstep \<Rightarrow> notify list option" where
  "heard awake s = (if awake \<or> arrivals s \<noteq> [] then Some (arrivals s) else woken (waits s))"

text \<open>
  The turns in which a reader receives exactly the bytes \<open>bs\<close>, in pieces of any size, or in which the
  socket takes all of \<open>bs\<close> from a writer: until they are moved the kernel only notifies of data, each
  turn is awake, and a turn that moves less than the rest ends with \<open>EAGAIN\<close>.
\<close>

definition movable :: "bool \<Rightarrow> xstep \<Rightarrow> nat" where
  "movable rd s = (if rd then length (io_data s) else io_room s)"

fun moves :: "bool \<Rightarrow> bool \<Rightarrow> xstep list \<Rightarrow> bytes \<Rightarrow> bool" where
  "moves rd awake [] bs \<longleftrightarrow> bs = []"
| "moves rd awake (s # ss) bs \<longleftrightarrow> bs = [] \<or>
     (let n = movable rd s in
      (case heard awake s of None \<Rightarrow> False | Some ns \<Rightarrow> set ns \<subseteq> {DataAvail}) \<and>
      (rd \<longrightarrow> take (length bs) (io_data s) = take n bs) \<and>
      (length bs \<le> n \<or> io_errno s = EAGAIN \<and> moves rd False ss (drop n bs)))"

definition step_news :: "xstep \<Rightarrow> nat" where
  "step_news s = length (arrivals s) + sum_list (map (\<lambda>w. length (fst w)) (waits s))"

definition news :: "xstep list \<Rightarrow> nat" where
  "news ss = sum_list (map step_news ss)"

text \<open>A helper that will try the socket at its next transfer, with \<open>n\<close> notifications to come.\<close>

definition lively :: "nat \<Rightarrow> helper \<Rightarrow> bool" where
  "lively n h \<longleftrightarrow> status h = 0 \<and> intCnt h < extCnt h \<and> unat (extCnt h) + n < unat N_HUP"

lemma deliver_data:
  assumes "set ns \<subseteq> {DataAvail}" and "unat (extCnt h) + length ns < unat N_HUP"
  shows "unat (extCnt (deliver_all ns h)) = unat (extCnt h) + length ns"
  using assms
proof (induction ns arbitrary: h)
  case (Cons n ns)
  have "n = DataAvail" "extCnt h < N_HUP" using Cons.prems by (auto simp: word_less_nat_alt)
  then have "unat (extCnt (deliver n h)) = Suc (unat (extCnt h))"
    by (simp add: NotifyDataAvail_def unat_word_ariths N_HUP_def word_less_nat_alt)
  then show ?case using Cons by (simp add: deliver_all_def)
qed (simp add: deliver_all_def)

lemma woken_ne: "woken ws = Some ns \<Longrightarrow> ns \<noteq> []"
  by (induction ws rule: woken.induct) (auto split: if_splits)

lemma woken_short: "woken ws = Some ns \<Longrightarrow> length ns \<le> sum_list (map (\<lambda>w. length (fst w)) ws)"
  by (induction ws rule: woken.induct) (auto split: if_splits)

lemma woken_loop:
  assumes "woken ws = Some ns" and "intCnt h = extCnt h" and "set ns \<subseteq> {DataAvail}"
    and "unat (extCnt h) + length ns < unat N_HUP"
  shows "wait_loop ws h = (True, deliver_all ns h)"
  using assms
proof (induction ws rule: woken.induct)
  case (2 ns' timeout ws)
  have go: "wait_loop ws' (deliver_all ns h) = (True, deliver_all ns h)" if "ns \<noteq> []" for ws'
  proof -
    have "intCnt h < extCnt (deliver_all ns h)"
      using deliver_data [OF "2.prems"(3,4)] "2.prems"(2) that by (simp add: word_less_nat_alt)
    then show ?thesis by (cases ws') auto
  qed
  show ?case
    using 2 go by (cases "ns' = []") (auto simp: deliver_all_def split: if_splits)
qed simp

lemma heard_turn:
  assumes "heard awake s = Some ns" and "set ns \<subseteq> {DataAvail}" and "intCnt h \<le> extCnt h"
    and "awake \<longleftrightarrow> intCnt h < extCnt h" and "unat (extCnt h) + step_news s + n < unat N_HUP" and "status h = 0"
  shows "\<exists>h'. wait_loop (waits s) (deliver_all (arrivals s) h) = (True, h') \<and> lively n h' \<and>
    isReader h' = isReader h \<and> extCnt h' < N_HUP \<and> unat (extCnt h') \<le> unat (extCnt h) + step_news s"
proof (cases "awake \<or> arrivals s \<noteq> []")
  case True
  then have "ns = arrivals s" using assms(1) by (simp add: heard_def)
  moreover have "unat (extCnt (deliver_all ns h)) = unat (extCnt h) + length ns"
    using assms(2,5) calculation by (intro deliver_data) (auto simp: step_news_def)
  moreover have "intCnt h < extCnt (deliver_all ns h)"
    using True assms(3,4) calculation by (cases ns) (auto simp: word_less_nat_alt word_le_nat_alt)
  moreover have "wait_loop (waits s) (deliver_all ns h) = (True, deliver_all ns h)"
    using calculation(3) by (cases "waits s") auto
  ultimately show ?thesis
    using assms(5,6) by (auto simp: lively_def step_news_def word_less_nat_alt)
next
  case False
  then have ns: "woken (waits s) = Some ns" "arrivals s = []" "intCnt h = extCnt h" "ns \<noteq> []"
    using assms(1,3,4) by (auto simp: heard_def dest: woken_ne)
  from woken_loop [OF ns(1,3) assms(2)] assms(5) woken_short [OF ns(1)]
  have w: "wait_loop (waits s) h = (True, deliver_all ns h)" by (simp add: step_news_def)
  have w': "wait_loop (waits s) (deliver_all (arrivals s) h) = (True, deliver_all ns h)"
    using w ns(2) by (simp add: deliver_all_def)
  have "unat (extCnt (deliver_all ns h)) = unat (extCnt h) + length ns"
    using assms(2,5) woken_short [OF ns(1)] by (intro deliver_data) (auto simp: step_news_def)
  moreover have "intCnt h < extCnt (deliver_all ns h)"
    using ns(3,4) calculation by (cases ns) (auto simp: word_less_nat_alt)
  ultimately show ?thesis
    using w' assms(5,6) woken_short [OF ns(1)]
    by (intro exI [of _ "deliver_all ns h"]) (auto simp: lively_def step_news_def word_less_nat_alt)
qed

text \<open>The bytes \<open>bs\<close> are the rest of a transfer; a turn moves the first \<open>movable\<close> of them.\<close>

lemma io_move_rest:
  assumes "isReader h \<longrightarrow> take (length bs) (io_data s) = take (movable True s) bs"
    and "\<not> isReader h \<longrightarrow> take (length bs) (drop off (x_buf x)) = bs"
    and "x_left x = int (length bs)" and "int off = len - x_left x" and "bs \<noteq> []"
  shows "io_move s len h x = x\<lparr>x_h := h,
      x_buf := (if isReader h then memcpy_at off (take (movable (isReader h) s) bs) (x_buf x) else x_buf x),
      x_left := int (length bs - movable (isReader h) s),
      x_wire := x_wire x @ take (movable (isReader h) s) bs\<rparr>"
proof -
  let ?n = "movable (isReader h) s" and ?t = "io_result s (isReader h) (x_left x)"
  have off: "nat (len - x_left x) = off" using assms(4) by simp
  have t: "nat ?t = min (length bs) ?n" "?t > 0 \<Longrightarrow> ?t = int (min (length bs) ?n)" "?t > 0 \<longleftrightarrow> ?n > 0"
    using assms(3,5) by (auto simp: io_result_def movable_def Let_def min_def split: if_splits)
  have data: "take (min (length bs) ?n) (io_data s) = take ?n bs" if "isReader h"
  proof -
    have "take (min (length bs) ?n) (io_data s) = take ?n (take (length bs) (io_data s))" by (simp add: min.commute)
    also have "\<dots> = take ?n bs" using assms(1) that by simp
    finally show ?thesis .
  qed
  have out: "take (min (length bs) ?n) (drop off (x_buf x)) = take ?n bs" if "\<not> isReader h"
  proof -
    have "take (min (length bs) ?n) (drop off (x_buf x)) = take ?n (take (length bs) (drop off (x_buf x)))"
      by (simp add: min.commute)
    also have "\<dots> = take ?n bs" using assms(2) that by simp
    finally show ?thesis .
  qed
  have left: "(if ?t > 0 then x_left x - ?t else x_left x) = int (length bs - ?n)"
  proof (cases "?t > 0")
    case True
    then show ?thesis using t(2) assms(3) by (simp add: min_def)
  next
    case False
    then show ?thesis using t(3) assms(3) by simp
  qed
  show ?thesis
    unfolding io_move_def Let_def off t(1) left using data out by simp
qed

lemma moves_turn:
  assumes "moves (isReader (x_h x)) awake (s # ss) bs" and "bs \<noteq> []"
    and "status (x_h x) = 0" and "intCnt (x_h x) \<le> extCnt (x_h x)"
    and "awake \<longleftrightarrow> intCnt (x_h x) < extCnt (x_h x)"
    and "unat (extCnt (x_h x)) + step_news s + n < unat N_HUP"
    and "x_left x = int (length bs)" and "int off = len - x_left x"
    and "\<not> isReader (x_h x) \<longrightarrow> take (length bs) (drop off (x_buf x)) = bs"
  shows "\<exists>h. lively n h \<and> isReader h = isReader (x_h x) \<and> unat (extCnt h) \<le> unat (extCnt (x_h x)) + step_news s \<and>
    transfer_iter s len False x =
      (let x' = x\<lparr>x_h := h, x_buf := (if isReader h then memcpy_at off (take (movable (isReader h) s) bs) (x_buf x) else x_buf x),
             x_left := int (length bs - movable (isReader h) s),
             x_wire := x_wire x @ take (movable (isReader h) s) bs\<rparr>
       in if length bs \<le> movable (isReader h) s then (Some len, x')
          else (None, x'\<lparr>x_h := h\<lparr>intCnt := extCnt h\<rparr>\<rparr>))"
proof -
  obtain ns where ns: "heard awake s = Some ns" "set ns \<subseteq> {DataAvail}"
    using assms(1,2) by (auto simp: Let_def split: option.splits)
  obtain h where h: "wait_loop (waits s) (deliver_all (arrivals s) (x_h x)) = (True, h)" "lively n h"
      "isReader h = isReader (x_h x)" "extCnt h < N_HUP" "unat (extCnt h) \<le> unat (extCnt (x_h x)) + step_news s"
    using heard_turn [OF ns assms(4,5,6,3)] by blast
  have "isReader h \<longrightarrow> take (length bs) (io_data s) = take (movable True s) bs"
    using assms(1,2) h(3) by (auto simp: Let_def)
  note mv = io_move_rest [OF this assms(9) [folded h(3)] assms(7,8,2)]
  have err: "\<not> length bs \<le> movable (isReader h) s \<Longrightarrow> io_errno s = EAGAIN"
    using assms(1,2) h(3) by (auto simp: Let_def)
  have "extCnt h \<noteq> N_CANCEL" "status h = 0" using h(2,4) by (auto simp: lively_def)
  then show ?thesis
    using h err mv by (intro exI [of _ h]) (auto simp: transfer_iter_def settle_def Let_def)
qed

lemma news_Cons [simp]: "news (s # ss) = step_news s + news ss"
  by (simp add: news_def)

lemma moves_loop:
  assumes "moves (isReader (x_h x)) awake ss bs" and "bs \<noteq> []"
    and "status (x_h x) = 0" and "intCnt (x_h x) \<le> extCnt (x_h x)"
    and "awake \<longleftrightarrow> intCnt (x_h x) < extCnt (x_h x)"
    and "unat (extCnt (x_h x)) + news ss + n < unat N_HUP"
    and "x_left x = int (length bs)" and "int off = len - x_left x" and "off + length bs \<le> length (x_buf x)"
    and "\<not> isReader (x_h x) \<longrightarrow> take (length bs) (drop off (x_buf x)) = bs"
  shows "\<exists>x'. transfer_loop ss len False x = (len, x') \<and> lively n (x_h x') \<and>
    isReader (x_h x') = isReader (x_h x) \<and> x_wire x' = x_wire x @ bs \<and>
    x_buf x' = (if isReader (x_h x) then memcpy_at off bs (x_buf x) else x_buf x)"
  using assms
proof (induction ss arbitrary: x awake bs off)
  case (Cons s ss)
  let ?rd = "isReader (x_h x)" and ?n = "movable (isReader (x_h x)) s"
  have room: "unat (extCnt (x_h x)) + step_news s + (news ss + n) < unat N_HUP" using Cons.prems(6) by simp
  obtain h where h: "lively (news ss + n) h" "isReader h = ?rd"
      "transfer_iter s len False x =
        (let x' = x\<lparr>x_h := h, x_buf := (if ?rd then memcpy_at off (take ?n bs) (x_buf x) else x_buf x),
               x_left := int (length bs - ?n), x_wire := x_wire x @ take ?n bs\<rparr>
         in if length bs \<le> ?n then (Some len, x')
            else (None, x'\<lparr>x_h := h\<lparr>intCnt := extCnt h\<rparr>\<rparr>))"
    using moves_turn [OF Cons.prems(1-5) room Cons.prems(7,8,10)] by auto
  show ?case
  proof (cases "length bs \<le> ?n")
    case True
    have "lively n h" using h(1) by (auto simp: lively_def)
    then show ?thesis using h(2,3) True by (auto simp: Let_def)
  next
    case False
    define x1 where "x1 = x\<lparr>x_h := h\<lparr>intCnt := extCnt h\<rparr>,
      x_buf := (if ?rd then memcpy_at off (take ?n bs) (x_buf x) else x_buf x),
      x_left := int (length bs - ?n), x_wire := x_wire x @ take ?n bs\<rparr>"
    have it: "transfer_iter s len False x = (None, x1)" using h(3) False by (simp add: Let_def x1_def)
    have rd: "isReader (x_h x1) = ?rd" by (simp add: x1_def h(2))
    have "moves (isReader (x_h x1)) False ss (drop ?n bs)"
      using Cons.prems(1,2) False by (simp add: rd Let_def)
    moreover have "\<not> isReader (x_h x1) \<longrightarrow> take (length (drop ?n bs)) (drop (off + ?n) (x_buf x1)) = drop ?n bs"
    proof
      assume "\<not> isReader (x_h x1)"
      then have "\<not> ?rd" using rd by simp
      then have "take (length bs) (drop off (x_buf x)) = bs" using Cons.prems(10) by simp
      then have "drop ?n (take (length bs) (drop off (x_buf x))) = drop ?n bs" by simp
      then show "take (length (drop ?n bs)) (drop (off + ?n) (x_buf x1)) = drop ?n bs"
        using \<open>\<not> ?rd\<close> by (simp add: x1_def drop_take add.commute)
    qed
    moreover have "length (x_buf x1) = length (x_buf x)"
      using Cons.prems(9) False by (simp add: x1_def length_memcpy_at)
    ultimately obtain x' where x': "transfer_loop ss len False x1 = (len, x')" "lively n (x_h x')"
        "isReader (x_h x') = isReader (x_h x1)" "x_wire x' = x_wire x1 @ drop ?n bs"
        "x_buf x' = (if isReader (x_h x1) then memcpy_at (off + ?n) (drop ?n bs) (x_buf x1) else x_buf x1)"
      using Cons.IH [of x1 False "drop ?n bs" "off + ?n"] False Cons.prems(7-9) h(1)
      by (auto simp: x1_def lively_def)
    have "x_buf x' = (if ?rd then memcpy_at off bs (x_buf x) else x_buf x)"
    proof (cases ?rd)
      case True
      then have "x_buf x1 = memcpy_at off (take ?n bs) (x_buf x)" by (simp add: x1_def)
      then show ?thesis
        using x'(5) rd True False Cons.prems(9) memcpy_at_adjacent [of off "take ?n bs" "drop ?n bs" "x_buf x"]
        by simp
    next
      case False
      then show ?thesis using x'(5) rd by (simp add: x1_def)
    qed
    moreover have "x_wire x' = x_wire x @ bs" using x'(4) by (simp add: x1_def)
    ultimately show ?thesis using x'(1-3) it rd by simp
  qed
qed simp

lemma moves_Transfer:
  assumes "moves (isReader h) True ss bs" and "lively (news ss + n) h" and "length bs \<le> length buf"
    and "\<not> isReader h \<longrightarrow> take (length bs) buf = bs"
  shows "\<exists>x. Transfer ss buf (int (length bs)) False h = (int (length bs), x) \<and> lively n (x_h x) \<and>
    isReader (x_h x) = isReader h \<and> x_wire x = bs \<and>
    x_buf x = (if isReader h then memcpy_at 0 bs buf else buf)"
proof (cases "bs = []")
  case True
  then show ?thesis using assms(2) by (auto simp: Transfer_def lively_def memcpy_at_def)
next
  case False
  let ?x = "\<lparr>x_h = h, x_buf = buf, x_left = int (length bs), x_wire = [], x_calls = []\<rparr>"
  have "\<exists>x'. transfer_loop ss (int (length bs)) False ?x = (int (length bs), x') \<and> lively n (x_h x') \<and>
    isReader (x_h x') = isReader (x_h ?x) \<and> x_wire x' = x_wire ?x @ bs \<and>
    x_buf x' = (if isReader (x_h ?x) then memcpy_at 0 bs (x_buf ?x) else x_buf ?x)"
    using assms False by (intro moves_loop [of _ True]) (auto simp: lively_def)
  moreover have "Transfer ss buf (int (length bs)) False h = transfer_loop ss (int (length bs)) False ?x"
    using assms(2) False by (simp add: Transfer_def lively_def Let_def Suc_le_eq)
  ultimately show ?thesis by (cases "isReader h") simp_all
qed

text \<open>Only the number of the bytes matters to a writer, and a socket that takes many takes few.\<close>

lemma moves_fewer:
  "moves False awake ss bs \<Longrightarrow> length bs' \<le> length bs \<Longrightarrow> moves False awake ss bs'"
proof (induction ss arbitrary: awake bs bs')
  case (Cons s ss)
  show ?case
  proof (cases "bs' = []")
    case False
    then have "bs \<noteq> []" using Cons.prems(2) by auto
    then show ?thesis
      using Cons.prems Cons.IH [of False "drop (movable False s) bs" "drop (movable False s) bs'"]
      by (auto simp: Let_def)
  qed simp
qed auto

end
