(* ===== verification/Handshake_Live.thy ===== *)
theory Handshake_Live
  imports Handshake_Net Transfer_Live
begin

text \<open>
  The handshake succeeds: if the bytes of an authorised session arrive, in pieces of any size, before
  a wait times out, the replies can be written, the destination has an address and the kernel accepts
  the connection, the job reports a connected client.  The theory follows a run of \<open>Execute\<close> phase
  by phase; each lemma gives the result of a phase and what it read, wrote and left of the scripts.
\<close>

section \<open>A client that is served in time\<close>

text \<open>
  Both helpers of the client will try the socket at their next transfer; the notifications that are
  still to come do not bring a counter to the values reserved for hang-up and cancellation.
\<close>

definition live_client :: "net \<Rightarrow> bool" where
  "live_client w \<longleftrightarrow> (case GetHandler (n_client w) (n_svc w) of None \<Rightarrow> False
     | Some h \<Rightarrow> handler_ok h \<and> lively (news (concat (n_rscript w))) (reader h) \<and>
         lively (news (concat (n_wscript w))) (writer h))"

lemma live_client_time [simp]: "live_client (w\<lparr>n_time := t\<rparr>) = live_client w"
  by (simp add: live_client_def cong: option.case_cong)

lemma lively_new: "n < unat N_HUP - 1 \<Longrightarrow> lively n (TCPCommHelper sock rd)"
  by (simp add: lively_def TCPCommHelper_def N_HUP_def)

lemma news_append [simp]: "news (xs @ ys) = news xs + news ys"
  by (simp add: news_def)

text \<open>The service still holds well-formed handlers, with the same room for new ones.\<close>

definition svc_kept :: "net \<Rightarrow> net \<Rightarrow> bool" where
  "svc_kept w w' \<longleftrightarrow> (\<forall>m. service_ok m (n_svc w) \<longrightarrow> service_ok m (n_svc w'))"

lemma net_read_live:
  assumes "live_client w" and "n_rscript w = ss # rs" and "moves True True ss bs" and "length bs \<le> length buf"
  shows "\<exists>w'. net_read buf (int (length bs)) False w = (int (length bs), memcpy_at 0 bs buf, w') \<and>
    live_client w' \<and> n_rscript w' = rs \<and> n_wscript w' = n_wscript w \<and> n_rwire w' = n_rwire w @ bs \<and>
    n_wwire w' = n_wwire w \<and> n_dials w' = n_dials w \<and> n_time w' = n_time w \<and> svc_kept w w'"
proof -
  obtain h where h: "GetHandler (n_client w) (n_svc w) = Some h" "handler_ok h"
      "lively (news ss + news (concat rs)) (reader h)" "lively (news (concat (n_wscript w))) (writer h)"
    using assms(1,2) by (auto simp: live_client_def split: option.splits)
  obtain x where x: "Transfer ss buf (int (length bs)) False (reader h) = (int (length bs), x)"
      "lively (news (concat rs)) (x_h x)" "isReader (x_h x)" "x_buf x = memcpy_at 0 bs buf" "x_wire x = bs"
    using moves_Transfer [of "reader h" ss bs _ buf, OF _ h(3) assms(4)] h(2) assms(3)
    by (auto simp: handler_ok_def)
  have ok: "handler_ok (h\<lparr>reader := x_h x\<rparr>)"
    using Transfer_helper_ok [OF _ x(1)] h(2) by (simp add: handler_ok_def)
  show ?thesis
    using x assms(2) h ok service_ok_set_handler [OF _ h(1) ok]
    by (simp add: net_read_def chan_transfer_def reader_chan_def live_client_def GetHandler_set_handler
        svc_kept_def)
qed

lemma net_write_live:
  assumes "live_client w" and "n_wscript w = ss # ws" and "moves False True ss (take n buf)"
    and "n \<le> length buf"
  shows "\<exists>w'. net_write buf (int n) False w = (int n, buf, w') \<and>
    live_client w' \<and> n_wscript w' = ws \<and> n_rscript w' = n_rscript w \<and> n_wwire w' = n_wwire w @ take n buf \<and>
    n_rwire w' = n_rwire w \<and> n_dials w' = n_dials w \<and> n_time w' = n_time w \<and> svc_kept w w'"
proof -
  have len: "length (take n buf) = n" using assms(4) by simp
  obtain h where h: "GetHandler (n_client w) (n_svc w) = Some h" "handler_ok h"
      "lively (news ss + news (concat ws)) (writer h)" "lively (news (concat (n_rscript w))) (reader h)"
    using assms(1,2) by (auto simp: live_client_def split: option.splits)
  obtain x where x: "Transfer ss buf (int n) False (writer h) = (int n, x)"
      "lively (news (concat ws)) (x_h x)" "\<not> isReader (x_h x)" "x_buf x = buf" "x_wire x = take n buf"
    using moves_Transfer [of "writer h" ss "take n buf" _ buf, OF _ h(3)] h(2) assms(3) len
    by (auto simp: handler_ok_def)
  have ok: "handler_ok (h\<lparr>writer := x_h x\<rparr>)"
    using Transfer_helper_ok [OF _ x(1)] h(2) by (simp add: handler_ok_def)
  show ?thesis
    using x assms(2) h ok service_ok_set_handler [OF _ h(1) ok]
    by (simp add: net_write_def chan_transfer_def writer_chan_def live_client_def GetHandler_set_handler
        svc_kept_def)
qed

section \<open>Steps of the handshake\<close>

text \<open>The scripts of the coming transfers bring the chunks \<open>cs\<close>, and take \<open>n\<close> replies of any length.\<close>

fun supplies :: "xstep list list \<Rightarrow> bytes list \<Rightarrow> bool" where
  "supplies rs [] \<longleftrightarrow> True"
| "supplies [] (bs # cs) \<longleftrightarrow> False"
| "supplies (ss # rs) (bs # cs) \<longleftrightarrow> moves True True ss bs \<and> supplies rs cs"

definition MAX_REPLY :: nat where "MAX_REPLY = 22"

fun accepts :: "xstep list list \<Rightarrow> nat \<Rightarrow> bool" where
  "accepts ws 0 \<longleftrightarrow> True"
| "accepts [] (Suc n) \<longleftrightarrow> False"
| "accepts (ss # ws) (Suc n) \<longleftrightarrow> moves False True ss (replicate MAX_REPLY 0) \<and> accepts ws n"

definition lives :: "bytes list \<Rightarrow> nat \<Rightarrow> net hs \<Rightarrow> bool" where
  "lives cs n s \<longleftrightarrow> live_client (hs_w s) \<and> length (hs_buf s) = BUFF_LEN \<and>
     supplies (n_rscript (hs_w s)) cs \<and> accepts (n_wscript (hs_w s)) n"

text \<open>From \<open>s\<close> to \<open>s'\<close> the bytes \<open>i\<close> were read and \<open>out\<close> written, and the library was called \<open>d\<close> times.\<close>

definition advance :: "nat \<Rightarrow> net hs \<Rightarrow> net hs \<Rightarrow> bytes \<Rightarrow> bytes \<Rightarrow> bool" where
  "advance d s s' i out \<longleftrightarrow> n_rwire (hs_w s') = n_rwire (hs_w s) @ i \<and>
     n_wwire (hs_w s') = n_wwire (hs_w s) @ out \<and> n_dials (hs_w s') = n_dials (hs_w s) \<and>
     n_time (hs_w s') = n_time (hs_w s) + d \<and> svc_kept (hs_w s) (hs_w s')"

lemma advance_refl: "advance 0 s s [] []"
  by (simp add: advance_def svc_kept_def)

lemma advance_trans:
  "advance d s s1 i out \<Longrightarrow> advance d' s1 s2 i' out' \<Longrightarrow> advance (d + d') s s2 (i @ i') (out @ out')"
  by (simp add: advance_def svc_kept_def)

lemma recv_live:
  assumes "lives (bs # cs) n s" and "length bs \<le> BUFF_LEN" and "m = length bs"
  shows "\<exists>s'. recv (net_ops k e cfg lib) st m s = (Inr bs, s') \<and> lives cs n s' \<and> advance 0 s s' bs []"
proof -
  obtain ss rs where ss: "n_rscript (hs_w s) = ss # rs" "moves True True ss bs" "supplies rs cs"
    using assms(1) by (cases "n_rscript (hs_w s)") (auto simp: lives_def)
  obtain w' where "net_read (hs_buf s) (int (length bs)) False (hs_w s) =
      (int (length bs), memcpy_at 0 bs (hs_buf s), w')" "live_client w'" "n_rscript w' = rs"
      "n_wscript w' = n_wscript (hs_w s)" "n_rwire w' = n_rwire (hs_w s) @ bs" "n_wwire w' = n_wwire (hs_w s)"
      "n_dials w' = n_dials (hs_w s)" "n_time w' = n_time (hs_w s)" "svc_kept (hs_w s) w'"
    using net_read_live [OF _ ss(1,2), of "hs_buf s"] assms by (auto simp: lives_def)
  then show ?thesis
    using assms ss(3) by (simp add: recv_def lives_def advance_def take_memcpy_at_0 length_memcpy_at)
qed

lemma write_live:
  assumes "lives cs (Suc n) s" and "length bs \<le> MAX_REPLY"
  shows "\<exists>w'. net_write (memcpy_at 0 bs (hs_buf s)) (int (length bs)) False (hs_w s) =
      (int (length bs), memcpy_at 0 bs (hs_buf s), w') \<and>
    (let s' = s\<lparr>hs_buf := memcpy_at 0 bs (hs_buf s), hs_w := w'\<rparr> in lives cs n s' \<and> advance 0 s s' [] bs)"
proof -
  obtain ss ws where ss: "n_wscript (hs_w s) = ss # ws" "moves False True ss (replicate MAX_REPLY 0)" "accepts ws n"
    using assms(1) by (cases "n_wscript (hs_w s)") (auto simp: lives_def)
  have len: "length (memcpy_at 0 bs (hs_buf s)) = BUFF_LEN" "length bs \<le> length (memcpy_at 0 bs (hs_buf s))"
    using assms by (simp_all add: lives_def MAX_REPLY_def BUFF_LEN_def length_memcpy_at)
  have "moves False True ss (take (length bs) (memcpy_at 0 bs (hs_buf s)))"
    using moves_fewer [OF ss(2)] assms(2) by (simp add: take_memcpy_at_0)
  from net_write_live [OF _ ss(1) this len(2)] assms(1) show ?thesis
    using ss(3) len(1) by (auto simp: lives_def advance_def take_memcpy_at_0)
qed

lemma send_live:
  assumes "lives cs (Suc n) s" and "length bs \<le> MAX_REPLY"
  shows "\<exists>s'. send_buff (net_ops k e cfg lib) bs s = (Inr (int (length bs)), s') \<and> lives cs n s' \<and>
    advance 0 s s' [] bs"
  using write_live [OF assms] by (auto simp: send_buff_def Let_def)

lemma byte_chunk: "length bs < 256 \<Longrightarrow> unat (len_byte bs) = length bs \<and> length bs \<le> BUFF_LEN"
  by (simp add: len_byte_def unat_word_of_nat_byte BUFF_LEN_def)

lemma recv1_live:
  "lives ([b] # cs) n s \<Longrightarrow>
     \<exists>s'. recv (net_ops k e cfg lib) st 1 s = (Inr [b], s') \<and> lives cs n s' \<and> advance 0 s s' [b] []"
  by (rule recv_live) (auto simp: BUFF_LEN_def)

lemma recv_len_live:
  "lives (bs # cs) n s \<Longrightarrow> length bs < 256 \<Longrightarrow>
     \<exists>s'. recv (net_ops k e cfg lib) st (unat (len_byte bs)) s = (Inr bs, s') \<and> lives cs n s' \<and> advance 0 s s' bs []"
  by (rule recv_live) (auto simp: byte_chunk)

lemma greeting_runs:
  assumes "lives ([5] # [len_byte ms] # ms # cs) n s" and "length ms < 256"
  shows "\<exists>s'. hs_greeting (net_ops k e cfg lib) st s = (Inr ms, s') \<and> lives cs n s' \<and>
    advance 0 s s' ([5, len_byte ms] @ ms) []"
proof -
  let ?ops = "net_ops k e cfg lib"
  obtain s1 where 1: "recv ?ops st 1 s = (Inr [5], s1)" "lives ([len_byte ms] # ms # cs) n s1" "advance 0 s s1 [5] []"
    using recv1_live [OF assms(1)] by blast
  obtain s2 where 2: "recv ?ops st 1 s1 = (Inr [len_byte ms], s2)" "lives (ms # cs) n s2"
      "advance 0 s1 s2 [len_byte ms] []"
    using recv1_live [OF 1(2)] by blast
  obtain s3 where 3: "recv ?ops st (unat (len_byte ms)) s2 = (Inr ms, s3)" "lives cs n s3" "advance 0 s2 s3 ms []"
    using recv_len_live [OF 2(2) assms(2)] by blast
  have "hs_greeting ?ops st s = (Inr ms, s3)"
    using 1(1) 2(1) 3(1) by (simp add: hs_greeting_def step_simps)
  then show ?thesis
    using 3(2) advance_trans [OF advance_trans [OF 1(3) 2(3)] 3(3)] by auto
qed

lemma method_runs:
  assumes "lives cs (Suc n) s" and "chosen_method cfg ms = Some m"
  shows "\<exists>s'. hs_method (net_ops k e cfg' lib) cfg st ms s = (Inr (uint m), s') \<and> lives cs n s' \<and>
    advance 0 s s' [] [5, m]"
proof -
  obtain s' where "send_buff (net_ops k e cfg' lib) [5, m] s = (Inr (int (length [5, m])), s')" "lives cs n s'"
      "advance 0 s s' [] [5, m]"
    using send_live [OF assms(1), of "[5, m]" k e cfg' lib] by (auto simp: MAX_REPLY_def)
  then show ?thesis
    using assms(2) by (auto simp: hs_method_def select_method_chosen bind_step_def)
qed

fun login_chunks :: "(bytes \<times> bytes) option \<Rightarrow> bytes list" where
  "login_chunks None = []"
| "login_chunks (Some (u, p)) = [[1], [len_byte u], u, [len_byte p], p]"

lemma auth_runs:
  assumes "lives (login_chunks lg @ cs) (n + (if lg = None then 0 else 1)) s"
    and "case lg of None \<Rightarrow> m = 0 | Some up \<Rightarrow> m = (2 :: byte) \<and> login_ok cfg up"
  shows "\<exists>s'. hs_auth (net_ops k e cfg' lib) cfg st (uint m) s = (Inr (), s') \<and> lives cs n s' \<and>
    advance 0 s s' (enc_login lg) (drop 2 (login_replies lg))"
proof (cases lg)
  case None
  then show ?thesis using assms by (auto simp: hs_auth_def advance_refl)
next
  case (Some up)
  let ?ops = "net_ops k e cfg' lib"
  obtain u p where up: "up = (u, p)" by (cases up)
  obtain usr where usr: "GetUser cfg (bytes_to_string u) = Some usr" "password usr = bytes_to_string p"
      "length u < 256" "length p < 256" "m = 2"
    using assms(2) Some up by (auto simp: login_ok_def split: option.splits)
  have l0: "lives ([1] # [len_byte u] # u # [len_byte p] # p # cs) (Suc n) s"
    using assms(1) Some up by simp
  obtain s1 where 1: "recv ?ops st 1 s = (Inr [1], s1)" "lives ([len_byte u] # u # [len_byte p] # p # cs) (Suc n) s1"
      "advance 0 s s1 [1] []"
    using recv1_live [OF l0] by blast
  obtain s2 where 2: "recv ?ops st 1 s1 = (Inr [len_byte u], s2)" "lives (u # [len_byte p] # p # cs) (Suc n) s2"
      "advance 0 s1 s2 [len_byte u] []"
    using recv1_live [OF 1(2)] by blast
  obtain s3 where 3: "recv ?ops st (unat (len_byte u)) s2 = (Inr u, s3)" "lives ([len_byte p] # p # cs) (Suc n) s3"
      "advance 0 s2 s3 u []"
    using recv_len_live [OF 2(2) usr(3)] by blast
  obtain s4 where 4: "recv ?ops st 1 s3 = (Inr [len_byte p], s4)" "lives (p # cs) (Suc n) s4"
      "advance 0 s3 s4 [len_byte p] []"
    using recv1_live [OF 3(2)] by blast
  obtain s5 where 5: "recv ?ops st (unat (len_byte p)) s4 = (Inr p, s5)" "lives cs (Suc n) s5" "advance 0 s4 s5 p []"
    using recv_len_live [OF 4(2) usr(4)] by blast
  obtain s6 where 6: "send_buff ?ops [1, 0] s5 = (Inr (int (length [1 :: byte, 0])), s6)" "lives cs n s6"
      "advance 0 s5 s6 [] [1, 0]"
    using send_live [OF 5(2), of "[1, 0]" k e cfg' lib] by (auto simp: MAX_REPLY_def)
  have "hs_auth ?ops cfg st (uint m) s = (Inr (), s6)"
    using 1(1) 2(1) 3(1) 4(1) 5(1) 6(1) usr(1,2,5) by (simp add: hs_auth_def step_simps)
  then show ?thesis
    using 6(2) Some up advance_trans [OF advance_trans [OF advance_trans [OF advance_trans [OF advance_trans
      [OF 1(3) 2(3)] 3(3)] 4(3)] 5(3)] 6(3)] by auto
qed

section \<open>Destinations\<close>

text \<open>
  The addresses of a destination at a time: a literal address stands for itself, as does a name that
  reads as one; another name has the valid addresses that the resolver, created and opened for the
  query, answers to it, the IPv6 ones first.
\<close>

definition lookup :: "bytes list option \<Rightarrow> ip_address list" where
  "lookup ans = (case ans of None \<Rightarrow> [] | Some raws \<Rightarrow> filter isValid (map IPAddress_raw raws))"

fun targets :: "resolver \<Rightarrow> config \<Rightarrow> pton \<Rightarrow> nat \<Rightarrow> s5_dest \<Rightarrow> ip_address list" where
  "targets lib cfg pton t (Dest_V4 bs) = [IPAddress_raw bs]"
| "targets lib cfg pton t (Dest_V6 bs) = [IPAddress_raw bs]"
| "targets lib cfg pton t (Dest_Name bs) =
     (let nm = bytes_to_string bs; nosrch = \<not> GetUDNSSearchDomainIsSet cfg
      in if isValid (IPAddress_str pton nm) then [IPAddress_str pton nm]
      else if lib_new lib (GetBaseUDNSContext cfg) t \<and> lib_open lib (t + 1)
      then lookup (lib_a6 lib (c_str nm) nosrch (t + 2)) @ lookup (lib_a4 lib (c_str nm) nosrch (t + 3))
      else [])"

text \<open>The pieces in which the handshake reads a destination.\<close>

fun dest_chunks :: "s5_dest \<Rightarrow> bytes list" where
  "dest_chunks (Dest_V4 bs) = [bs]"
| "dest_chunks (Dest_V6 bs) = [bs]"
| "dest_chunks (Dest_Name bs) = [[len_byte bs], bs]"

fun is_literal :: "s5_dest \<Rightarrow> bool" where
  "is_literal (Dest_V4 bs) = True"
| "is_literal (Dest_V6 bs) = True"
| "is_literal (Dest_Name bs) = False"

lemma literal_targets: "is_literal dest \<Longrightarrow> targets lib cfg pton t dest \<noteq> []"
  by (cases dest) auto

lemma lookup_valid: "lookup ans = (case ans of None \<Rightarrow> [] | Some raws \<Rightarrow> valid_addrs raws)"
  by (cases ans) (simp_all add: lookup_def valid_addrs_def)

lemma resolve_runs:
  assumes "targets lib cfg pton (n_time (hs_w s)) (Dest_Name bs) = ips" and "ips \<noteq> []"
    and "\<not> isValid (IPAddress_str pton (bytes_to_string bs))" and "lives cs n s"
  shows "\<exists>s'. hs_resolve (net_ops k e cfg' lib) cfg st (bytes_to_string bs) s = (Inr ips, s') \<and> lives cs n s' \<and>
    advance 4 s s' [] []"
proof -
  define s' where "s' = s\<lparr>hs_w := (hs_w s)\<lparr>n_time := n_time (hs_w s) + 4\<rparr>\<rparr>"
  have "hs_resolve (net_ops k e cfg' lib) cfg st (bytes_to_string bs) s = (Inr ips, s')"
    using assms(1-3)
    by (auto simp: hs_resolve_def net_ops_def net_lib_def lookup_valid Let_def s'_def
        eval_nat_numeral split: if_splits)
  moreover have "lives cs n s'" using assms(4) by (simp add: lives_def s'_def)
  moreover have "advance 4 s s' [] []" by (simp add: advance_def svc_kept_def s'_def)
  ultimately show ?thesis by blast
qed

lemma literal_runs:
  assumes "lives (bs # cs) n s" and "length bs = m" and "m \<le> BUFF_LEN" and "isValid (IPAddress_raw bs)"
  shows "\<exists>s'. bind_step (recv (net_ops k e cfg' lib) st m) (\<lambda>raw. ret_step (valid_addrs [raw])) s =
      (Inr [IPAddress_raw bs], s') \<and> lives cs n s' \<and> advance 0 s s' bs []"
proof -
  obtain s' where "recv (net_ops k e cfg' lib) st m s = (Inr bs, s')" "lives cs n s'" "advance 0 s s' bs []"
    using recv_live [OF assms(1) assms(3) [folded assms(2)] assms(2) [symmetric]] by blast
  then show ?thesis using assms(4) by (simp add: bind_step_def valid_addrs_def)
qed

lemma dest_runs:
  assumes "lives (dest_chunks dest @ cs) n s" and "dest_ok dest"
    and "targets lib cfg pton (n_time (hs_w s)) dest = ips" and "ips \<noteq> []"
  shows "\<exists>s' d. hs_dest (net_ops k e cfg' lib) pton cfg st (hd (enc_dest dest)) s = (Inr ips, s') \<and>
    lives cs n s' \<and> advance d s s' (concat (dest_chunks dest)) []"
proof (cases dest)
  case (Dest_V4 bs)
  have "hs_dest (net_ops k e cfg' lib) pton cfg st (hd (enc_dest dest)) =
      bind_step (recv (net_ops k e cfg' lib) st IPV4_ADDR_LEN) (\<lambda>raw. ret_step (valid_addrs [raw]))"
    using Dest_V4 by (simp add: hs_dest_def fun_eq_iff)
  then show ?thesis
    using literal_runs [of bs cs n s IPV4_ADDR_LEN k e cfg' lib st] assms Dest_V4
    by (auto simp: IPV4_ADDR_LEN_def BUFF_LEN_def IPAddress_raw_def)
next
  case (Dest_V6 bs)
  have "hs_dest (net_ops k e cfg' lib) pton cfg st (hd (enc_dest dest)) =
      bind_step (recv (net_ops k e cfg' lib) st IPV6_ADDR_LEN) (\<lambda>raw. ret_step (valid_addrs [raw]))"
    using Dest_V6 by (simp add: hs_dest_def fun_eq_iff)
  then show ?thesis
    using literal_runs [of bs cs n s IPV6_ADDR_LEN k e cfg' lib st] assms Dest_V6
    by (auto simp: IPV6_ADDR_LEN_def IPV4_ADDR_LEN_def BUFF_LEN_def IPAddress_raw_def)
next
  case (Dest_Name bs)
  let ?ops = "net_ops k e cfg' lib" and ?lit = "IPAddress_str pton (bytes_to_string bs)"
  have l0: "lives ([len_byte bs] # bs # cs) n s" and len: "length bs < 256" using assms(1,2) Dest_Name by simp_all
  obtain s1 where 1: "recv ?ops st 1 s = (Inr [len_byte bs], s1)" "lives (bs # cs) n s1" "advance 0 s s1 [len_byte bs] []"
    using recv1_live [OF l0] by blast
  obtain s2 where 2: "recv ?ops st (unat (len_byte bs)) s1 = (Inr bs, s2)" "lives cs n s2" "advance 0 s1 s2 bs []"
    using recv_len_live [OF 1(2) len] by blast
  note a = advance_trans [OF 1(3) 2(3)]
  have run: "hs_dest ?ops pton cfg st (hd (enc_dest dest)) s =
      (if isValid ?lit then (Inr [?lit], s2) else hs_resolve ?ops cfg st (bytes_to_string bs) s2)"
    using 1(1) 2(1) Dest_Name by (simp add: hs_dest_def step_simps Let_def)
  show ?thesis
  proof (cases "isValid ?lit")
    case True
    then show ?thesis
      using run 2(2) a assms(3) Dest_Name by (intro exI [of _ s2] exI [of _ 0]) (simp add: Let_def)
  next
    case False
    have "targets lib cfg pton (n_time (hs_w s2)) (Dest_Name bs) = ips"
      using assms(3) Dest_Name a by (simp add: advance_def)
    from resolve_runs [OF this assms(4) False 2(2)] obtain s3 where
      3: "hs_resolve ?ops cfg st (bytes_to_string bs) s2 = (Inr ips, s3)" "lives cs n s3" "advance 4 s2 s3 [] []"
      by blast
    then show ?thesis
      using run False advance_trans [OF a 3(3)] Dest_Name
      by (intro exI [of _ s3] exI [of _ 4]) simp
  qed
qed

lemma request_runs:
  assumes "lives ([5] # [cmd, rsv] # [hd (enc_dest dest)] # dest_chunks dest @ be16 prt # cs) n s"
    and "dest_ok dest" and "targets lib cfg pton (n_time (hs_w s)) dest = ips" and "ips \<noteq> []"
  shows "\<exists>s' d. hs_request (net_ops k e cfg' lib) pton e cfg st s = (Inr (cmd, ips, prt), s') \<and> lives cs n s' \<and>
    advance d s s' (enc_request cmd rsv dest prt) []"
proof -
  let ?ops = "net_ops k e cfg' lib"
  obtain s1 where 1: "recv ?ops st 1 s = (Inr [5], s1)" "advance 0 s s1 [5] []"
      "lives ([cmd, rsv] # [hd (enc_dest dest)] # dest_chunks dest @ be16 prt # cs) n s1"
    using recv1_live [OF assms(1)] by blast
  obtain s2 where 2: "recv ?ops st 2 s1 = (Inr [cmd, rsv], s2)" "advance 0 s1 s2 [cmd, rsv] []"
      "lives ([hd (enc_dest dest)] # dest_chunks dest @ be16 prt # cs) n s2"
    using recv_live [OF 1(3), of 2 k e cfg' lib st] by (auto simp: BUFF_LEN_def)
  obtain s3 where 3: "recv ?ops st 1 s2 = (Inr [hd (enc_dest dest)], s3)" "advance 0 s2 s3 [hd (enc_dest dest)] []"
      "lives (dest_chunks dest @ be16 prt # cs) n s3"
    using recv1_live [OF 2(3)] by blast
  note a3 = advance_trans [OF advance_trans [OF 1(2) 2(2)] 3(2)]
  have "targets lib cfg pton (n_time (hs_w s3)) dest = ips" using assms(3) a3 by (simp add: advance_def)
  from dest_runs [OF 3(3) assms(2) this assms(4)] obtain s4 d where
    4: "hs_dest ?ops pton cfg st (hd (enc_dest dest)) s3 = (Inr ips, s4)"
      "advance d s3 s4 (concat (dest_chunks dest)) []" "lives (be16 prt # cs) n s4"
    by blast
  have l: "2 = length (be16 prt)" "length (be16 prt) \<le> BUFF_LEN" by (simp_all add: BUFF_LEN_def)
  obtain s5 where 5: "recv ?ops st 2 s4 = (Inr (be16 prt), s5)" "advance 0 s4 s5 (be16 prt) []" "lives cs n s5"
    using recv_live [OF 4(3), of 2 k e cfg' lib st, OF l(2) l(1)] by blast
  have "of_be16 (be16 prt ! 0) (be16 prt ! 1) = prt" by (simp add: be16_def)
  then have "hs_request ?ops pton e cfg st s = (Inr (cmd, ips, prt), s5)"
    using 1(1) 2(1) 3(1) 4(1) 5(1) by (simp add: hs_request_def step_simps)
  moreover have "[5, cmd, rsv, hd (enc_dest dest)] @ concat (dest_chunks dest) @ be16 prt =
      enc_request cmd rsv dest prt"
    by (cases dest) (simp_all add: enc_request_def)
  ultimately show ?thesis
    using 5(3) advance_trans [OF advance_trans [OF a3 4(2)] 5(2)] by (intro exI [of _ s5] exI [of _ d]) simp
qed

section \<open>Connecting on a kernel that accepts\<close>

definition accepting :: "kernel \<Rightarrow> bool" where
  "accepting k \<longleftrightarrow> (\<forall>tr v6. 0 \<le> fst (k tr (SysSocket v6))) \<and>
     (\<forall>tr sock sa. 0 \<le> fst (k tr (SysConnect sock sa)))"

lemma connect_accepts:
  assumes "accepting k" and "service_ok (Suc n) s"
  shows "\<exists>sock s'. ConnectAndCreateHandler k e cfg ep tv s = (handlerIdCounter s + 1, s') \<and> 0 \<le> sock \<and>
    GetHandler (handlerIdCounter s + 1) s' = Some (new_handler sock)"
proof -
  obtain hid s' where run: "ConnectAndCreateHandler k e cfg ep tv s = (hid, s')" by fastforce
  obtain sock err s1 where so: "sys k (SysSocket (isV6 (address ep))) s = ((sock, err), s1)"
    by (metis prod.collapse)
  define s2 where "s2 = SetSocketCustomTimeouts k sock tv (TuneSocketBaseParams k cfg sock s1)"
  obtain cr error s3 where co: "sys k (SysConnect sock (target_sa e ep)) s2 = ((cr, error), s3)"
    by (metis prod.collapse)
  have pos: "0 \<le> sock" "0 \<le> cr"
    using so co assms(1) by (auto simp: sys_def accepting_def Let_def split: prod.splits) (metis fst_conv)+
  have "svc_view s2 = svc_view s1" by (simp add: s2_def view_simps)
  then have same: "commHandlers s3 = commHandlers s" "handlerIdCounter s3 = handlerIdCounter s"
    using sys_opened [OF so] sys_opened [OF co] by (simp_all add: svc_view_def)
  have create: "CreateHandlerFromSocket k cfg sock s3 = (hid, s')"
    using run so co pos by (simp add: ConnectAndCreateHandler_def s2_def)
  have "hid = handlerIdCounter s + 1" "GetHandler hid s' = Some (new_handler sock)"
    using CreateHandlerFromSocket_view [OF create] service_ok_fresh [OF assms(2)] same
    by (auto simp: svc_view_def GetHandler_def)
  then show ?thesis using run pos by blast
qed

lemma connect_loop_live:
  assumes "accepting k" and "service_ok (Suc m) (n_svc (hs_w s))" and "lives cs n s"
    and "\<And>sock t. lib_sockname lib sock t = Some sa"
  shows "\<exists>s' st'. lives cs n s' \<and> n_rwire (hs_w s') = n_rwire (hs_w s) \<and> n_wwire (hs_w s') = n_wwire (hs_w s) \<and>
    n_dials (hs_w s') = n_dials (hs_w s) @ [IPEndpoint a prt] \<and>
    connect_loop (net_ops k e cfg lib) e ct prt (a # ips) 1 fs bep s =
      (case IPEndpoint_sa e sa of None \<Rightarrow> (Inl HS_Undefined, s')
       | Some ep \<Rightarrow> if \<not> isValid (address ep) then FailWithDisclaim st' s'
           else (Inr (0, IS_Set st' fs, IS_Set ep bep), s'))"
proof -
  obtain t svc sock where con: "ConnectAndCreateHandler k e cfg (IPEndpoint a prt) ct (n_svc (hs_w s)) = (t, svc)"
      and t: "t = handlerIdCounter (n_svc (hs_w s)) + 1" "GetHandler t svc = Some (new_handler sock)" "0 \<le> sock"
    using connect_accepts [OF assms(1,2)] by blast
  define w1 where "w1 = (hs_w s)\<lparr>n_svc := svc, n_dials := n_dials (hs_w s) @ [IPEndpoint a prt]\<rparr>"
  have err: "\<not> HANDLER_ERROR < t" using service_ok_next(2) [OF assms(2)] t(1) by simp
  have live: "live_client w1"
    using assms(3) ConnectAndCreateHandler_keeps [OF con]
    by (auto simp: lives_def live_client_def w1_def split: option.splits)
  obtain st' heap' where add: "AddHandlerWithClaim t (IS_Get fs) (hs_heap s) = (st', heap')" by fastforce
  define s' where "s' = s\<lparr>hs_heap := heap', hs_w := w1\<lparr>n_time := Suc (n_time w1)\<rparr>\<rparr>"
  have "net_handler t w1 = Some sock"
    using t by (simp add: net_handler_def w1_def handler_IsValid_def new_handler_def)
  then have "connect_loop (net_ops k e cfg lib) e ct prt (a # ips) 1 fs bep s =
      (case IPEndpoint_sa e sa of None \<Rightarrow> (Inl HS_Undefined, s')
       | Some ep \<Rightarrow> if \<not> isValid (address ep) then FailWithDisclaim st' s'
           else (Inr (0, IS_Set st' fs, IS_Set ep bep), s'))"
    using con err add assms(4)
    by (simp add: net_connect_def w1_def [symmetric] s'_def Let_def net_ops_def net_lib_def split: option.splits)
  moreover have "lives cs n s'"
    using assms(3) live by (simp add: lives_def s'_def) (simp add: w1_def)
  ultimately show ?thesis by (intro exI [of _ s'] exI [of _ st']) (simp add: s'_def w1_def)
qed

lemma length_final_reply: "length (final_reply rep ep) \<le> MAX_REPLY"
  by (cases "address ep") (auto simp: final_reply_def wire_endpoint_def MAX_REPLY_def)

lemma reply_runs:
  assumes "lives cs (Suc n) s"
  shows "\<exists>st' s'. hs_reply (net_ops k e cfg lib) e 1 0 st ep s = (Inr (HS_Result (JR_CLIENT_MODE_CONNECT st')), s') \<and>
    n_rwire (hs_w s') = n_rwire (hs_w s) \<and> n_wwire (hs_w s') = n_wwire (hs_w s) @ final_reply 0 ep \<and>
    n_dials (hs_w s') = n_dials (hs_w s)"
proof -
  let ?hdr = "[5, 0, 0, if isV6 (address ep) then 4 else 1] :: bytes"
  have len: "length (hs_buf s) = 512" "length (final_reply 0 ep) \<le> 512"
    using assms by (simp_all add: lives_def BUFF_LEN_def final_reply_def)
  have raw: "IPEndpoint_ToRawBuff e ep 4 (memcpy_at 0 ?hdr (hs_buf s)) =
      (memcpy_at 4 (wire_endpoint ep) (memcpy_at 0 ?hdr (hs_buf s)), length (wire_endpoint ep))"
    using len by (intro IPEndpoint_ToRawBuff_eq) (simp add: length_memcpy_at)
  have copy: "memcpy_at 4 (wire_endpoint ep) (memcpy_at 0 ?hdr (hs_buf s)) = memcpy_at 0 (final_reply 0 ep) (hs_buf s)"
    using memcpy_at_adjacent [of 0 ?hdr "wire_endpoint ep" "hs_buf s"] len
    by (simp add: final_reply_def eval_nat_numeral)
  have total: "int (length (wire_endpoint ep) + 4) = int (length (final_reply 0 ep))"
    by (simp add: final_reply_def)
  obtain w' where wr: "net_write (memcpy_at 0 (final_reply 0 ep) (hs_buf s)) (int (length (final_reply 0 ep))) False (hs_w s) =
      (int (length (final_reply 0 ep)), memcpy_at 0 (final_reply 0 ep) (hs_buf s), w')"
      "advance 0 s (s\<lparr>hs_buf := memcpy_at 0 (final_reply 0 ep) (hs_buf s), hs_w := w'\<rparr>) [] (final_reply 0 ep)"
    using write_live [OF assms length_final_reply [of 0 ep]] by (auto simp: Let_def)
  obtain st' heap' where dis: "DisclaimAllHandlers st (hs_heap s) = (st', heap')" by fastforce
  show ?thesis
    unfolding hs_reply_def Let_def raw prod.case copy total net_ops_sel wr(1)
    using dis wr(2) by (simp add: advance_def)
qed

section \<open>Whole runs\<close>

definition session_chunks :: "s5_session \<Rightarrow> bytes list" where
  "session_chunks ss = [[5], [len_byte (ss_methods ss)], ss_methods ss] @ login_chunks (ss_login ss) @
     [[5], [ss_cmd ss, ss_rsv ss], [hd (enc_dest (ss_dest ss))]] @ dest_chunks (ss_dest ss) @ [be16 (ss_port ss)]"

text \<open>The client of world \<open>w\<close> sends the session \<open>ss\<close> in time and takes all replies in time.\<close>

definition sends_session :: "s5_session \<Rightarrow> net \<Rightarrow> bool" where
  "sends_session ss w \<longleftrightarrow> live_client w \<and> supplies (n_rscript w) (session_chunks ss) \<and>
     accepts (n_wscript w) (if ss_login ss = None then 2 else 3) \<and> net_handler (n_client w) w \<noteq> None"

lemma front_runs:
  assumes "session_ok cfg ss" and "targets lib cfg pton (n_time (hs_w s)) (ss_dest ss) = ips" and "ips \<noteq> []"
    and "lives (session_chunks ss) (if ss_login ss = None then 2 else 3) s"
  shows "\<exists>s' d. bind_step (hs_greeting (net_ops k e cfg' lib) st) (\<lambda>methods.
     bind_step (hs_method (net_ops k e cfg' lib) cfg st methods) (\<lambda>selected.
     bind_step (hs_auth (net_ops k e cfg' lib) cfg st selected) (\<lambda>_.
     hs_request (net_ops k e cfg' lib) pton e cfg st))) s =
       (Inr (ss_cmd ss, ips, ss_port ss), s') \<and> lives [] 1 s' \<and>
    advance d s s' (enc_session ss) (login_replies (ss_login ss))"
proof -
  let ?ops = "net_ops k e cfg' lib" and ?lg = "ss_login ss" and ?ms = "ss_methods ss"
  let ?req = "[5] # [ss_cmd ss, ss_rsv ss] # [hd (enc_dest (ss_dest ss))] # dest_chunks (ss_dest ss) @ be16 (ss_port ss) # []"
  have ok: "length ?ms < 256" "dest_ok (ss_dest ss)"
    using assms(1) by (auto simp: session_ok_def auth_ok_def)
  obtain m where m: "chosen_method cfg ?ms = Some m"
      "case ?lg of None \<Rightarrow> m = 0 | Some up \<Rightarrow> m = 2 \<and> login_ok cfg up"
    using assms(1) by (auto simp: session_ok_def auth_ok_def split: option.splits)
  have l0: "lives ([5] # [len_byte ?ms] # ?ms # login_chunks ?lg @ ?req) (Suc (1 + (if ?lg = None then 0 else 1))) s"
    using assms(4) by (cases ?lg) (simp_all add: session_chunks_def eval_nat_numeral)
  obtain s1 where g: "hs_greeting ?ops st s = (Inr ?ms, s1)"
      "lives (login_chunks ?lg @ ?req) (Suc (1 + (if ?lg = None then 0 else 1))) s1"
      "advance 0 s s1 ([5, len_byte ?ms] @ ?ms) []"
    using greeting_runs [OF l0 ok(1)] by blast
  obtain s2 where me: "hs_method ?ops cfg st ?ms s1 = (Inr (uint m), s2)"
      "lives (login_chunks ?lg @ ?req) (1 + (if ?lg = None then 0 else 1)) s2" "advance 0 s1 s2 [] [5, m]"
    using method_runs [OF g(2) m(1)] by blast
  obtain s3 where au: "hs_auth ?ops cfg st (uint m) s2 = (Inr (), s3)" "lives ?req 1 s3"
      "advance 0 s2 s3 (enc_login ?lg) (drop 2 (login_replies ?lg))"
    using auth_runs [OF me(2) m(2)] by blast
  note a3 = advance_trans [OF advance_trans [OF g(3) me(3)] au(3)]
  have "targets lib cfg pton (n_time (hs_w s3)) (ss_dest ss) = ips"
    using assms(2) a3 by (simp add: advance_def)
  from request_runs [OF au(2) ok(2) this assms(3)] obtain s4 d where
    rq: "hs_request ?ops pton e cfg st s3 = (Inr (ss_cmd ss, ips, ss_port ss), s4)" "lives [] 1 s4"
      "advance d s3 s4 (enc_request (ss_cmd ss) (ss_rsv ss) (ss_dest ss) (ss_port ss)) []"
    by blast
  have "[5, m] @ drop 2 (login_replies ?lg) = login_replies ?lg"
    using m(2) by (cases ?lg) auto
  then have "advance d s s4 (enc_session ss) (login_replies ?lg)"
    using advance_trans [OF a3 rq(3)] by (simp add: enc_session_def)
  then show ?thesis
    using g(1) me(1) au(1) rq(1,2) by (auto simp: bind_step_def)
qed

text \<open>A run up to the reply, on an accepting kernel.\<close>

lemma execute_live:
  assumes "session_ok cfg ss" and "ss_cmd ss = 1" and "sends_session ss w"
    and "targets lib cfg pton (n_time w) (ss_dest ss) = a # ips"
    and "accepting k" and "service_ok (Suc m) (n_svc w)"
    and "length (handlerClaims st) = 1" and "cs_handlerID (handlerClaimStates st ! 0) = n_client w"
    and "\<And>sock t. lib_sockname lib sock t = Some sa"
    and "handshake_Execute (net_ops k e cfg lib) pton e cfg st heap w = (out, s')"
  shows "IPEndpoint_sa e sa = None \<Longrightarrow> out = HS_Undefined"
    and "IPEndpoint_sa e sa = Some ep \<Longrightarrow> isValid (address ep) \<Longrightarrow>
      (\<exists>st'. out = HS_Result (JR_CLIENT_MODE_CONNECT st')) \<and>
      n_rwire (hs_w s') = n_rwire w @ enc_session ss \<and>
      n_wwire (hs_w s') = n_wwire w @ login_replies (ss_login ss) @ final_reply 0 ep \<and>
      n_dials (hs_w s') = n_dials w @ [IPEndpoint a (ss_port ss)]"
proof -
  let ?ops = "net_ops k e cfg lib"
  let ?s = "\<lparr>hs_buf = replicate BUFF_LEN 0, hs_heap = heap, hs_w = w\<rparr>"
  let ?ct = "connect_timeout cfg (length (a # ips))"
  have l0: "lives (session_chunks ss) (if ss_login ss = None then 2 else 3) ?s"
    using assms(3) by (simp add: lives_def sends_session_def)
  have tg: "targets lib cfg pton (n_time (hs_w ?s)) (ss_dest ss) = a # ips" using assms(4) by simp
  from front_runs [OF assms(1) tg _ l0] obtain s1 d where front: "bind_step (hs_greeting ?ops st) (\<lambda>methods.
     bind_step (hs_method ?ops cfg st methods) (\<lambda>selected.
     bind_step (hs_auth ?ops cfg st selected) (\<lambda>_.
     hs_request ?ops pton e cfg st))) ?s = (Inr (ss_cmd ss, a # ips, ss_port ss), s1)"
    and l1: "lives [] 1 s1" and a1: "advance d ?s s1 (enc_session ss) (login_replies (ss_login ss))"
    by blast
  have ok1: "service_ok (Suc m) (n_svc (hs_w s1))"
    using a1 assms(6) by (simp add: advance_def svc_kept_def)
  obtain s2 st2 where s2: "lives [] 1 s2" "n_rwire (hs_w s2) = n_rwire (hs_w s1)"
      "n_wwire (hs_w s2) = n_wwire (hs_w s1)" "n_dials (hs_w s2) = n_dials (hs_w s1) @ [IPEndpoint a (ss_port ss)]"
      "connect_loop ?ops e ?ct (ss_port ss) (a # ips) 1 (IS_new st) (IS_new IPEndpoint_default) s1 =
      (case IPEndpoint_sa e sa of None \<Rightarrow> (Inl HS_Undefined, s2)
       | Some ep \<Rightarrow> if \<not> isValid (address ep) then FailWithDisclaim st2 s2
           else (Inr (0, IS_Set st2 (IS_new st), IS_Set ep (IS_new IPEndpoint_default)), s2))"
    using connect_loop_live [OF assms(5) ok1 l1 assms(9)] by blast
  have run: "hs_session ?ops pton e cfg st ?s =
      bind_step (connect_loop ?ops e ?ct (ss_port ss) (a # ips) 1 (IS_new st) (IS_new IPEndpoint_default))
        (\<lambda>(rep, fs, bep). hs_reply ?ops e 1 rep (IS_Get fs) (IS_Get bep)) s1"
    unfolding hs_session_split using front by (simp add: bind_step_def assms(2) hs_command_def)
  have exec: "handshake_Execute ?ops pton e cfg st heap w =
      (case hs_session ?ops pton e cfg st ?s of (Inl out, s') \<Rightarrow> (out, s') | (Inr out, s') \<Rightarrow> (out, s'))"
    using assms(3,7,8) by (auto simp: handshake_Execute_def sends_session_def)
  show "out = HS_Undefined" if "IPEndpoint_sa e sa = None"
    using assms(10) exec run s2(5) that by (simp add: bind_step_def)
  show "(\<exists>st'. out = HS_Result (JR_CLIENT_MODE_CONNECT st')) \<and>
      n_rwire (hs_w s') = n_rwire w @ enc_session ss \<and>
      n_wwire (hs_w s') = n_wwire w @ login_replies (ss_login ss) @ final_reply 0 ep \<and>
      n_dials (hs_w s') = n_dials w @ [IPEndpoint a (ss_port ss)]"
    if ep: "IPEndpoint_sa e sa = Some ep" "isValid (address ep)"
  proof -
    obtain st3 s3 where "hs_reply ?ops e 1 0 st2 ep s2 = (Inr (HS_Result (JR_CLIENT_MODE_CONNECT st3)), s3)"
        "n_rwire (hs_w s3) = n_rwire (hs_w s2)" "n_wwire (hs_w s3) = n_wwire (hs_w s2) @ final_reply 0 ep"
        "n_dials (hs_w s3) = n_dials (hs_w s2)"
      using reply_runs [of "[]" 0 s2 k e cfg lib st2 ep] s2(1) by auto
    then show ?thesis
      using assms(10) exec run s2 ep a1 by (auto simp: bind_step_def advance_def)
  qed
qed

end
