(* ===== verification/Handshake_Theorems.thy ===== *)
theory Handshake_Theorems
  imports Handshake_Live
begin

text \<open>
  The main properties of the handshake job on the program's own communication service, with a
  concrete client whose run shows that their hypotheses can hold.
\<close>

section \<open>A concrete client\<close>

text \<open>
  A client that logs in as \<open>bob\<close> and asks for port 80 of a destination.  Its bytes arrive one by one,
  each with a notification, and its socket takes one byte of a reply before it takes the rest.
\<close>

definition open_kernel :: kernel where
  "open_kernel tr c = (case c of SysSocket v6 \<Rightarrow> (3 + int (length tr), 0) | _ \<Rightarrow> (0, 0))"

definition demo_config :: config where
  "demo_config = AddUser \<lparr>login = ''bob'', password = ''pw''\<rparr> sample_config"

definition demo_session :: "s5_dest \<Rightarrow> s5_session" where
  "demo_session dest = \<lparr>ss_methods = [0, 2], ss_login = Some ([98, 111, 98], [112, 119]), ss_cmd = 1, ss_rsv = 0,
     ss_dest = dest, ss_port = 80\<rparr>"

definition demo_lib :: "bytes \<Rightarrow> resolver" where
  "demo_lib sa = \<lparr>lib_new = (\<lambda>ctx n. True), lib_open = (\<lambda>n. True), lib_a6 = (\<lambda>nm srch n. None),
     lib_a4 = (\<lambda>nm srch n. if nm = ''host'' then Some [[10, 0, 0, 1]] else None), lib_sockname = (\<lambda>sock n. Some sa)\<rparr>"

text \<open>What \<open>getsockname\<close> puts into 16 bytes for an IPv4 socket, and for an IPv6 one.\<close>

definition demo_sa4 :: bytes where
  "demo_sa4 = [2, 0, 7, 0, 192, 168, 0, 1, 0, 0, 0, 0, 0, 0, 0, 0]"

definition demo_sa6 :: bytes where
  "demo_sa6 = [10, 0, 7, 0, 0, 0, 0, 0, 0x20, 0x01, 0x0D, 0xB8, 0, 0, 0, 0]"

definition demo_host :: s5_dest where
  "demo_host = Dest_Name [104, 111, 115, 116]"

definition turn :: "notify list \<Rightarrow> bytes \<Rightarrow> nat \<Rightarrow> xstep" where
  "turn ns bs room = \<lparr>arrivals = ns, waits = [], io_data = bs, io_room = room, io_eof = False, io_errno = EAGAIN\<rparr>"

definition demo_net :: "s5_dest \<Rightarrow> net" where
  "demo_net dest =
    \<lparr>n_svc = snd (CreateHandlerFromSocket open_kernel demo_config 7 (TCPCommService open_kernel demo_config)),
     n_client = 1, n_rscript = map (map (\<lambda>b. turn [DataAvail] [b] 0)) (session_chunks (demo_session dest)),
     n_wscript = replicate 3 [turn [] [] 1, turn [DataAvail] [] 512],
     n_rwire = [], n_wwire = [], n_dials = [], n_time = 0\<rparr>"

definition demo_heap :: claim_heap where
  "demo_heap = [\<lparr>counter = 0, handlerID = 1\<rparr>]"

definition demo_state :: job_state where
  "demo_state = \<lparr>handlerClaims = [0], handlerClaimStates = [\<lparr>cs_counter = 0, cs_handlerID = 1\<rparr>]\<rparr>"

definition demo_run :: "s5_dest \<Rightarrow> bytes \<Rightarrow> hs_outcome \<times> net hs" where
  "demo_run dest sa = handshake_Execute (net_ops open_kernel LittleEndian demo_config (demo_lib sa))
     (\<lambda>v6 s. None) LittleEndian demo_config (fst (Job_ClientHandshake demo_state demo_heap))
     (snd (Job_ClientHandshake demo_state demo_heap)) (demo_net dest)"

lemma open_kernel_accepting: "accepting open_kernel"
  by (simp add: accepting_def open_kernel_def)

lemma demo_handlers: "commHandlers (n_svc (demo_net dest)) = [(1, new_handler 7)]"
  unfolding demo_net_def net.simps by code_simp

lemma demo_counter: "handlerIdCounter (n_svc (demo_net dest)) = 1"
  unfolding demo_net_def net.simps by code_simp

lemma demo_service_ok: "service_ok 1 (n_svc (demo_net dest))"
  by (simp add: service_ok_def demo_handlers demo_counter handler_ok_new HANDLER_ERROR_def)

lemma demo_client: "GetHandler 1 (n_svc (demo_net dest)) = Some (new_handler 7)"
  by (simp add: GetHandler_def demo_handlers)

lemma demo_net_ok: "net_ok (demo_net dest)"
  using demo_client [of dest] handler_ok_new by (simp add: net_ok_def demo_net_def)

lemma moves_bytewise: "moves True awake (map (\<lambda>b. turn [DataAvail] [b] 0) bs) bs"
  by (induction bs arbitrary: awake) (auto simp: turn_def heard_def movable_def)

lemma supplies_bytewise: "supplies (map (map (\<lambda>b. turn [DataAvail] [b] 0)) cs) cs"
  by (induction cs) (simp_all add: moves_bytewise)

lemma news_bytewise: "news (map (\<lambda>b. turn [DataAvail] [b] 0) bs) = length bs"
  by (induction bs) (simp_all add: news_def step_news_def turn_def)

lemma takes_reply: "length bs \<le> 512 \<Longrightarrow> moves False True [turn [] [] 1, turn [DataAvail] [] 512] bs"
  by (simp add: turn_def heard_def movable_def)

lemma demo_sends:
  assumes "dest_ok dest"
  shows "sends_session (demo_session dest) (demo_net dest)"
proof -
  have "news (concat (n_rscript (demo_net dest))) = length (concat (session_chunks (demo_session dest)))"
    by (simp add: demo_net_def map_concat [symmetric] news_bytewise)
  also have "\<dots> < unat N_HUP - 1"
    using assms by (cases dest) (auto simp: session_chunks_def demo_session_def N_HUP_def)
  finally have "lively (news (concat (n_rscript (demo_net dest)))) (reader (new_handler 7))"
    by (simp add: new_handler_def lively_new)
  moreover have "lively (news (concat (n_wscript (demo_net dest)))) (writer (new_handler 7))"
    by (simp add: new_handler_def lively_new demo_net_def news_def step_news_def turn_def N_HUP_def
        numeral_3_eq_3)
  moreover have "n_client (demo_net dest) = 1" by (simp add: demo_net_def)
  ultimately have "live_client (demo_net dest)"
    using demo_client [of dest] handler_ok_new by (simp add: live_client_def)
  moreover have "accepts (n_wscript (demo_net dest)) 3"
    using takes_reply [of "replicate MAX_REPLY 0"] by (simp add: demo_net_def numeral_3_eq_3 MAX_REPLY_def)
  moreover have "supplies (n_rscript (demo_net dest)) (session_chunks (demo_session dest))"
    by (simp add: demo_net_def supplies_bytewise)
  moreover have "net_handler (n_client (demo_net dest)) (demo_net dest) \<noteq> None"
    using demo_client [of dest] by (simp add: net_handler_def handler_IsValid_def new_handler_def demo_net_def)
  ultimately show ?thesis by (simp add: sends_session_def demo_session_def)
qed

lemma demo_session_ok: "dest_ok dest \<Longrightarrow> session_ok demo_config (demo_session dest)"
proof -
  have "auth_ok demo_config [0, 2] (Some ([98, 111, 98], [112, 119]))" by code_simp
  then show "dest_ok dest \<Longrightarrow> session_ok demo_config (demo_session dest)"
    by (simp add: session_ok_def demo_session_def)
qed

lemma demo_claims:
  "Job_ClientHandshake demo_state demo_heap =
     (\<lparr>handlerClaims = [0], handlerClaimStates = [\<lparr>cs_counter = 1, cs_handlerID = 1\<rparr>]\<rparr>,
      [\<lparr>counter = 1, handlerID = 1\<rparr>])"
  by code_simp

lemma demo_ep4: "IPEndpoint_sa LittleEndian demo_sa4 = Some (IPEndpoint (IPAddress_raw [192, 168, 0, 1]) 7)"
  by code_simp

lemma demo_ep6: "IPEndpoint_sa LittleEndian demo_sa6 = None"
  by code_simp

lemma demo_run_split:
  "handshake_Execute (net_ops open_kernel LittleEndian demo_config (demo_lib sa))
     (\<lambda>v6 s. None) LittleEndian demo_config (fst (Job_ClientHandshake demo_state demo_heap))
     (snd (Job_ClientHandshake demo_state demo_heap)) (demo_net dest) =
   (fst (demo_run dest sa), snd (demo_run dest sa))"
  by (simp add: demo_run_def)

lemma demo_host_ok: "dest_ok demo_host"
  and demo_host_targets: "targets (demo_lib sa) demo_config (\<lambda>v6 s. None) t demo_host = [IPAddress_raw [10, 0, 0, 1]]"
proof -
  have nm: "bytes_to_string [104, 111, 115, 116] = ''host''" by code_simp
  have "c_str ''host'' = ''host''" by code_simp
  moreover have "\<not> isValid (IPAddress_str (\<lambda>v6 s. None) ''host'')" by code_simp
  moreover have "isValid (IPAddress_raw [10, 0, 0, 1])" by code_simp
  ultimately show "targets (demo_lib sa) demo_config (\<lambda>v6 s. None) t demo_host = [IPAddress_raw [10, 0, 0, 1]]"
    by (simp add: demo_host_def nm demo_lib_def lookup_def Let_def)
  show "dest_ok demo_host" by (simp add: demo_host_def)
qed

lemma demo_run_facts:
  assumes "dest_ok dest" and "targets (demo_lib demo_sa4) demo_config (\<lambda>v6 s. None) 0 dest \<noteq> []"
  shows "\<exists>st'. fst (demo_run dest demo_sa4) = HS_Result (JR_CLIENT_MODE_CONNECT st')"
    and "n_dials (hs_w (snd (demo_run dest demo_sa4))) \<noteq> []"
proof -
  have run: "demo_run dest sa = (fst (demo_run dest sa), snd (demo_run dest sa))" for sa by simp
  obtain a ips where "targets (demo_lib demo_sa4) demo_config (\<lambda>v6 s. None) (n_time (demo_net dest)) (ss_dest (demo_session dest)) = a # ips"
    using assms(2) by (auto simp: neq_Nil_conv demo_net_def demo_session_def)
  note live = execute_live(2) [OF demo_session_ok [OF assms(1)] _ demo_sends [OF assms(1)] this open_kernel_accepting
      demo_service_ok [unfolded One_nat_def] _ _ _ run [unfolded demo_run_def] demo_ep4]
  show "\<exists>st'. fst (demo_run dest demo_sa4) = HS_Result (JR_CLIENT_MODE_CONNECT st')"
    and "n_dials (hs_w (snd (demo_run dest demo_sa4))) \<noteq> []"
    using live demo_claims
    by (simp_all add: demo_run_def demo_session_def demo_lib_def demo_net_def IPAddress_raw_def IPV4_ADDR_LEN_def)
qed

section \<open>Authorisation and protocol\<close>

text \<open>
  C1.  The handshake makes a connection attempt only for an authorised client: if it made any, then
  the bytes it read from the client are exactly one SOCKS5 session with a connect command, whose
  login the configuration accepts (or which uses no login where the configuration allows that), and
  every attempt goes to the port and to an address of the destination named in that session: to the
  literal address itself, also when it is written as a name, or to a valid address among those the
  resolver answered to a query for the name the client sent, with the search domain used only as
  configured.  This holds for every kernel, resolver, client and timing.
\<close>

theorem no_connection_without_authorisation:
  assumes "net_ok w"
    and "handshake_Execute (net_ops k e cfg lib) pton e cfg st heap w = (out, s')"
    and "n_dials (hs_w s') \<noteq> n_dials w"
  shows "\<exists>ss eps. session_ok cfg ss \<and> ss_cmd ss = 1 \<and> n_rwire (hs_w s') = n_rwire w @ enc_session ss \<and>
    n_dials (hs_w s') = n_dials w @ eps \<and>
    list_all (\<lambda>ep. port ep = ss_port ss \<and>
      dest_addr (lib_answers lib) (\<not> GetUDNSSearchDomainIsSet cfg) pton (ss_dest ss) (address ep)) eps"
  using net.Execute_sound [OF assms(1,2)] assms(3) by (auto simp: hs_sound_def)

theorem no_connection_without_authorisation_witness:
  "\<exists>ss eps. session_ok demo_config ss \<and> ss_cmd ss = 1 \<and>
    n_rwire (hs_w (snd (demo_run demo_host demo_sa4))) = n_rwire (demo_net demo_host) @ enc_session ss \<and>
    n_dials (hs_w (snd (demo_run demo_host demo_sa4))) = n_dials (demo_net demo_host) @ eps \<and> eps \<noteq> [] \<and>
    list_all (\<lambda>ep. port ep = ss_port ss \<and> dest_addr (lib_answers (demo_lib demo_sa4))
      (\<not> GetUDNSSearchDomainIsSet demo_config) (\<lambda>v6 s. None) (ss_dest ss) (address ep)) eps"
proof -
  have "n_dials (hs_w (snd (demo_run demo_host demo_sa4))) \<noteq> n_dials (demo_net demo_host)"
    using demo_run_facts(2) [OF demo_host_ok] demo_host_targets by (simp add: demo_net_def)
  then show ?thesis
    using no_connection_without_authorisation [OF demo_net_ok demo_run_split] by fastforce
qed

text \<open>
  C2.  If the handshake reports a connected client, then the client sent an authorised session with
  a connect command, and what was written to it is exactly the method reply, the login confirmation
  if a login was needed, and a success reply that carries some endpoint in the wire format.
\<close>

theorem connected_client_was_served:
  assumes "net_ok w"
    and "handshake_Execute (net_ops k e cfg lib) pton e cfg st heap w =
      (HS_Result (JR_CLIENT_MODE_CONNECT st'), s')"
  shows "\<exists>ss ep. session_ok cfg ss \<and> ss_cmd ss = 1 \<and> n_rwire (hs_w s') = n_rwire w @ enc_session ss \<and>
    n_wwire (hs_w s') = n_wwire w @ login_replies (ss_login ss) @ final_reply 0 ep"
  using net.Execute_sound [OF assms] by (auto simp: hs_sound_def)

theorem connected_client_was_served_witness:
  "\<exists>ss ep. session_ok demo_config ss \<and> ss_cmd ss = 1 \<and>
    n_rwire (hs_w (snd (demo_run (Dest_V4 [10, 0, 0, 1]) demo_sa4))) =
      n_rwire (demo_net (Dest_V4 [10, 0, 0, 1])) @ enc_session ss \<and>
    n_wwire (hs_w (snd (demo_run (Dest_V4 [10, 0, 0, 1]) demo_sa4))) =
      n_wwire (demo_net (Dest_V4 [10, 0, 0, 1])) @ login_replies (ss_login ss) @ final_reply 0 ep"
proof -
  obtain st' where "fst (demo_run (Dest_V4 [10, 0, 0, 1]) demo_sa4) = HS_Result (JR_CLIENT_MODE_CONNECT st')"
    using demo_run_facts(1) [of "Dest_V4 [10, 0, 0, 1]"] by auto
  with demo_run_split [of demo_sa4 "Dest_V4 [10, 0, 0, 1]"] show ?thesis
    by (intro connected_client_was_served [OF demo_net_ok]) simp
qed

text \<open>
  C3.  An authorised client is served, if all of the following holds: the bytes of its connect
  session arrive, in pieces of any size and with any number of notifications, before a wait of the
  handshake times out, and in the same sense its socket takes the replies; the destination is a
  literal address, or a name for which the resolver has a valid address; the kernel makes the socket
  and the connection; \<open>getsockname\<close> fills in bytes that read as a valid endpoint (as those of an IPv4
  socket do, and those of an IPv6 socket do not).  Then the handshake reports a connected client: it
  has read the whole session, dialled the first address of the destination and no other, and sent
  the replies with the endpoint \<open>getsockname\<close> reported.
\<close>

theorem handshake_connects_authorised_client:
  assumes "session_ok cfg ss" and "ss_cmd ss = 1" and "sends_session ss w"
    and "targets lib cfg pton (n_time w) (ss_dest ss) = a # others"
    and "accepting k" and "service_ok (Suc m) (n_svc w)"
    and "length (handlerClaims st) = 1" and "cs_handlerID (handlerClaimStates st ! 0) = n_client w"
    and "\<And>sock t. lib_sockname lib sock t = Some sa"
    and "IPEndpoint_sa e sa = Some ep" and "isValid (address ep)"
  shows "\<exists>st' s'. handshake_Execute (net_ops k e cfg lib) pton e cfg st heap w =
      (HS_Result (JR_CLIENT_MODE_CONNECT st'), s') \<and>
    n_rwire (hs_w s') = n_rwire w @ enc_session ss \<and>
    n_wwire (hs_w s') = n_wwire w @ login_replies (ss_login ss) @ final_reply 0 ep \<and>
    n_dials (hs_w s') = n_dials w @ [IPEndpoint a (ss_port ss)]"
proof -
  obtain out s' where run: "handshake_Execute (net_ops k e cfg lib) pton e cfg st heap w = (out, s')"
    by fastforce
  from execute_live(2) [OF assms(1-9) run assms(10,11)] run show ?thesis by blast
qed

theorem handshake_connects_authorised_client_witness:
  "\<exists>st' s'. demo_run demo_host demo_sa4 = (HS_Result (JR_CLIENT_MODE_CONNECT st'), s') \<and>
    n_rwire (hs_w s') = [] @ enc_session (demo_session demo_host) \<and>
    n_wwire (hs_w s') = [] @ login_replies (Some ([98, 111, 98], [112, 119])) @
      final_reply 0 (IPEndpoint (IPAddress_raw [192, 168, 0, 1]) 7) \<and>
    n_dials (hs_w s') = [] @ [IPEndpoint (IPAddress_raw [10, 0, 0, 1]) 80]"
proof -
  have "ss_cmd (demo_session demo_host) = 1" "ss_dest (demo_session demo_host) = demo_host"
      "length (handlerClaims (fst (Job_ClientHandshake demo_state demo_heap))) = 1"
      "cs_handlerID (handlerClaimStates (fst (Job_ClientHandshake demo_state demo_heap)) ! 0) =
        n_client (demo_net demo_host)"
      "\<And>sock t. lib_sockname (demo_lib demo_sa4) sock t = Some demo_sa4"
      "isValid (address (IPEndpoint (IPAddress_raw [192, 168, 0, 1]) 7))"
    by (simp_all add: demo_session_def demo_claims demo_net_def demo_lib_def IPAddress_raw_def IPV4_ADDR_LEN_def)
  note facts = this
  have tg: "targets (demo_lib demo_sa4) demo_config (\<lambda>v6 s. None) (n_time (demo_net demo_host))
      (ss_dest (demo_session demo_host)) = [IPAddress_raw [10, 0, 0, 1]]"
    unfolding facts(2) by (rule demo_host_targets)
  from handshake_connects_authorised_client [OF demo_session_ok [OF demo_host_ok] facts(1)
      demo_sends [OF demo_host_ok] tg open_kernel_accepting demo_service_ok [unfolded One_nat_def]
      facts(3-5) demo_ep4 facts(6)]
  show ?thesis
    by (simp add: demo_run_def demo_session_def demo_net_def)
qed

section \<open>IPv6 targets\<close>

text \<open>
  C37.  The same client run in which the target socket is an IPv6 one: \<open>getsockname\<close> is given a
  \<open>sockaddr\<close> of 16 bytes, and the conversion of the truncated IPv6 address reads past its end.  The
  handshake with an authorised client then has no defined result.
\<close>

theorem handshake_ipv6_endpoint_undefined:
  assumes "session_ok cfg ss" and "ss_cmd ss = 1" and "is_literal (ss_dest ss)" and "sends_session ss w"
    and "accepting k" and "service_ok (Suc m) (n_svc w)"
    and "length (handlerClaims st) = 1" and "cs_handlerID (handlerClaimStates st ! 0) = n_client w"
    and "\<And>sock t. lib_sockname lib sock t = Some sa"
    and "length sa = 16" and "sa_family e sa = Some AF_INET6"
  shows "fst (handshake_Execute (net_ops k e cfg lib) pton e cfg st heap w) = HS_Undefined"
proof -
  obtain out s' where run: "handshake_Execute (net_ops k e cfg lib) pton e cfg st heap w = (out, s')"
    by fastforce
  have "IPEndpoint_sa e sa = None"
    using assms(10,11) by (simp add: IPEndpoint_sa_overread)
  moreover obtain a others where "targets lib cfg pton (n_time w) (ss_dest ss) = a # others"
    using literal_targets [OF assms(3)] by (metis neq_Nil_conv)
  ultimately show ?thesis
    using execute_live(1) [OF assms(1,2,4) _ assms(5-9) run] run by simp
qed

theorem handshake_ipv6_endpoint_undefined_witness:
  "fst (demo_run (Dest_V6 (replicate 15 0 @ [1])) demo_sa6) = HS_Undefined"
proof -
  let ?dest = "Dest_V6 (replicate 15 0 @ [1])"
  have dest: "dest_ok ?dest" "is_literal ?dest" by simp_all
  have "ss_cmd (demo_session ?dest) = 1" "is_literal (ss_dest (demo_session ?dest))"
      "length (handlerClaims (fst (Job_ClientHandshake demo_state demo_heap))) = 1"
      "cs_handlerID (handlerClaimStates (fst (Job_ClientHandshake demo_state demo_heap)) ! 0) =
        n_client (demo_net ?dest)"
      "\<And>sock t. lib_sockname (demo_lib demo_sa6) sock t = Some demo_sa6" "length demo_sa6 = 16"
    by (simp_all add: demo_session_def demo_claims demo_net_def demo_lib_def demo_sa6_def)
  moreover have "sa_family LittleEndian demo_sa6 = Some AF_INET6" by code_simp
  ultimately show ?thesis
    unfolding demo_run_def
    by (intro handshake_ipv6_endpoint_undefined [OF demo_session_ok [OF dest(1)] _ _ demo_sends [OF dest(1)]
      open_kernel_accepting demo_service_ok [unfolded One_nat_def]]) simp_all
qed

section \<open>Claims\<close>

text \<open>
  C4.  A handshake job leaves every claim counter as it was before the job was created, whatever
  the peers, the network and the resolver do: each result is reported with the claims of the job
  released, a connection made on the way is added as one more claim, whose counter is back at
  zero, and the job reports a connected client only with such a connection.  The snapshots in the
  reported state are the counters of the heap.
\<close>

theorem handshake_releases_claims:
  assumes "state_ok heap st" and "Job_ClientHandshake st heap = (st1, heap1)"
    and "handshake_Execute ops pton e cfg st1 heap1 w = (HS_Result res, s')"
  shows "\<exists>targets st'. length targets \<le> 1 \<and>
    hs_heap s' = heap @ map (\<lambda>t. \<lparr>counter = 0, handlerID = t\<rparr>) targets \<and>
    handlerClaims st' = handlerClaims st @ map (\<lambda>t. length heap) targets \<and>
    handlerClaimStates st' = map (claim_snapshot (hs_heap s')) (handlerClaims st') \<and>
    (res = JR_TERMINAL st' \<or> res = JR_CLIENT_MODE_CONNECT st' \<and> targets \<noteq> [])"
proof -
  obtain target st2 heap2 st' where ends: "with_target target st1 heap1 = (st2, heap2)"
      "DisclaimAllHandlers st2 heap2 = (st', hs_heap s')"
      "res = JR_TERMINAL st' \<or> res = JR_CLIENT_MODE_CONNECT st' \<and> target \<noteq> None"
    using handshake_Execute_claims [OF assms(3)] by (auto simp: hs_ends_def)
  then show ?thesis
    using job_claims_balance [OF assms(1,2) ends(1,2)]
    by (intro exI [of _ "case target of None \<Rightarrow> [] | Some t \<Rightarrow> [t]"] exI [of _ st'])
      (auto split: option.splits)
qed

theorem handshake_releases_claims_witness:
  "\<exists>targets st' res s'. demo_run (Dest_V4 [10, 0, 0, 1]) demo_sa4 = (HS_Result res, s') \<and>
    length targets \<le> 1 \<and>
    hs_heap s' = demo_heap @ map (\<lambda>t. \<lparr>counter = 0, handlerID = t\<rparr>) targets \<and>
    handlerClaims st' = handlerClaims demo_state @ map (\<lambda>t. length demo_heap) targets \<and>
    handlerClaimStates st' = map (claim_snapshot (hs_heap s')) (handlerClaims st') \<and>
    (res = JR_TERMINAL st' \<or> res = JR_CLIENT_MODE_CONNECT st' \<and> targets \<noteq> [])"
proof -
  obtain res where "fst (demo_run (Dest_V4 [10, 0, 0, 1]) demo_sa4) = HS_Result res"
    using demo_run_facts(1) [of "Dest_V4 [10, 0, 0, 1]"] by auto
  then have run: "demo_run (Dest_V4 [10, 0, 0, 1]) demo_sa4 =
      (HS_Result res, snd (demo_run (Dest_V4 [10, 0, 0, 1]) demo_sa4))"
    by (metis prod.collapse)
  have "state_ok demo_heap demo_state" by (simp add: state_ok_def demo_heap_def demo_state_def)
  from handshake_releases_claims [OF this prod.collapse [symmetric] run [unfolded demo_run_def]]
  show ?thesis using run unfolding demo_run_def by blast
qed

end
