(* ===== verification/TCP_Tunnel.thy ===== *)
theory TCP_Tunnel
  imports Comm_Service "HOL-Library.Sublist"
begin

text \<open>
  \<open>src/Src/Job_TCPTunnel.*\<close>: one direction of an established connection.  The job copies what it
  reads from one handler to the writer of the other until one side fails or it is cancelled.

  The methods it calls are the fields of \<open>tn_ops\<close> over a world of any type.  The loops of the
  source may run forever, so they are partial functions: \<open>None\<close> is a run that does not end.
\<close>

section \<open>The job\<close>

record 'w tn_ops =
  tn_cancelled :: "'w \<Rightarrow> bool \<times> 'w"
  tn_handler :: "u64 \<Rightarrow> 'w \<Rightarrow> int option"
  tn_read :: "u64 \<Rightarrow> 'w transfer"
  tn_write :: "u64 \<Rightarrow> 'w transfer"
  tn_rstatus :: "u64 \<Rightarrow> 'w \<Rightarrow> int \<times> 'w"
  tn_wstatus :: "u64 \<Rightarrow> 'w \<Rightarrow> int \<times> 'w"
  tn_rshutdown :: "u64 \<Rightarrow> 'w \<Rightarrow> 'w"
  tn_wshutdown :: "u64 \<Rightarrow> 'w \<Rightarrow> 'w"

text \<open>The constructor claims the handlers of the state it is given.\<close>

definition Job_TCPTunnel :: "job_state \<Rightarrow> claim_heap \<Rightarrow> job_state \<times> claim_heap" where
  "Job_TCPTunnel st heap = ClaimAllHandlers st heap"

definition TerminalResultDisclaim :: "job_state \<Rightarrow> claim_heap \<Rightarrow> job_result \<times> claim_heap" where
  "TerminalResultDisclaim st heap =
     (let (st', heap') = DisclaimAllHandlers st heap in (JR_TERMINAL st', heap'))"

text \<open>The inner loop: \<open>dr\<close> bytes are written until something else than a timeout happens.\<close>

partial_function (option) tunnel_write :: "'w tn_ops \<Rightarrow> u64 \<Rightarrow> u64 \<Rightarrow> bytes \<Rightarrow> int \<Rightarrow> 'w \<Rightarrow>
    (int \<times> bytes \<times> 'w) option" where
  "tunnel_write ops rid wid buf dr w =
     (case tn_write ops wid buf dr False w of (st, buf', w1) \<Rightarrow>
      if st = 0
      then (case tn_rstatus ops rid w1 of (st2, w2) \<Rightarrow>
            if st2 = 0 then tunnel_write ops rid wid buf' dr w2 else Some (st2, buf', w2))
      else Some (st, buf', w1))"

text \<open>The main loop.\<close>

partial_function (option) tunnel_loop :: "'w tn_ops \<Rightarrow> u64 \<Rightarrow> u64 \<Rightarrow> bytes \<Rightarrow> 'w \<Rightarrow> 'w option" where
  "tunnel_loop ops rid wid buf w =
     (case tn_cancelled ops w of (cancel, w0) \<Rightarrow>
      if cancel then Some w0
      else case tn_wstatus ops wid w0 of (st, w1) \<Rightarrow>
      if st < 0 then Some w1
      else case tn_read ops rid buf (int (length buf)) True w1 of (dr, buf1, w2) \<Rightarrow>
      if dr < 0 then Some w2
      else if dr = 0 then tunnel_loop ops rid wid buf1 w2
      else Option.bind (tunnel_write ops rid wid buf1 dr w2) (\<lambda>(st2, buf2, w3).
        if st2 < 0 then Some w3 else tunnel_loop ops rid wid buf2 w3))"

declare tunnel_write.simps [code] and tunnel_loop.simps [code]

definition tunnel_Execute :: "'w tn_ops \<Rightarrow> config \<Rightarrow> bool \<Rightarrow> job_state \<Rightarrow> claim_heap \<Rightarrow> 'w \<Rightarrow>
    ((job_result \<times> claim_heap) \<times> 'w) option" where
  "tunnel_Execute ops cfg isRd st heap w =
     (if length (handlerClaims st) \<noteq> 2 then Some (TerminalResultDisclaim st heap, w)
      else
      let buff = replicate (nat (GetTCPBuffSz cfg)) 0;
          rid = cs_handlerID (handlerClaimStates st ! (if isRd then 1 else 0));
          wid = cs_handlerID (handlerClaimStates st ! (if isRd then 0 else 1))
      in if tn_handler ops rid w = None \<or> tn_handler ops wid w = None
      then Some (TerminalResultDisclaim st heap, w)
      else case tunnel_loop ops rid wid buff w of
        None \<Rightarrow> None
      | Some w1 \<Rightarrow>
          Some (TerminalResultDisclaim st heap, tn_wshutdown ops wid (tn_rshutdown ops rid w1)))"

text \<open>\<open>Cancel\<close> sets the flag; only the first call logs.\<close>

definition tunnel_Cancel :: "bool \<Rightarrow> bool" where
  "tunnel_Cancel cancel = True"

section \<open>What a tunnel delivers\<close>

text \<open>
  Input and output of a tunnel whose writes may stall: each chunk is delivered completely, after any
  number of attempts that delivered a proper prefix of it only, of which \<open>stall\<close> holds.
\<close>

definition stalled :: "(bytes \<Rightarrow> bool) \<Rightarrow> bytes \<Rightarrow> bytes \<Rightarrow> bool" where
  "stalled stall c p \<longleftrightarrow> strict_prefix p c \<and> stall p"

inductive relayed :: "(bytes \<Rightarrow> bool) \<Rightarrow> bytes \<Rightarrow> bytes \<Rightarrow> bool" for stall where
  relayed_Nil: "relayed stall [] []"
| relayed_chunk: "relayed stall i out \<Longrightarrow> list_all (stalled stall c) ps \<Longrightarrow>
    relayed stall (i @ c) (out @ concat ps @ c)"

text \<open>At the end the last chunk may be undelivered.\<close>

definition tunnelled :: "(bytes \<Rightarrow> bool) \<Rightarrow> bytes \<Rightarrow> bytes \<Rightarrow> bool" where
  "tunnelled stall i out \<longleftrightarrow> (\<exists>i1 out1 c ps. i = i1 @ c \<and> out = out1 @ concat ps \<and> relayed stall i1 out1 \<and>
     list_all (stalled stall c) ps)"

lemma relayed_append:
  assumes "relayed stall i' out'" and "relayed stall i out"
  shows "relayed stall (i @ i') (out @ out')"
  using assms
proof (induction rule: relayed.induct)
  case relayed_Nil
  then show ?case by simp
next
  case (relayed_chunk i' out' c ps)
  then have "relayed stall ((i @ i') @ c) ((out @ out') @ concat ps @ c)"
    by (intro relayed.relayed_chunk) simp_all
  then show ?case by simp
qed

lemma relayed_one: "list_all (stalled stall c) ps \<Longrightarrow> relayed stall c (concat ps @ c)"
  using relayed_chunk [OF relayed_Nil, of stall c ps] by simp

lemma tunnelled_prepend: "relayed stall i out \<Longrightarrow> tunnelled stall i' out' \<Longrightarrow> tunnelled stall (i @ i') (out @ out')"
  unfolding tunnelled_def
proof (elim exE conjE)
  fix i1 out1 c ps
  assume "relayed stall i out" "i' = i1 @ c" "out' = out1 @ concat ps" "relayed stall i1 out1"
    "list_all (stalled stall c) ps"
  then show "\<exists>i1 out1 c ps. i @ i' = i1 @ c \<and> out @ out' = out1 @ concat ps \<and> relayed stall i1 out1 \<and>
     list_all (stalled stall c) ps"
    using relayed_append [of stall i1 out1 i out]
    by (intro exI [of _ "i @ i1"] exI [of _ "out @ out1"] exI [of _ c] exI [of _ ps]) simp
qed

lemma tunnelled_Nil: "tunnelled stall [] []"
  by (auto simp: tunnelled_def intro!: exI [of _ "[]"] relayed_Nil)

lemma tunnelled_stuck: "list_all (stalled stall c) ps \<Longrightarrow> tunnelled stall c (concat ps)"
  unfolding tunnelled_def
  by (intro exI [of _ "[]"] exI [of _ c] exI [of _ ps]) (simp add: relayed_Nil)

section \<open>The tunnel's environment\<close>

lemma strict_prefix_take:
  assumes "k < n" and "n \<le> length xs"
  shows "strict_prefix (take k xs) (take n xs)"
proof -
  have "take k xs = take k (take n xs)" using assms by simp
  then have "prefix (take k xs) (take n xs)" by (metis take_is_prefix)
  moreover have "length (take k xs) \<noteq> length (take n xs)" using assms by simp
  ultimately show ?thesis by (metis strict_prefix_def)
qed

lemmas tunnel_write_induct = tunnel_write.raw_induct [rotated, consumes 1, case_names step]
lemmas tunnel_loop_induct = tunnel_loop.raw_induct [rotated, consumes 1, case_names step]

lemma tunnel_write_nonzero: "tunnel_write ops rid wid buf dr w = Some y \<Longrightarrow> fst y \<noteq> 0"
proof (induction rule: tunnel_write_induct)
  case (step self ops rid wid buf dr w y)
  obtain st buf' w1 where wr: "tn_write ops wid buf dr False w = (st, buf', w1)" by (metis prod.collapse)
  obtain st2 w2 where rs: "tn_rstatus ops rid w1 = (st2, w2)" by fastforce
  show ?case
    using step.hyps [unfolded wr prod.case rs] step.IH [of ops rid wid buf' dr w2 y]
    by (auto split: if_splits)
qed

locale tunnel_io =
  rd: icomm_helper "tn_read ops rid" rwire ok + wr: icomm_helper "tn_write ops wid" wwire ok
  for ops :: "'w tn_ops" and rid wid :: u64 and rwire wwire :: "'w \<Rightarrow> bytes" and ok :: "'w \<Rightarrow> bool" +
  fixes stall :: "bytes \<Rightarrow> bool" and bsz :: nat
  assumes tread_frame: "tn_read ops rid buf len p w = (r, buf', w') \<Longrightarrow> wwire w' = wwire w"
    and twrite_frame: "tn_write ops wid buf len p w = (r, buf', w') \<Longrightarrow> rwire w' = rwire w"
    and twrite_keeps_buffer: "ok w \<Longrightarrow> len \<le> int (length buf) \<Longrightarrow>
      tn_write ops wid buf len p w = (r, buf', w') \<Longrightarrow> buf' = buf"
    and write_stalls: "ok w \<Longrightarrow> 0 < len \<Longrightarrow> len \<le> int (length buf) \<Longrightarrow> length buf = bsz \<Longrightarrow>
      tn_write ops wid buf len False w = (r, buf', w') \<Longrightarrow> r \<le> 0 \<Longrightarrow>
      \<exists>p. stalled stall (take (nat len) buf) p \<and> wwire w' = wwire w @ p"
    and cancelled_frame: "tn_cancelled ops w = (b, w') \<Longrightarrow>
      ok w' = ok w \<and> rwire w' = rwire w \<and> wwire w' = wwire w"
    and rstatus_frame: "ok w \<Longrightarrow> tn_rstatus ops rid w = (st, w') \<Longrightarrow>
      ok w' \<and> rwire w' = rwire w \<and> wwire w' = wwire w \<and> st \<le> 0"
    and wstatus_frame: "ok w \<Longrightarrow> tn_wstatus ops wid w = (st, w') \<Longrightarrow>
      ok w' \<and> rwire w' = rwire w \<and> wwire w' = wwire w"
begin

lemma write_attempt:
  assumes "ok w" and "0 < dr" and "dr \<le> int (length buf)"
    and "tn_write ops wid buf dr False w = (st, buf', w')" and "length buf = bsz"
  shows "ok w' \<and> buf' = buf \<and> rwire w' = rwire w \<and>
    (if 0 < st then wwire w' = wwire w @ take (nat dr) buf
     else \<exists>p. stalled stall (take (nat dr) buf) p \<and> wwire w' = wwire w @ p)"
proof -
  have frame: "ok w'" "buf' = buf" "rwire w' = rwire w"
    using wr.transfer_keeps_ok [OF assms(1,3,4)] twrite_keeps_buffer [OF assms(1,3,4)] twrite_frame [OF assms(4)]
    by simp_all
  show ?thesis
  proof (cases "0 < st")
    case True
    then have "st = dr" using wr.transfer_all_or_nothing [OF assms(1,3,4)] by simp
    then show ?thesis using wr.transfer_some [OF assms(1,3,4) True] frame True by simp
  next
    case False
    then have "\<exists>p. stalled stall (take (nat dr) buf) p \<and> wwire w' = wwire w @ p"
      using write_stalls [OF assms(1,2,3,5,4)] by simp
    with frame False show ?thesis by simp
  qed
qed

text \<open>Any completed run of the inner loop.\<close>

lemma tunnel_write_relays:
  assumes "tunnel_write ops' rid' wid' buf dr w = Some y" and "ops' = ops" and "rid' = rid" and "wid' = wid"
    and "ok w" and "0 < dr" and "dr \<le> int (length buf)" and "length buf = bsz"
  shows "case y of (st, buf', w') \<Rightarrow> ok w' \<and> buf' = buf \<and> rwire w' = rwire w \<and>
    (\<exists>ps. list_all (stalled stall (take (nat dr) buf)) ps \<and>
      wwire w' = wwire w @ concat ps @ (if 0 < st then take (nat dr) buf else []))"
  using assms
proof (induction rule: tunnel_write_induct)
  case (step self ops' rid' wid' buf dr w y)
  let ?c = "take (nat dr) buf"
  obtain st buf' w1 where wr: "tn_write ops wid buf dr False w = (st, buf', w1)" by (metis prod.collapse)
  note one = write_attempt [OF step.prems(4,5,6) wr step.prems(7)]
  show ?case
  proof (cases "st = 0")
    case False
    then have y: "y = (st, buf', w1)" using step.hyps step.prems(1-3) wr by simp
    show ?thesis
    proof (cases "0 < st")
      case True
      then show ?thesis using one y by (auto intro!: exI [of _ "[]"])
    next
      case False
      then obtain p where "stalled stall ?c p" "wwire w1 = wwire w @ p" using one by auto
      then show ?thesis using one y False by (auto intro!: exI [of _ "[p]"])
    qed
  next
    case True
    then obtain p where p: "stalled stall ?c p" "wwire w1 = wwire w @ p" using one by auto
    obtain st2 w2 where rs: "tn_rstatus ops rid w1 = (st2, w2)" by fastforce
    note two = rstatus_frame [OF conjunct1 [OF one] rs]
    show ?thesis
    proof (cases "st2 = 0")
      case False
      then have "y = (st2, buf', w2)" using step.hyps step.prems(1-3) wr rs True by simp
      then show ?thesis using one two p False by (auto intro!: exI [of _ "[p]"])
    next
      case again: True
      then have "self ops rid wid buf dr w2 = Some y"
        using step.hyps step.prems(1-3) wr rs True one by simp
      from step.IH [OF this refl refl refl _ step.prems(5,6,7)] two obtain ps st3 buf3 w3 where
        "y = (st3, buf3, w3)" "ok w3" "buf3 = buf" "rwire w3 = rwire w2" "list_all (stalled stall ?c) ps"
        "wwire w3 = wwire w2 @ concat ps @ (if 0 < st3 then ?c else [])" by (auto split: prod.splits)
      then show ?thesis using one two p by (auto intro!: exI [of _ "p # ps"])
    qed
  qed
qed

text \<open>Any completed run of the tunnel.\<close>

lemma tunnel_loop_relays:
  assumes "tunnel_loop ops' rid' wid' buf w = Some w'" and "ops' = ops" and "rid' = rid" and "wid' = wid"
    and "ok w" and "length buf = bsz"
  shows "\<exists>i out. ok w' \<and> rwire w' = rwire w @ i \<and> wwire w' = wwire w @ out \<and> tunnelled stall i out"
  using assms
proof (induction rule: tunnel_loop_induct)
  case (step self ops' rid' wid' buf w w')
  obtain b w0 where c: "tn_cancelled ops w = (b, w0)" by fastforce
  obtain st w1 where s: "tn_wstatus ops wid w0 = (st, w1)" by fastforce
  obtain dr buf1 w2 where r: "tn_read ops rid buf (int (length buf)) True w1 = (dr, buf1, w2)"
    by (metis prod.collapse)
  have w0: "ok w0" "rwire w0 = rwire w" "wwire w0 = wwire w"
    using cancelled_frame [OF c] step.prems(4) by auto
  have w1: "ok w1" "rwire w1 = rwire w" "wwire w1 = wwire w"
    using wstatus_frame [OF w0(1) s] w0 by auto
  have w2: "ok w2" "wwire w2 = wwire w" "length buf1 = length buf"
    using rd.transfer_keeps_ok [OF w1(1) _ r] rd.transfer_length [OF w1(1) _ r] tread_frame [OF r] w1 by auto
  have idle: "\<exists>i out. ok v \<and> rwire v = rwire w @ i \<and> wwire v = wwire w @ out \<and> tunnelled stall i out"
    if "ok v" "rwire v = rwire w" "wwire v = wwire w" for v
    using that tunnelled_Nil by (intro exI [of _ "[]"]) simp
  note run = step.hyps [unfolded step.prems(1-3) c s r prod.case]
  consider "b \<or> st < 0" | "\<not> b" "\<not> st < 0" "dr \<le> 0" | "\<not> b" "\<not> st < 0" "0 < dr" by linarith
  then show ?case
  proof cases
    case 1
    then show ?thesis using run idle w0 w1 by (cases b) auto
  next
    case 2
    then have same: "rwire w2 = rwire w"
      using rd.transfer_partial_none [OF w1(1) _ r] w1 by simp
    show ?thesis
    proof (cases "dr < 0")
      case True
      then show ?thesis using run 2 idle [OF w2(1) same w2(2)] by simp
    next
      case False
      then have "self ops rid wid buf1 w2 = Some w'" using run 2 by simp
      from step.IH [OF this refl refl refl w2(1)] same w2 step.prems(5) show ?thesis by simp
    qed
  next
    case 3
    let ?c = "take (nat dr) buf1"
    have dr: "dr \<le> int (length buf1)" "rwire w2 = rwire w @ ?c"
      using rd.transfer_some [OF w1(1) _ r 3(3)] w1 w2 by auto
    obtain st2 buf2 w3 where wr: "tunnel_write ops rid wid buf1 dr w2 = Some (st2, buf2, w3)"
        and cont: "(if st2 < 0 then Some w3 else self ops rid wid buf2 w3) = Some w'"
      using run 3 by (auto simp: bind_eq_Some_conv)
    obtain ps where ps: "ok w3" "buf2 = buf1" "rwire w3 = rwire w2" "list_all (stalled stall ?c) ps"
        "wwire w3 = wwire w2 @ concat ps @ (if 0 < st2 then ?c else [])"
      using tunnel_write_relays [OF wr refl refl refl w2(1) 3(3) dr(1)] w2(3) step.prems(5) by auto
    have nz: "st2 \<noteq> 0" using tunnel_write_nonzero [OF wr] by simp
    show ?thesis
    proof (cases "st2 < 0")
      case True
      then show ?thesis
        using cont ps dr w2 tunnelled_stuck [OF ps(4)] by (intro exI [of _ ?c] exI [of _ "concat ps"]) simp
    next
      case False
      then have "self ops rid wid buf2 w3 = Some w'" using cont by simp
      from step.IH [OF this refl refl refl ps(1)] ps(2) w2(3) step.prems(5) obtain i out where
        io: "ok w'" "rwire w' = rwire w3 @ i" "wwire w' = wwire w3 @ out" "tunnelled stall i out" by blast
      have "tunnelled stall (?c @ i) ((concat ps @ ?c) @ out)"
        using tunnelled_prepend [OF relayed_one [OF ps(4)] io(4)] .
      then show ?thesis
        using io ps dr w2 False nz
        by (intro exI [of _ "?c @ i"] exI [of _ "(concat ps @ ?c) @ out"]) simp
    qed
  qed
qed

end

section \<open>Tunnels over TCP helpers\<close>

text \<open>
  The world of one tunnel job: what each test of its cancel flag reads, the reader of one handler and
  the writer of the other (the shared helper objects \<open>GetHandler\<close> returned), and the notifications
  that arrive before each call of \<open>GetStatus\<close>.
\<close>

record tun =
  t_cancel :: "bool list"
  t_rid :: u64
  t_wid :: u64
  t_rd :: chan
  t_wr :: chan
  t_rnotes :: "notify list list"
  t_wnotes :: "notify list list"

definition chan_status :: "notify list list \<Rightarrow> chan \<Rightarrow> int \<times> chan" where
  "chan_status ns c =
     (let h = deliver_all (case ns of [] \<Rightarrow> [] | n # _ \<Rightarrow> n) (ch_h c)
      in (GetStatus h, c\<lparr>ch_h := h\<rparr>))"

definition chan_shutdown :: "chan \<Rightarrow> chan" where
  "chan_shutdown c = (let (cs, h) = Shutdown (ch_h c) in c\<lparr>ch_h := h, ch_calls := ch_calls c @ cs\<rparr>)"

definition tun_ops :: "tun tn_ops" where
  "tun_ops =
     \<lparr>tn_cancelled = (\<lambda>w. case t_cancel w of [] \<Rightarrow> (False, w) | b # bs \<Rightarrow> (b, w\<lparr>t_cancel := bs\<rparr>)),
      tn_handler = (\<lambda>hid w. if hid = t_rid w then Some (fd (ch_h (t_rd w)))
         else if hid = t_wid w then Some (fd (ch_h (t_wr w))) else None),
      tn_read = (\<lambda>hid buf len p w.
         if hid = t_rid w then (case chan_transfer buf len p (t_rd w) of (r, buf', c) \<Rightarrow> (r, buf', w\<lparr>t_rd := c\<rparr>))
         else (-1, buf, w)),
      tn_write = (\<lambda>hid buf len p w.
         if hid = t_wid w then (case chan_transfer buf len p (t_wr w) of (r, buf', c) \<Rightarrow> (r, buf', w\<lparr>t_wr := c\<rparr>))
         else (-1, buf, w)),
      tn_rstatus = (\<lambda>hid w. case chan_status (t_rnotes w) (t_rd w) of (st, c) \<Rightarrow>
         (st, w\<lparr>t_rd := c, t_rnotes := tl (t_rnotes w)\<rparr>)),
      tn_wstatus = (\<lambda>hid w. case chan_status (t_wnotes w) (t_wr w) of (st, c) \<Rightarrow>
         (st, w\<lparr>t_wr := c, t_wnotes := tl (t_wnotes w)\<rparr>)),
      tn_rshutdown = (\<lambda>hid w. w\<lparr>t_rd := chan_shutdown (t_rd w)\<rparr>),
      tn_wshutdown = (\<lambda>hid w. w\<lparr>t_wr := chan_shutdown (t_wr w)\<rparr>)\<rparr>"

text \<open>
  \<open>sm\<close> asks in addition that the writer's socket never has room for a part of a transfer only.
\<close>

definition tun_ok :: "bool \<Rightarrow> nat \<Rightarrow> u64 \<Rightarrow> u64 \<Rightarrow> tun \<Rightarrow> bool" where
  "tun_ok sm bsz rid wid w \<longleftrightarrow> t_rid w = rid \<and> t_wid w = wid \<and> helper_ok (ch_h (t_rd w)) \<and>
     helper_ok (ch_h (t_wr w)) \<and> \<not> isReader (ch_h (t_wr w)) \<and>
     (sm \<longrightarrow> list_all (list_all (smooth (int bsz))) (ch_script (t_wr w)))"

definition stall_of :: "bool \<Rightarrow> bytes \<Rightarrow> bool" where
  "stall_of sm p \<longleftrightarrow> (sm \<longrightarrow> p = [])"

lemma list_all_tl: "list_all P xs \<Longrightarrow> list_all P (tl xs)"
  by (cases xs) simp_all

lemma GetStatus_le: "helper_ok h \<Longrightarrow> GetStatus h \<le> 0"
  by (auto simp: GetStatus_def helper_ok_def)

lemma chan_status_ok:
  "chan_status ns c = (st, c') \<Longrightarrow> helper_ok (ch_h c) \<Longrightarrow>
     helper_ok (ch_h c') \<and> isReader (ch_h c') = isReader (ch_h c) \<and> ch_wire c' = ch_wire c \<and>
     ch_script c' = ch_script c \<and> st \<le> 0"
  by (auto simp: chan_status_def Let_def helper_ok_deliver_all GetStatus_le)

lemma tun_readE:
  assumes "tun_ok sm bsz rid wid w" and "tn_read tun_ops rid buf len p w = (r, buf', w')"
  obtains c where "chan_transfer buf len p (t_rd w) = (r, buf', c)" and "w' = w\<lparr>t_rd := c\<rparr>" and "tun_ok sm bsz rid wid w'"
proof -
  obtain c where c: "chan_transfer buf len p (t_rd w) = (r, buf', c)" "w' = w\<lparr>t_rd := c\<rparr>"
    using assms by (auto simp: tun_ops_def tun_ok_def split: prod.splits)
  moreover have "tun_ok sm bsz rid wid w'"
    using chan_transfer_helper [OF c(1)] c assms(1)
    by (auto simp: tun_ok_def chan_transfer_def list_all_tl Let_def split: prod.splits)
  ultimately show ?thesis using that by blast
qed

lemma tun_writeE:
  assumes "tun_ok sm bsz rid wid w" and "tn_write tun_ops wid buf len p w = (r, buf', w')"
  obtains c where "chan_transfer buf len p (t_wr w) = (r, buf', c)" and "w' = w\<lparr>t_wr := c\<rparr>" and "tun_ok sm bsz rid wid w'"
proof -
  obtain c where c: "chan_transfer buf len p (t_wr w) = (r, buf', c)" "w' = w\<lparr>t_wr := c\<rparr>"
    using assms by (auto simp: tun_ops_def tun_ok_def split: prod.splits)
  moreover have "tun_ok sm bsz rid wid w'"
    using chan_transfer_helper [OF c(1)] c assms(1)
    by (auto simp: tun_ok_def chan_transfer_def list_all_tl Let_def split: prod.splits)
  ultimately show ?thesis using that by blast
qed

lemma tun_write_stalls:
  assumes "tun_ok sm bsz rid wid w" and "0 < len" and "len \<le> int (length buf)" and "length buf = bsz"
    and "tn_write tun_ops wid buf len False w = (r, buf', w')" and "r \<le> 0"
  shows "\<exists>p. stalled (stall_of sm) (take (nat len) buf) p \<and> ch_wire (t_wr w') = ch_wire (t_wr w) @ p"
proof -
  obtain c where c: "chan_transfer buf len False (t_wr w) = (r, buf', c)" "w' = w\<lparr>t_wr := c\<rparr>"
    using tun_writeE [OF assms(1,5)] .
  have ok: "helper_ok (ch_h (t_wr w))" "\<not> isReader (ch_h (t_wr w))" using assms(1) by (simp_all add: tun_ok_def)
  have buf: "buf' = buf" by (rule chan_write_keeps_buffer [OF c(1) ok assms(3)])
  obtain k where k: "int k < len" "ch_wire c = ch_wire (t_wr w) @ take k buf"
    using tcp.transfer_none [OF ok(1) assms(2,3) c(1) assms(6)] buf by auto
  have pre: "strict_prefix (take k buf) (take (nat len) buf)"
    using k(1) assms(3) by (intro strict_prefix_take) auto
  have "take k buf = []" if sm
  proof -
    define ss where "ss = (case ch_script (t_wr w) of [] \<Rightarrow> [] | ss # _ \<Rightarrow> ss)"
    have "list_all (smooth (int bsz)) ss"
      using assms(1) that by (cases "ch_script (t_wr w)") (auto simp: ss_def tun_ok_def)
    then have "list_all (smooth len) ss"
      using assms(3,4) by (auto simp: list_all_iff smooth_def)
    then have "ch_wire c = ch_wire (t_wr w)"
      using c(1) Transfer_smooth_none [of ss buf len False "ch_h (t_wr w)"] assms(6) ok(2)
      by (auto simp: chan_transfer_def ss_def [symmetric] Let_def split: prod.splits)
    then show ?thesis using k(2) by simp
  qed
  then show ?thesis using k(2) pre c(2) by (auto simp: stalled_def stall_of_def)
qed

interpretation tun: tunnel_io tun_ops rid wid "\<lambda>w. ch_wire (t_rd w)" "\<lambda>w. ch_wire (t_wr w)" "tun_ok sm bsz rid wid"
    "stall_of sm" bsz
  for rid wid sm bsz
proof (intro tunnel_io.intro tunnel_io_axioms.intro, goal_cases)
  case 1
  show ?case
  proof (rule icomm_helper_via_chan)
    fix w buf len p r buf' w'
    assume ok: "tun_ok sm bsz rid wid w" and run: "tn_read tun_ops rid buf len p w = (r, buf', w')"
    from tun_readE [OF this] obtain c where
      "chan_transfer buf len p (t_rd w) = (r, buf', c)" "w' = w\<lparr>t_rd := c\<rparr>" "tun_ok sm bsz rid wid w'" .
    then show "\<exists>c c'. helper_ok (ch_h c) \<and> chan_transfer buf len p c = (r, buf', c') \<and>
        ch_wire (t_rd w') = ch_wire c' \<and> ch_wire (t_rd w) = ch_wire c \<and> tun_ok sm bsz rid wid w'"
      using ok by (intro exI [of _ "t_rd w"] exI [of _ c]) (simp add: tun_ok_def)
  qed
next
  case 2
  show ?case
  proof (rule icomm_helper_via_chan)
    fix w buf len p r buf' w'
    assume ok: "tun_ok sm bsz rid wid w" and run: "tn_write tun_ops wid buf len p w = (r, buf', w')"
    from tun_writeE [OF this] obtain c where
      "chan_transfer buf len p (t_wr w) = (r, buf', c)" "w' = w\<lparr>t_wr := c\<rparr>" "tun_ok sm bsz rid wid w'" .
    then show "\<exists>c c'. helper_ok (ch_h c) \<and> chan_transfer buf len p c = (r, buf', c') \<and>
        ch_wire (t_wr w') = ch_wire c' \<and> ch_wire (t_wr w) = ch_wire c \<and> tun_ok sm bsz rid wid w'"
      using ok by (intro exI [of _ "t_wr w"] exI [of _ c]) (simp add: tun_ok_def)
  qed
next
  case (3 buf len p w r buf' w')
  then show ?case by (auto simp: tun_ops_def split: if_splits prod.splits)
next
  case (4 buf len p w r buf' w')
  then show ?case by (auto simp: tun_ops_def split: if_splits prod.splits)
next
  case (5 w len buf p r buf' w')
  from 5(1,3) obtain c where "chan_transfer buf len p (t_wr w) = (r, buf', c)"
    by (rule tun_writeE)
  with 5(1,2) show ?case by (auto simp: tun_ok_def intro: chan_write_keeps_buffer)
next
  case (6 w len buf r buf' w')
  then show ?case using tun_write_stalls by blast
next
  case (7 w b w')
  then show ?case by (auto simp: tun_ops_def tun_ok_def split: list.splits)
next
  case (8 w st w')
  then show ?case by (auto simp: tun_ops_def tun_ok_def split: prod.splits dest!: chan_status_ok)
next
  case (9 w st w')
  then show ?case by (auto simp: tun_ops_def tun_ok_def split: prod.splits dest!: chan_status_ok)
qed

lemma relayed_exact: "relayed (stall_of True) i out \<Longrightarrow> out = i"
proof (induction rule: relayed.induct)
  case (relayed_chunk i out c ps)
  then have "concat ps = []" by (auto simp: list_all_iff stalled_def stall_of_def)
  with relayed_chunk show ?case by simp
qed simp

lemma tunnelled_exact: "tunnelled (stall_of True) i out \<Longrightarrow> prefix out i"
proof -
  assume "tunnelled (stall_of True) i out"
  then obtain i1 out1 c ps where split: "i = i1 @ c" "out = out1 @ concat ps" "relayed (stall_of True) i1 out1"
      "list_all (stalled (stall_of True) c) ps"
    by (auto simp: tunnelled_def)
  then have "concat ps = []" by (auto simp: list_all_iff stalled_def stall_of_def)
  then have "out = i1" using split(2) relayed_exact [OF split(3)] by (metis append_Nil2)
  then show "prefix out i" using split(1) by simp
qed

section \<open>Properties of the job\<close>

definition tunnel_ids :: "bool \<Rightarrow> job_state \<Rightarrow> u64 \<times> u64" where
  "tunnel_ids isRd st =
     (cs_handlerID (handlerClaimStates st ! (if isRd then 1 else 0)),
      cs_handlerID (handlerClaimStates st ! (if isRd then 0 else 1)))"

lemma chan_shutdown_wire [simp]: "ch_wire (chan_shutdown c) = ch_wire c"
  by (simp add: chan_shutdown_def split: prod.splits)

lemma tunnel_Execute_relays:
  assumes "tunnel_Execute tun_ops cfg isRd st heap w = Some (res, w')"
    and "tun_ok sm (nat (GetTCPBuffSz cfg)) (fst (tunnel_ids isRd st)) (snd (tunnel_ids isRd st)) w"
  shows "res = TerminalResultDisclaim st heap \<and>
    (\<exists>i out. ch_wire (t_rd w') = ch_wire (t_rd w) @ i \<and> ch_wire (t_wr w') = ch_wire (t_wr w) @ out \<and>
      tunnelled (stall_of sm) i out)"
proof (cases "w' = w")
  case True
  then show ?thesis
    using assms(1) tunnelled_Nil
    by (auto simp: tunnel_Execute_def Let_def split: if_splits option.splits intro!: exI [of _ "[]"])
next
  case False
  let ?rid = "fst (tunnel_ids isRd st)" and ?wid = "snd (tunnel_ids isRd st)"
  obtain w1 where loop: "tunnel_loop tun_ops ?rid ?wid (replicate (nat (GetTCPBuffSz cfg)) 0) w = Some w1"
      and w': "w' = tn_wshutdown tun_ops ?wid (tn_rshutdown tun_ops ?rid w1)" "res = TerminalResultDisclaim st heap"
    using assms(1) False
    by (auto simp: tunnel_Execute_def tunnel_ids_def Let_def split: if_splits option.splits)
  have "ch_wire (t_rd w') = ch_wire (t_rd w1)" "ch_wire (t_wr w') = ch_wire (t_wr w1)"
    using w'(1) by (simp_all add: tun_ops_def)
  then show ?thesis
    using tun.tunnel_loop_relays [OF loop refl refl refl assms(2)] w'(2) by auto
qed

section \<open>Concrete tunnels\<close>

text \<open>Three bytes are read; the writer's socket first has room for \<open>room\<close> bytes, then for all.\<close>

definition io_step :: "notify list \<Rightarrow> bytes \<Rightarrow> nat \<Rightarrow> xstep" where
  "io_step ns bs room = \<lparr>arrivals = ns, waits = [], io_data = bs, io_room = room, io_eof = False, io_errno = EAGAIN\<rparr>"

definition demo_tun :: "nat \<Rightarrow> tun" where
  "demo_tun room =
     \<lparr>t_cancel = [False, True], t_rid = 1, t_wid = 2,
      t_rd = \<lparr>ch_h = TCPCommHelper 7 True, ch_script = [[io_step [] [65, 66, 67] 0]], ch_wire = [], ch_calls = []\<rparr>,
      t_wr = \<lparr>ch_h = TCPCommHelper 8 False, ch_script = [[io_step [] [] room], [io_step [DataAvail] [] 4]],
        ch_wire = [], ch_calls = []\<rparr>,
      t_rnotes = [], t_wnotes = []\<rparr>"

definition demo_tun_state :: job_state where
  "demo_tun_state = \<lparr>handlerClaims = [0, 1],
     handlerClaimStates = [\<lparr>cs_counter = 1, cs_handlerID = 1\<rparr>, \<lparr>cs_counter = 1, cs_handlerID = 2\<rparr>]\<rparr>"

definition demo_tun_heap :: claim_heap where
  "demo_tun_heap = [\<lparr>counter = 2, handlerID = 1\<rparr>, \<lparr>counter = 2, handlerID = 2\<rparr>]"

definition demo_tun_run :: "nat \<Rightarrow> ((job_result \<times> claim_heap) \<times> tun) option" where
  "demo_tun_run room =
     tunnel_Execute tun_ops (SetTCPBuffSz 4 sample_config) False demo_tun_state demo_tun_heap (demo_tun room)"

definition tun_wires :: "((job_result \<times> claim_heap) \<times> tun) option \<Rightarrow> (bytes \<times> bytes) option" where
  "tun_wires r = map_option (\<lambda>(res, w). (ch_wire (t_rd w), ch_wire (t_wr w))) r"

lemma demo_tun_run_0: "tun_wires (demo_tun_run 0) = Some ([65, 66, 67], [65, 66, 67])"
  by code_simp

lemma demo_tun_run_1: "tun_wires (demo_tun_run 1) = Some ([65, 66, 67], [65, 65, 66, 67])"
  by code_simp

lemma demo_tun_ok: "tun_ok False 4 1 2 (demo_tun room)" "tun_ok True 4 1 2 (demo_tun 0)"
  by (simp_all add: tun_ok_def demo_tun_def helper_ok_new smooth_def io_step_def TCPCommHelper_def
      helper_ok_def N_HUP_def)

lemma demo_tun_args:
  "fst (tunnel_ids False demo_tun_state) = 1" "snd (tunnel_ids False demo_tun_state) = 2"
  "nat (GetTCPBuffSz (SetTCPBuffSz 4 sample_config)) = 4"
  by (simp_all add: tunnel_ids_def demo_tun_state_def SetTCPBuffSz_def)

lemma demo_tun_some:
  assumes "tun_wires (demo_tun_run room) = Some (i, out)"
  obtains res w' where "demo_tun_run room = Some (res, w')" and "ch_wire (t_rd w') = i" and "ch_wire (t_wr w') = out"
  using assms by (auto simp: tun_wires_def)

section \<open>Delivery\<close>

text \<open>
  C6.  What a tunnel delivers: when it ends, every chunk it read was written completely and in order,
  except possibly the last one; before a chunk is complete, proper prefixes of it may have been
  written by attempts that timed out.  Its result is always terminal, with its claims released.
\<close>

theorem tunnel_relays_chunks:
  assumes "tunnel_Execute tun_ops cfg isRd st heap w = Some (res, w')"
    and "tun_ok False (nat (GetTCPBuffSz cfg)) (fst (tunnel_ids isRd st)) (snd (tunnel_ids isRd st)) w"
  shows "res = TerminalResultDisclaim st heap \<and>
    (\<exists>i out. ch_wire (t_rd w') = ch_wire (t_rd w) @ i \<and> ch_wire (t_wr w') = ch_wire (t_wr w) @ out \<and>
      tunnelled (\<lambda>p. True) i out)"
  using tunnel_Execute_relays [OF assms] by (simp add: stall_of_def [abs_def])

theorem tunnel_relays_chunks_witness:
  "\<exists>res w'. demo_tun_run 1 = Some (res, w') \<and> res = TerminalResultDisclaim demo_tun_state demo_tun_heap \<and>
    (\<exists>i out. ch_wire (t_rd w') = ch_wire (t_rd (demo_tun 1)) @ i \<and>
      ch_wire (t_wr w') = ch_wire (t_wr (demo_tun 1)) @ out \<and> tunnelled (\<lambda>p. True) i out)"
proof -
  obtain res w' where run: "demo_tun_run 1 = Some (res, w')"
    using demo_tun_some [OF demo_tun_run_1] .
  have "tun_ok False (nat (GetTCPBuffSz (SetTCPBuffSz 4 sample_config)))
      (fst (tunnel_ids False demo_tun_state)) (snd (tunnel_ids False demo_tun_state)) (demo_tun 1)"
    unfolding demo_tun_args by (rule demo_tun_ok)
  from tunnel_relays_chunks [OF run [unfolded demo_tun_run_def] this] run show ?thesis by blast
qed

text \<open>
  C7.  If the writer's socket never takes a part of a chunk only, what the tunnel wrote is a prefix of
  what it read: nothing is lost before the end, duplicated or reordered.
\<close>

theorem tunnel_delivers_in_order:
  assumes "tunnel_Execute tun_ops cfg isRd st heap w = Some (res, w')"
    and "tun_ok True (nat (GetTCPBuffSz cfg)) (fst (tunnel_ids isRd st)) (snd (tunnel_ids isRd st)) w"
  shows "\<exists>i out. ch_wire (t_rd w') = ch_wire (t_rd w) @ i \<and> ch_wire (t_wr w') = ch_wire (t_wr w) @ out \<and>
    prefix out i"
  using tunnel_Execute_relays [OF assms] tunnelled_exact by blast

theorem tunnel_delivers_in_order_witness:
  "\<exists>res w' i out. demo_tun_run 0 = Some (res, w') \<and> ch_wire (t_rd w') = ch_wire (t_rd (demo_tun 0)) @ i \<and>
    ch_wire (t_wr w') = ch_wire (t_wr (demo_tun 0)) @ out \<and> prefix out i"
proof -
  obtain res w' where run: "demo_tun_run 0 = Some (res, w')"
    using demo_tun_some [OF demo_tun_run_0] .
  have "tun_ok True (nat (GetTCPBuffSz (SetTCPBuffSz 4 sample_config)))
      (fst (tunnel_ids False demo_tun_state)) (snd (tunnel_ids False demo_tun_state)) (demo_tun 0)"
    unfolding demo_tun_args by (rule demo_tun_ok)
  from tunnel_delivers_in_order [OF run [unfolded demo_tun_run_def] this] run show ?thesis by blast
qed

section \<open>Repeated chunks\<close>

text \<open>
  A writer that is neither hung up nor cancelled and can take \<open>n\<close> more notifications, and what one
  complete write does on it when the socket takes \<open>k\<close> bytes at once and no more before the timeout, and
  when it takes all.
\<close>

definition writable :: "nat \<Rightarrow> helper \<Rightarrow> bool" where
  "writable n h \<longleftrightarrow> helper_ok h \<and> \<not> isReader h \<and> status h = 0 \<and> unat (extCnt h) + n < unat N_HUP"

lemma writable_notified:
  assumes "writable (Suc n) h"
  shows "deliver_all [DataAvail] h = h\<lparr>extCnt := extCnt h + 1\<rparr>" and "intCnt h < extCnt h + 1"
    and "extCnt h + 1 < N_HUP" and "extCnt h + 1 \<noteq> N_CANCEL" and "extCnt h + 1 \<noteq> N_HUP"
    and "writable n (h\<lparr>extCnt := extCnt h + 1, intCnt := extCnt h + 1\<rparr>)"
proof -
  have lt: "unat (extCnt h) + 1 < unat N_HUP" using assms by (simp add: writable_def)
  then have inc: "unat (extCnt h + 1) = unat (extCnt h) + 1"
    by (simp add: N_HUP_def unat_word_ariths)
  then show hup: "extCnt h + 1 < N_HUP" using lt by (simp add: word_less_nat_alt)
  then show "extCnt h + 1 \<noteq> N_CANCEL" "extCnt h + 1 \<noteq> N_HUP" using below_HUP_below_CANCEL by auto
  have "extCnt h < N_HUP" using lt by (simp add: word_less_nat_alt)
  then show "deliver_all [DataAvail] h = h\<lparr>extCnt := extCnt h + 1\<rparr>" by (simp add: deliver_all_def NotifyDataAvail_def)
  show "intCnt h < extCnt h + 1" using assms inc by (auto simp: writable_def helper_ok_def word_less_nat_alt word_le_nat_alt)
  show "writable n (h\<lparr>extCnt := extCnt h + 1, intCnt := extCnt h + 1\<rparr>)"
    using assms inc hup by (simp add: writable_def helper_ok_def)
qed

lemma write_turns:
  assumes "writable (Suc n) (ch_h c)" and "0 < len" and "len \<le> int (length buf)"
  defines "h \<equiv> (ch_h c)\<lparr>extCnt := extCnt (ch_h c) + 1, intCnt := extCnt (ch_h c) + 1\<rparr>"
  shows "ch_script c = [io_step [DataAvail] [] k] # ss \<Longrightarrow> int k < len \<Longrightarrow>
      chan_transfer buf len False c = (0, buf, c\<lparr>ch_h := h, ch_script := ss, ch_wire := ch_wire c @ take k buf\<rparr>)"
    and "ch_script c = [io_step [DataAvail] [] k] # ss \<Longrightarrow> len \<le> int k \<Longrightarrow>
      \<exists>h'. chan_transfer buf len False c =
        (len, buf, c\<lparr>ch_h := h', ch_script := ss, ch_wire := ch_wire c @ take (nat len) buf\<rparr>)"
  using assms(2,3) writable_notified [OF assms(1)] assms(1) unfolding h_def
  by (auto simp: chan_transfer_def Transfer_def writable_def transfer_iter_def settle_def io_move_def io_step_def
      io_result_def quiet_step_def deliver_all_def Let_def)

lemma no_notes:
  "t_rnotes w = [] \<Longrightarrow> tn_rstatus tun_ops rid w = (GetStatus (ch_h (t_rd w)), w)"
  "t_wnotes w = [] \<Longrightarrow> tn_wstatus tun_ops wid w = (GetStatus (ch_h (t_wr w)), w)"
  by (simp_all add: tun_ops_def chan_status_def deliver_all_def Let_def)

text \<open>The inner loop: every attempt that stalls leaves its bytes with the peer and starts over.\<close>

lemma tunnel_write_repeats:
  assumes "writable (Suc (length ks)) (ch_h (t_wr w))" and "wid = t_wid w"
    and "ch_script (t_wr w) = map (\<lambda>k. [io_step [DataAvail] [] k]) ks @ [io_step [DataAvail] [] room] # ss"
    and "0 < dr" and "dr \<le> int (length buf)" and "\<forall>k \<in> set ks. int k < dr" and "dr \<le> int room"
    and "GetStatus (ch_h (t_rd w)) = 0" and "t_rnotes w = []"
  shows "\<exists>h'. tunnel_write tun_ops rid wid buf dr w = Some (dr, buf, w\<lparr>t_wr := (t_wr w)
    \<lparr>ch_h := h', ch_script := ss, ch_wire := ch_wire (t_wr w) @ concat (map (\<lambda>k. take k buf) ks) @ take (nat dr) buf\<rparr>\<rparr>)"
  using assms
proof (induction ks arbitrary: w)
  case Nil
  obtain h' where "chan_transfer buf dr False (t_wr w) =
      (dr, buf, (t_wr w)\<lparr>ch_h := h', ch_script := ss, ch_wire := ch_wire (t_wr w) @ take (nat dr) buf\<rparr>)"
    using write_turns(2) [OF _ Nil.prems(4,5), of 0 "t_wr w" room ss] Nil.prems(1,3,7) by auto
  then show ?case using Nil.prems(2,4) by (subst tunnel_write.simps) (auto simp: tun_ops_def)
next
  case (Cons k ks)
  let ?h = "(ch_h (t_wr w))\<lparr>extCnt := extCnt (ch_h (t_wr w)) + 1, intCnt := extCnt (ch_h (t_wr w)) + 1\<rparr>"
  let ?ss = "map (\<lambda>k. [io_step [DataAvail] [] k]) ks @ [io_step [DataAvail] [] room] # ss"
  let ?w = "w\<lparr>t_wr := (t_wr w)\<lparr>ch_h := ?h, ch_script := ?ss, ch_wire := ch_wire (t_wr w) @ take k buf\<rparr>\<rparr>"
  have wr: "writable (Suc (Suc (length ks))) (ch_h (t_wr w))" using Cons.prems(1) by simp
  have turn: "chan_transfer buf dr False (t_wr w) = (0, buf, t_wr ?w)"
    using write_turns(1) [OF wr Cons.prems(4,5)] Cons.prems(3,6) by simp
  have "tn_write tun_ops wid buf dr False w = (0, buf, ?w)" using turn Cons.prems(2) by (simp add: tun_ops_def)
  moreover have "tn_rstatus tun_ops rid ?w = (0, ?w)"
    using Cons.prems(8,9) no_notes(1) [of ?w rid] by simp
  ultimately have again: "tunnel_write tun_ops rid wid buf dr w = tunnel_write tun_ops rid wid buf dr ?w"
    by (subst tunnel_write.simps) simp
  have "writable (Suc (length ks)) (ch_h (t_wr ?w))" using writable_notified(6) [OF wr] by simp
  from Cons.IH [OF this] Cons.prems(2,4-9) show ?case unfolding again by simp
qed

text \<open>A tunnel that moves one chunk and is cancelled before the next.\<close>

definition one_chunk :: "nat \<Rightarrow> nat list \<Rightarrow> bytes \<Rightarrow> tun \<Rightarrow> bool" where
  "one_chunk bsz ks c w \<longleftrightarrow> t_cancel w = [False, True] \<and> t_rnotes w = [] \<and> t_wnotes w = [] \<and> t_rid w \<noteq> t_wid w \<and>
     isReader (ch_h (t_rd w)) \<and> helper_ok (ch_h (t_rd w)) \<and> status (ch_h (t_rd w)) = 0 \<and>
     intCnt (ch_h (t_rd w)) < extCnt (ch_h (t_rd w)) \<and> extCnt (ch_h (t_rd w)) < N_HUP \<and>
     0 < length c \<and> length c \<le> bsz \<and> (\<exists>rs. ch_script (t_rd w) = [io_step [] c 0] # rs) \<and>
     writable (Suc (length ks)) (ch_h (t_wr w)) \<and> (\<forall>k \<in> set ks. k < length c) \<and>
     (\<exists>room ss. ch_script (t_wr w) = map (\<lambda>k. [io_step [DataAvail] [] k]) ks @ [io_step [DataAvail] [] room] # ss \<and>
        length c \<le> room)"

lemma read_chunk:
  assumes "one_chunk bsz ks c w" and "length buf = bsz"
  shows "case chan_transfer buf (int bsz) True (t_rd w) of (r, buf', rd) \<Rightarrow> r = int (length c) \<and>
    buf' = memcpy_at 0 c buf \<and> ch_wire rd = ch_wire (t_rd w) @ c \<and> GetStatus (ch_h rd) = 0"
proof -
  have "extCnt (ch_h (t_rd w)) < N_HUP" using assms(1) by (simp add: one_chunk_def)
  then have "extCnt (ch_h (t_rd w)) \<noteq> N_HUP" "extCnt (ch_h (t_rd w)) \<noteq> N_CANCEL"
    using below_HUP_below_CANCEL by auto
  then show ?thesis
    using assms by (cases "length c = bsz")
      (auto simp: one_chunk_def chan_transfer_def Transfer_def transfer_iter_def settle_def io_move_def io_step_def
        io_result_def deliver_all_def GetStatus_def min_def Let_def)
qed

text \<open>
  C40.  A chunk whose write stalls is written again from its start.  For any chunk, any number of
  attempts in which the peer's socket takes a proper part of it (possibly nothing) before the wait
  times out, and a last one that takes it all: the tunnel has read the chunk once, and the peer
  receives, before the whole chunk, every one of those parts.
\<close>

theorem tunnel_duplicates_after_stall:
  assumes "one_chunk (nat (GetTCPBuffSz cfg)) ks c w" and "length (handlerClaims st) = 2"
    and "t_rid w = fst (tunnel_ids isRd st)" and "t_wid w = snd (tunnel_ids isRd st)"
  shows "\<exists>w'. tunnel_Execute tun_ops cfg isRd st heap w = Some (TerminalResultDisclaim st heap, w') \<and>
    ch_wire (t_rd w') = ch_wire (t_rd w) @ c \<and>
    ch_wire (t_wr w') = ch_wire (t_wr w) @ concat (map (\<lambda>k. take k c) ks) @ c"
proof -
  let ?bsz = "nat (GetTCPBuffSz cfg)"
  let ?buf = "replicate ?bsz 0" and ?rid = "t_rid w" and ?wid = "t_wid w"
  let ?buf1 = "memcpy_at 0 c ?buf"
  note one = assms(1) [unfolded one_chunk_def]
  obtain room ss where ss: "ch_script (t_wr w) = map (\<lambda>k. [io_step [DataAvail] [] k]) ks @ [io_step [DataAvail] [] room] # ss"
      "length c \<le> room" using one by blast
  obtain rd where rd: "chan_transfer ?buf (int ?bsz) True (t_rd w) = (int (length c), ?buf1, rd)"
      "ch_wire rd = ch_wire (t_rd w) @ c" "GetStatus (ch_h rd) = 0"
    using read_chunk [OF assms(1), of ?buf] by (auto split: prod.splits)
  have buf1: "take k ?buf1 = take k c" if "k \<le> length c" for k
    using that one by (simp add: memcpy_at_def)
  let ?w = "w\<lparr>t_cancel := [True], t_rd := rd\<rparr>"
  have wr: "GetStatus (ch_h (t_wr w)) = 0" using one by (auto simp: writable_def GetStatus_def N_CANCEL_def N_HUP_def)
  obtain h2 where "tunnel_write tun_ops ?rid ?wid ?buf1 (int (length c)) ?w = Some (int (length c), ?buf1, ?w\<lparr>t_wr := (t_wr w)
    \<lparr>ch_h := h2, ch_script := ss, ch_wire := ch_wire (t_wr w) @ concat (map (\<lambda>k. take k ?buf1) ks) @
      take (nat (int (length c))) ?buf1\<rparr>\<rparr>)"
    using tunnel_write_repeats [of ks ?w ?wid room ss "int (length c)" ?buf1 ?rid] one ss rd(3)
    by (auto simp: memcpy_at_def)
  moreover have "concat (map (\<lambda>k. take k ?buf1) ks) = concat (map (\<lambda>k. take k c) ks)"
    using one buf1 by (intro arg_cong [where f = concat] map_cong) auto
  ultimately obtain w2 where w2: "tunnel_write tun_ops ?rid ?wid ?buf1 (int (length c)) ?w = Some (int (length c), ?buf1, w2)"
      "t_cancel w2 = [True]" "ch_wire (t_rd w2) = ch_wire (t_rd w) @ c"
      "ch_wire (t_wr w2) = ch_wire (t_wr w) @ concat (map (\<lambda>k. take k c) ks) @ c"
    using buf1 [of "length c"] rd(2) by auto
  have stop: "tunnel_loop tun_ops ?rid ?wid buf w2 = Some (w2\<lparr>t_cancel := []\<rparr>)" for buf
    using w2(2) by (subst tunnel_loop.simps) (simp add: tun_ops_def)
  let ?u = "w\<lparr>t_cancel := [True]\<rparr>"
  have "tn_cancelled tun_ops w = (False, ?u)" using one by (simp add: tun_ops_def)
  moreover have "tn_wstatus tun_ops ?wid ?u = (0, ?u)" using no_notes(2) [of ?u] one wr by simp
  moreover have "tn_read tun_ops ?rid ?buf (int (length ?buf)) True ?u = (int (length c), ?buf1, ?w)"
    using rd(1) by (simp add: tun_ops_def del: int_nat_eq)
  moreover have "0 < length c" using one by simp
  ultimately have "tunnel_loop tun_ops ?rid ?wid ?buf w = Some (w2\<lparr>t_cancel := []\<rparr>)"
    using w2(1) stop by (subst tunnel_loop.simps) simp
  moreover have "tn_handler tun_ops ?rid w \<noteq> None" "tn_handler tun_ops ?wid w \<noteq> None"
    by (simp_all add: tun_ops_def)
  ultimately show ?thesis
    using assms(2-4) w2(3,4) by (auto simp: tunnel_Execute_def tunnel_ids_def Let_def tun_ops_def)
qed

theorem tunnel_duplicates_after_stall_witness:
  "\<exists>w'. tunnel_Execute tun_ops (SetTCPBuffSz 4 sample_config) False demo_tun_state demo_tun_heap
      ((demo_tun 0)\<lparr>t_wr := (t_wr (demo_tun 0))\<lparr>ch_script := map (\<lambda>k. [io_step [DataAvail] [] k]) [1, 2, 4]\<rparr>\<rparr>) =
      Some (TerminalResultDisclaim demo_tun_state demo_tun_heap, w') \<and>
    ch_wire (t_rd w') = [65, 66, 67] \<and> ch_wire (t_wr w') = [65, 65, 66, 65, 66, 67]"
proof -
  let ?w = "(demo_tun 0)\<lparr>t_wr := (t_wr (demo_tun 0))\<lparr>ch_script := map (\<lambda>k. [io_step [DataAvail] [] k]) [1, 2, 4]\<rparr>\<rparr>"
  have "one_chunk (nat (GetTCPBuffSz (SetTCPBuffSz 4 sample_config))) [1, 2] [65, 66, 67] ?w"
    unfolding demo_tun_args
    by (simp add: one_chunk_def demo_tun_def writable_def TCPCommHelper_def helper_ok_def N_HUP_def)
      (intro exI [of _ 4], simp)
  from tunnel_duplicates_after_stall [OF this, of demo_tun_state False demo_tun_heap] demo_tun_args show ?thesis
    by (simp add: demo_tun_def demo_tun_state_def)
qed

text \<open>
  C8.  A tunnel ends once its writer was cancelled (which the service does on shutdown), whatever its
  cancel flag reads and the reader does: it returns at the next test and writes nothing more.
\<close>

theorem tunnel_ends_after_cancel:
  assumes "extCnt (ch_h (t_wr w)) = N_CANCEL"
  shows "\<exists>w'. tunnel_Execute tun_ops cfg isRd st heap w = Some (TerminalResultDisclaim st heap, w') \<and>
    ch_wire (t_wr w') = ch_wire (t_wr w) \<and> ch_wire (t_rd w') = ch_wire (t_rd w)"
proof -
  let ?rid = "fst (tunnel_ids isRd st)" and ?wid = "snd (tunnel_ids isRd st)"
  obtain b w0 where c: "tn_cancelled tun_ops w = (b, w0)" by fastforce
  have w0: "t_wr w0 = t_wr w" "t_rd w0 = t_rd w"
    using c by (auto simp: tun_ops_def split: list.splits)
  obtain c1 where st: "tn_wstatus tun_ops ?wid w0 = (-2, c1)" "t_rd c1 = t_rd w" "ch_wire (t_wr c1) = ch_wire (t_wr w)"
    using assms w0 by (simp add: tun_ops_def chan_status_def Let_def deliver_all_cancelled GetStatus_def)
  have loop: "\<exists>v. tunnel_loop tun_ops ?rid ?wid buf w = Some v \<and> ch_wire (t_wr v) = ch_wire (t_wr w) \<and>
      t_rd v = t_rd w" for buf
    using c st w0 by (subst tunnel_loop.simps) auto
  obtain v where v: "tunnel_loop tun_ops ?rid ?wid (replicate (nat (GetTCPBuffSz cfg)) 0) w = Some v"
      "ch_wire (t_wr v) = ch_wire (t_wr w)" "t_rd v = t_rd w"
    using loop by blast
  have "ch_wire (t_wr (tn_wshutdown tun_ops ?wid (tn_rshutdown tun_ops ?rid v))) = ch_wire (t_wr w)"
      "ch_wire (t_rd (tn_wshutdown tun_ops ?wid (tn_rshutdown tun_ops ?rid v))) = ch_wire (t_rd w)"
    using v by (simp_all add: tun_ops_def)
  then show ?thesis
    using v(1) by (auto simp: tunnel_Execute_def tunnel_ids_def Let_def)
qed

theorem tunnel_ends_after_cancel_witness:
  "\<exists>w'. tunnel_Execute tun_ops sample_config True demo_tun_state demo_tun_heap
      ((demo_tun 0)\<lparr>t_wr := (t_wr (demo_tun 0))\<lparr>ch_h := Cancel (TCPCommHelper 8 False)\<rparr>\<rparr>) =
        Some (TerminalResultDisclaim demo_tun_state demo_tun_heap, w') \<and> ch_wire (t_wr w') = []"
  using tunnel_ends_after_cancel
    [of "(demo_tun 0)\<lparr>t_wr := (t_wr (demo_tun 0))\<lparr>ch_h := Cancel (TCPCommHelper 8 False)\<rparr>\<rparr>"
      sample_config True demo_tun_state demo_tun_heap]
  by (auto simp: Cancel_extCnt demo_tun_def)

end
