(* ===== verification/Job_Factory.thy ===== *)
theory Job_Factory
  imports Client_Handshake TCP_Tunnel
begin

text \<open>
  \<open>src/Src/JobFactory.*\<close>: what follows a job.  The factory turns the result of one job into the
  next jobs, and disposes the handlers whose claims a terminal result reports as released.
\<close>

section \<open>The factory\<close>

text \<open>A job that was created, with the state it claimed; a tunnel knows its direction.\<close>

datatype job =
    ClientHandshake job_state
  | TCPTunnel job_state bool

definition dispose_unclaimed :: "kernel \<Rightarrow> claim_state list \<Rightarrow> service \<Rightarrow> service" where
  "dispose_unclaimed k css s =
     fold (\<lambda>cState s. if cs_counter cState < 1 then DisposeHandler k (cs_handlerID cState) s else s) css s"

definition CreateJobsFromResult :: "kernel \<Rightarrow> job_result \<Rightarrow> claim_heap \<Rightarrow> service \<Rightarrow>
    job list \<times> claim_heap \<times> service" where
  "CreateJobsFromResult k source heap s =
     (case source of
        JR_TERMINAL st \<Rightarrow> ([], heap, dispose_unclaimed k (handlerClaimStates st) s)
      | JR_NEW_CLIENT hid \<Rightarrow>
          (let (st, heap1) = AddHandler hid State_empty heap;
               (st', heap2) = Job_ClientHandshake st heap1
           in ([ClientHandshake st'], heap2, s))
      | JR_CLIENT_MODE_CONNECT st \<Rightarrow>
          (let (st1, heap1) = Job_TCPTunnel st heap;
               (st2, heap2) = Job_TCPTunnel st heap1
           in ([TCPTunnel st1 True, TCPTunnel st2 False], heap2, s)))"

section \<open>Which handlers a result disposes\<close>

definition unclaimed :: "claim_state list \<Rightarrow> u64 list" where
  "unclaimed css = map cs_handlerID (filter (\<lambda>cs. cs_counter cs < 1) css)"

lemma unclaimed_simps [simp]:
  "unclaimed [] = []"
  "unclaimed (cs # css) = (if cs_counter cs < 1 then cs_handlerID cs # unclaimed css else unclaimed css)"
  by (simp_all add: unclaimed_def)

lemma dispose_unclaimed_eq: "dispose_unclaimed k css s = fold (DisposeHandler k) (unclaimed css) s"
  by (induction css arbitrary: s) (simp_all add: dispose_unclaimed_def)

lemma dispose_unclaimed_handlers:
  assumes "service_ok n s"
  shows "service_ok n (dispose_unclaimed k css s) \<and>
    GetHandler i (dispose_unclaimed k css s) = (if i \<in> set (unclaimed css) then None else GetHandler i s)"
  using tcp_service.dispose_list [OF assms] unfolding dispose_unclaimed_eq by meson

text \<open>
  When every holder releases a claim once, the releases that see a counter below one are the last
  ones, one for each claim: \<open>remdups\<close> keeps the last occurrence of each element.
\<close>

lemma unclaimed_for_claims:
  assumes "set rs \<subseteq> {..<length h}"
    and "\<And>r. r \<in> set rs \<Longrightarrow> counter (h ! r) = int (count_list rs r)"
  shows "unclaimed (fst (for_claims Disclaim rs h)) = map (\<lambda>r. handlerID (h ! r)) (remdups rs)"
  using assms
proof (induction rs arbitrary: h)
  case (Cons r rs)
  let ?h1 = "h[r := (h ! r)\<lparr>counter := counter (h ! r) - 1\<rparr>]"
  have r: "r < length h" using Cons.prems(1) by simp
  have cnt: "counter (?h1 ! q) = int (count_list rs q)" if "q \<in> set rs" for q
    using Cons.prems(1) Cons.prems(2) [of q] that r by (auto simp: nth_list_update)
  have IH: "unclaimed (fst (for_claims Disclaim rs ?h1)) = map (\<lambda>r. handlerID (?h1 ! r)) (remdups rs)"
    using Cons.prems(1) cnt by (intro Cons.IH) auto
  moreover have "handlerID (?h1 ! q) = handlerID (h ! q)" for q
    using r by (cases "q = r") simp_all
  moreover have "counter (h ! r) - 1 < 1 \<longleftrightarrow> r \<notin> set rs"
    using Cons.prems(2) [of r] by (auto simp: count_list_0_iff)
  ultimately show ?case
    by (simp add: Disclaim_def [of r h] Let_def case_prod_beta)
qed simp

section \<open>Two tunnels release their claims\<close>

text \<open>
  The releases of two jobs as they interleave: each step belongs to one of them (\<open>True\<close> for the
  first).  The snapshots of one job are those of its own steps.
\<close>

type_synonym releases = "(bool \<times> claim_ref) list"

definition steps_of :: "bool \<Rightarrow> releases \<Rightarrow> claim_ref list" where
  "steps_of b ts = map snd (filter (\<lambda>t. fst t = b) ts)"

definition snapshots_of :: "bool \<Rightarrow> releases \<Rightarrow> claim_heap \<Rightarrow> claim_state list" where
  "snapshots_of b ts heap =
     map snd (filter (\<lambda>t. fst t = b) (zip (map fst ts) (fst (for_claims Disclaim (map snd ts) heap))))"

lemma count_steps: "count_list (map snd ts) r = count_list (steps_of True ts) r + count_list (steps_of False ts) r"
  by (induction ts) (auto simp: steps_of_def)

lemma unclaimed_both:
  assumes "length bs = length css"
  shows "mset (unclaimed (map snd (filter (\<lambda>t. fst t = True) (zip bs css)))) +
    mset (unclaimed (map snd (filter (\<lambda>t. fst t = False) (zip bs css)))) = mset (unclaimed css)"
  using assms by (induction bs css rule: list_induct2) auto

lemma interleaved_unclaimed:
  assumes "distinct rs" and "set rs \<subseteq> {..<length heap}"
    and "\<And>r. r \<in> set rs \<Longrightarrow> counter (heap ! r) = 2"
    and "steps_of True ts = rs" and "steps_of False ts = rs"
  shows "mset (unclaimed (snapshots_of True ts heap)) + mset (unclaimed (snapshots_of False ts heap)) =
    mset (map (\<lambda>r. handlerID (heap ! r)) rs)"
proof -
  have once: "count_list rs r = (if r \<in> set rs then 1 else 0)" for r
    using assms(1) by (induction rs) auto
  have "r \<in> set (map snd ts) \<longleftrightarrow> r \<in> set rs" for r
    using count_steps [of ts r] once [of r] by (metis add_is_0 assms(4,5) count_list_0_iff zero_neq_one)
  then have sets: "set (map snd ts) = set rs" by blast
  have "mset (unclaimed (snapshots_of True ts heap)) + mset (unclaimed (snapshots_of False ts heap)) =
      mset (unclaimed (fst (for_claims Disclaim (map snd ts) heap)))"
    unfolding snapshots_of_def by (rule unclaimed_both) simp
  also have "\<dots> = mset (map (\<lambda>r. handlerID (heap ! r)) (remdups (map snd ts)))"
    using assms sets by (subst unclaimed_for_claims) (auto simp: count_steps once)
  also have "\<dots> = image_mset (\<lambda>r. handlerID (heap ! r)) (mset (remdups (map snd ts)))" by simp
  also have "mset (remdups (map snd ts)) = mset rs"
    using sets assms(1) by (metis distinct_remdups set_eq_iff_mset_eq_distinct set_remdups)
  finally show ?thesis by simp
qed

lemma two_tunnels_claimed:
  assumes "state_ok heap st" and "CreateJobsFromResult k (JR_CLIENT_MODE_CONNECT st) heap s = (jobs, heap', s')"
  shows "\<exists>st1 st2. jobs = [TCPTunnel st1 True, TCPTunnel st2 False] \<and> handlerClaims st1 = handlerClaims st \<and>
    handlerClaims st2 = handlerClaims st \<and> heap' = bump 2 (handlerClaims st) heap \<and> s' = s"
proof -
  have "state_ok (bump 1 (handlerClaims st) heap) st" using assms(1) by (simp add: state_ok_def)
  then show ?thesis
    using assms
    by (auto simp: CreateJobsFromResult_def Job_TCPTunnel_def ClaimAllHandlers_eq bump_bump)
qed

text \<open>The result of a tunnel whose releases were among those of two jobs.\<close>

definition tunnel_end :: "bool \<Rightarrow> releases \<Rightarrow> claim_heap \<Rightarrow> job_state \<Rightarrow> job_result" where
  "tunnel_end b ts heap st =
     JR_TERMINAL \<lparr>handlerClaims = handlerClaims st, handlerClaimStates = snapshots_of b ts heap\<rparr>"

definition disposals :: "job_result \<Rightarrow> u64 list" where
  "disposals res = (case res of JR_TERMINAL st \<Rightarrow> unclaimed (handlerClaimStates st) | _ \<Rightarrow> [])"

text \<open>Without interference this is what \<open>TerminalResultDisclaim\<close> reports.\<close>

lemma snapshots_of_alone:
  "snapshots_of b (map (Pair b) rs) heap = fst (for_claims Disclaim rs heap)"
proof -
  have alone: "map snd (filter (\<lambda>t. fst t = b) (zip (map (\<lambda>_. b) rs) css)) = css"
    if "length css = length rs" for css :: "claim_state list"
    using that by (induction css rs rule: list_induct2) simp_all
  show ?thesis using alone by (simp add: snapshots_of_def comp_def)
qed

lemma tunnel_end_alone:
  "fst (TerminalResultDisclaim st heap) = tunnel_end b (map (Pair b) (handlerClaims st)) heap st"
  by (simp add: TerminalResultDisclaim_def DisclaimAllHandlers_def tunnel_end_def snapshots_of_alone
      case_prod_beta Let_def)

lemma factory_terminal:
  assumes "service_ok n s" and "CreateJobsFromResult k (JR_TERMINAL st) heap s = (jobs, heap', s')"
  shows "jobs = [] \<and> heap' = heap \<and> service_ok n s' \<and>
    GetHandler i s' = (if i \<in> set (disposals (JR_TERMINAL st)) then None else GetHandler i s)"
  using assms dispose_unclaimed_handlers [OF assms(1)]
  by (auto simp: CreateJobsFromResult_def disposals_def)

lemma tunnels_disposals:
  assumes "state_ok heap st" and "\<forall>r \<in> set (handlerClaims st). counter (heap ! r) = 0"
    and "steps_of True ts = handlerClaims st" and "steps_of False ts = handlerClaims st"
    and "heap' = bump 2 (handlerClaims st) heap"
  shows "mset (disposals (tunnel_end True ts heap' st1)) + mset (disposals (tunnel_end False ts heap' st2)) =
      mset (map (\<lambda>r. handlerID (heap ! r)) (handlerClaims st))"
proof -
  have st: "distinct (handlerClaims st)" "set (handlerClaims st) \<subseteq> {..<length heap}"
    using assms(1) by (simp_all add: state_ok_def)
  have ids: "handlerID (heap' ! r) = handlerID (heap ! r)" "counter (heap' ! r) = 2"
    if "r \<in> set (handlerClaims st)" for r
    using that st(2) assms(2,5) by (auto simp: nth_bump subset_iff)
  then have same: "map (\<lambda>r. handlerID (heap' ! r)) (handlerClaims st) = map (\<lambda>r. handlerID (heap ! r)) (handlerClaims st)"
    by simp
  have "mset (unclaimed (snapshots_of True ts heap')) + mset (unclaimed (snapshots_of False ts heap')) =
      mset (map (\<lambda>r. handlerID (heap' ! r)) (handlerClaims st))"
    using st assms(3-5) ids(2) by (intro interleaved_unclaimed) simp_all
  then show ?thesis unfolding same by (simp add: disposals_def tunnel_end_def)
qed

lemma tunnels_disposals_created:
  assumes "state_ok heap st" and "\<forall>r \<in> set (handlerClaims st). counter (heap ! r) = 0"
    and "CreateJobsFromResult k (JR_CLIENT_MODE_CONNECT st) heap s =
      ([TCPTunnel st1 True, TCPTunnel st2 False], heap', s')"
    and "steps_of True ts = handlerClaims st1" and "steps_of False ts = handlerClaims st2"
  shows "mset (disposals (tunnel_end first ts heap' stA)) + mset (disposals (tunnel_end (\<not> first) ts heap' stB)) =
      mset (map (\<lambda>r. handlerID (heap ! r)) (handlerClaims st))"
proof -
  have two: "handlerClaims st1 = handlerClaims st" "handlerClaims st2 = handlerClaims st"
      "heap' = bump 2 (handlerClaims st) heap"
    using two_tunnels_claimed [OF assms(1,3)] by auto
  show ?thesis
    using tunnels_disposals [OF assms(1,2) _ _ two(3), of ts] assms(4,5) two(1,2)
    by (cases first) (simp_all add: add.commute)
qed

lemma tunnels_dispose_all:
  assumes "state_ok heap st" and "\<forall>r \<in> set (handlerClaims st). counter (heap ! r) = 0"
    and "CreateJobsFromResult k (JR_CLIENT_MODE_CONNECT st) heap s =
      ([TCPTunnel st1 True, TCPTunnel st2 False], heap', s')"
    and "steps_of True ts = handlerClaims st1" and "steps_of False ts = handlerClaims st2"
    and "service_ok n s1"
    and "CreateJobsFromResult k (tunnel_end first ts heap' stA) heap2 s1 = (jobs1, heap3, s2)"
    and "CreateJobsFromResult k (tunnel_end (\<not> first) ts heap' stB) heap4 s2 = (jobs2, heap5, s3)"
  shows "jobs1 = [] \<and> jobs2 = [] \<and>
    GetHandler i s3 = (if i \<in> (\<lambda>r. handlerID (heap ! r)) ` set (handlerClaims st) then None else GetHandler i s1)"
proof -
  have sets: "set (disposals (tunnel_end first ts heap' stA)) \<union> set (disposals (tunnel_end (\<not> first) ts heap' stB)) =
      (\<lambda>r. handlerID (heap ! r)) ` set (handlerClaims st)"
    using tunnels_disposals_created [OF assms(1-5)] by (metis (no_types) list.set_map set_mset_mset set_mset_union)
  note t1 = factory_terminal [OF assms(6), of k, OF assms(7) [unfolded tunnel_end_def], folded tunnel_end_def]
  then have "service_ok n s2" by blast
  note t2 = factory_terminal [OF this, of k, OF assms(8) [unfolded tunnel_end_def], folded tunnel_end_def]
  have "GetHandler i s3 = (if i \<in> set (disposals (tunnel_end first ts heap' stA)) \<union>
      set (disposals (tunnel_end (\<not> first) ts heap' stB)) then None else GetHandler i s1)"
    using t1 t2 by simp
  then show ?thesis using sets t1 t2 by simp
qed

text \<open>
  C16.  The end of a tunnelled connection.  From a connect result whose claims are all released the
  factory creates the two directions; however their releases interleave, their two terminal results
  together dispose every handler of the connection exactly once, and after the factory was given
  both, in either order, exactly these handlers are gone and no further job was created.
\<close>

theorem tunnels_dispose_each_handler_once:
  assumes "state_ok heap st" and "\<forall>r \<in> set (handlerClaims st). counter (heap ! r) = 0"
    and "CreateJobsFromResult k (JR_CLIENT_MODE_CONNECT st) heap s =
      ([TCPTunnel st1 True, TCPTunnel st2 False], heap', s')"
    and "steps_of True ts = handlerClaims st1" and "steps_of False ts = handlerClaims st2"
    and "service_ok n s1"
    and "CreateJobsFromResult k (tunnel_end first ts heap' stA) heap2 s1 = (jobs1, heap3, s2)"
    and "CreateJobsFromResult k (tunnel_end (\<not> first) ts heap' stB) heap4 s2 = (jobs2, heap5, s3)"
  shows "mset (disposals (tunnel_end first ts heap' stA)) + mset (disposals (tunnel_end (\<not> first) ts heap' stB)) =
      mset (map (\<lambda>r. handlerID (heap ! r)) (handlerClaims st)) \<and> jobs1 = [] \<and> jobs2 = [] \<and>
    GetHandler i s3 = (if i \<in> (\<lambda>r. handlerID (heap ! r)) ` set (handlerClaims st) then None else GetHandler i s1)"
  using tunnels_disposals_created [OF assms(1-5)] tunnels_dispose_all [OF assms] by simp

text \<open>The two handlers of a connection, and an interleaving in which each tunnel releases one last.\<close>

definition demo_link_heap :: claim_heap where
  "demo_link_heap = [\<lparr>counter = 0, handlerID = 1\<rparr>, \<lparr>counter = 0, handlerID = 2\<rparr>]"

definition demo_link :: job_state where
  "demo_link = \<lparr>handlerClaims = [0, 1], handlerClaimStates = map (claim_snapshot demo_link_heap) [0, 1]\<rparr>"

definition demo_link_service :: service where
  "demo_link_service = snd (CreateHandlerFromSocket demo_kernel sample_config 8
     (snd (CreateHandlerFromSocket demo_kernel sample_config 7 (TCPCommService demo_kernel sample_config))))"

definition demo_releases :: releases where
  "demo_releases = [(True, 0), (False, 0), (False, 1), (True, 1)]"

lemma demo_link_service_ok: "service_ok 0 demo_link_service"
proof -
  let ?s = "TCPCommService demo_kernel sample_config"
  have "service_ok (Suc (Suc 0)) ?s" by (rule service_ok_new) (simp add: HANDLER_ERROR_def)
  from tcp_service.create_new [OF this prod.collapse [symmetric]]
  have "service_ok (Suc 0) (snd (CreateHandlerFromSocket demo_kernel sample_config 7 ?s))" by blast
  from tcp_service.create_new [OF this prod.collapse [symmetric]] show ?thesis
    by (simp add: demo_link_service_def)
qed

theorem tunnels_dispose_each_handler_once_witness:
  "\<exists>st1 st2 heap' s2 s3.
    CreateJobsFromResult demo_kernel (JR_CLIENT_MODE_CONNECT demo_link) demo_link_heap demo_link_service =
      ([TCPTunnel st1 True, TCPTunnel st2 False], heap', demo_link_service) \<and>
    CreateJobsFromResult demo_kernel (tunnel_end True demo_releases heap' st1) heap' demo_link_service = ([], heap', s2) \<and>
    CreateJobsFromResult demo_kernel (tunnel_end False demo_releases heap' st2) heap' s2 = ([], heap', s3) \<and>
    GetHandler 1 s3 = None \<and> GetHandler 2 s3 = None"
proof -
  have ok: "state_ok demo_link_heap demo_link"
    by (simp add: state_ok_def demo_link_def demo_link_heap_def)
  obtain jobs heap' s' where run: "CreateJobsFromResult demo_kernel (JR_CLIENT_MODE_CONNECT demo_link)
      demo_link_heap demo_link_service = (jobs, heap', s')" by (metis prod.collapse)
  from two_tunnels_claimed [OF ok run] obtain st1 st2 where two:
    "jobs = [TCPTunnel st1 True, TCPTunnel st2 False]" "handlerClaims st1 = handlerClaims demo_link"
    "handlerClaims st2 = handlerClaims demo_link" "s' = demo_link_service" by blast
  obtain j2 h2 s2 where t1: "CreateJobsFromResult demo_kernel (tunnel_end True demo_releases heap' st1) heap'
      demo_link_service = (j2, h2, s2)" by (metis prod.collapse)
  obtain j3 h3 s3 where t2: "CreateJobsFromResult demo_kernel (tunnel_end (\<not> True) demo_releases heap' st2) heap'
      s2 = (j3, h3, s3)" by (metis prod.collapse)
  have zero: "\<forall>r \<in> set (handlerClaims demo_link). counter (demo_link_heap ! r) = 0"
    by (simp add: demo_link_def demo_link_heap_def)
  have steps: "steps_of True demo_releases = handlerClaims st1" "steps_of False demo_releases = handlerClaims st2"
    by (simp_all add: two steps_of_def demo_releases_def demo_link_def)
  note ends = tunnels_dispose_each_handler_once [OF ok zero run [unfolded two(1)] steps demo_link_service_ok t1 t2]
  have heaps: "h2 = heap'" "h3 = heap'"
    using t1 t2 by (simp_all add: CreateJobsFromResult_def tunnel_end_def)
  show ?thesis
    using run t1 t2 two heaps ends [of 1] ends [of 2] by (auto simp: demo_link_def demo_link_heap_def)
qed

end
