(* ===== verification/Client_Lifecycle.thy ===== *)
theory Client_Lifecycle
  imports Handshake_Theorems Job_Factory
begin

text \<open>
  A client from its acceptance to the end of its tunnels, across the listener's communication service,
  the job factory, the handshake job and the two tunnels: every handler that came into being for the
  client is disposed, and no other handler is touched.
\<close>

section \<open>What the handshake does to the service\<close>

text \<open>
  The handlers besides the client's are those of \<open>s0\<close>, with the target's once there is one; there is
  room for \<open>n\<close> more handlers after the target's.
\<close>

definition net_target :: "nat \<Rightarrow> u64 \<Rightarrow> service \<Rightarrow> u64 option \<Rightarrow> net \<Rightarrow> bool" where
  "net_target n c s0 t w \<longleftrightarrow> n_client w = c \<and> GetHandler c (n_svc w) \<noteq> None \<and>
     (case t of
        None \<Rightarrow> service_ok (Suc n) (n_svc w) \<and> (\<forall>i. i \<noteq> c \<longrightarrow> GetHandler i (n_svc w) = GetHandler i s0)
      | Some tgt \<Rightarrow> service_ok n (n_svc w) \<and> tgt \<noteq> c \<and> GetHandler tgt s0 = None \<and> GetHandler tgt (n_svc w) \<noteq> None \<and>
          (\<forall>i. i \<noteq> c \<longrightarrow> i \<noteq> tgt \<longrightarrow> GetHandler i (n_svc w) = GetHandler i s0))"

text \<open>A change of the client's handler that keeps it well-formed.\<close>

lemma net_target_set_client:
  assumes "net_target n c s0 t w" and "GetHandler c (n_svc w) = Some h0" and "handler_ok h"
    and "n_svc w' = set_handler c h (n_svc w)" and "n_client w' = c"
  shows "net_target n c s0 t w'"
  using assms service_ok_set_handler [OF _ assms(2,3)]
  by (auto simp: net_target_def GetHandler_set_handler split: option.splits)

lemma net_target_same:
  "net_target n c s0 t w \<Longrightarrow> n_svc w' = n_svc w \<Longrightarrow> n_client w' = n_client w \<Longrightarrow> net_target n c s0 t w'"
  by (cases t) (simp_all add: net_target_def)

lemma net_target_client:
  assumes "net_target n c s0 t w"
  obtains h where "GetHandler c (n_svc w) = Some h" and "handler_ok h" and "n_client w = c"
  using assms service_ok_handler by (fastforce simp: net_target_def split: option.splits)

lemma net_target_read:
  assumes "net_target n c s0 t w" and "net_read buf len p w = (r, buf', w')"
  shows "net_target n c s0 t w'"
proof -
  obtain h where h: "GetHandler c (n_svc w) = Some h" "handler_ok h" "n_client w = c"
    using net_target_client [OF assms(1)] .
  obtain r1 buf1 ch where c: "chan_transfer buf len p (reader_chan h w) = (r1, buf1, ch)"
    by (metis prod.collapse)
  have "helper_ok (ch_h (reader_chan h w))" using h(2) by (simp add: reader_chan_def handler_ok_def)
  from chan_transfer_helper [OF c this] have "handler_ok (h\<lparr>reader := ch_h ch\<rparr>)"
    using h(2) by (simp add: handler_ok_def reader_chan_def)
  then show ?thesis
    using assms(2) h c by (intro net_target_set_client [OF assms(1) h(1)]) (auto simp: net_read_def)
qed

lemma net_target_write:
  assumes "net_target n c s0 t w" and "net_write buf len p w = (r, buf', w')"
  shows "net_target n c s0 t w'"
proof -
  obtain h where h: "GetHandler c (n_svc w) = Some h" "handler_ok h" "n_client w = c"
    using net_target_client [OF assms(1)] .
  obtain r1 buf1 ch where c: "chan_transfer buf len p (writer_chan h w) = (r1, buf1, ch)"
    by (metis prod.collapse)
  have "helper_ok (ch_h (writer_chan h w))" using h(2) by (simp add: writer_chan_def handler_ok_def)
  from chan_transfer_helper [OF c this] have "handler_ok (h\<lparr>writer := ch_h ch\<rparr>)"
    using h(2) by (simp add: handler_ok_def writer_chan_def)
  then show ?thesis
    using assms(2) h c by (intro net_target_set_client [OF assms(1) h(1)]) (auto simp: net_write_def)
qed

text \<open>A failed connection takes no room, a successful one has a valid descriptor.\<close>

lemma connect_failed_room:
  assumes "service_ok (Suc n) s" and "ConnectAndCreateHandler k e cfg ep tv s = (hid, s')" and "HANDLER_ERROR < hid"
  shows "service_ok (Suc n) s'"
proof -
  have "\<not> HANDLER_ERROR < handlerIdCounter s + 1"
    using service_ok_next(2) [OF assms(1)] by simp
  then have "handlerIdCounter s' = handlerIdCounter s \<and> commHandlers s' = commHandlers s"
    using ConnectAndCreateHandler_view [OF assms(2) service_ok_fresh [OF assms(1)]] assms(3)
    by (auto simp: svc_view_def)
  then show ?thesis using assms(1) by (simp add: service_ok_def)
qed

lemma connected_valid:
  assumes "service_ok (Suc n) s" and "ConnectAndCreateHandler k e cfg ep tv s = (hid, s')" and "\<not> HANDLER_ERROR < hid"
  shows "\<exists>h. GetHandler hid s' = Some h \<and> handler_IsValid (Some h)"
  using ConnectAndCreateHandler_view [OF assms(2) service_ok_fresh [OF assms(1)]] assms(3)
  by (auto simp: svc_view_def GetHandler_def handler_IsValid_def new_handler_def)

lemma net_target_connect:
  assumes "net_target n c s0 None w" and "net_connect k e cfg ep tv w = (target, w')"
  shows "if HANDLER_ERROR < target \<or> net_handler target w' = None then net_target n c s0 None w'
    else net_target n c s0 (Some target) w'"
proof -
  note w = assms(1) [unfolded net_target_def option.case]
  have run: "ConnectAndCreateHandler k e cfg ep tv (n_svc w) = (target, n_svc w')" "n_client w' = n_client w"
    using assms(2) by (auto simp: net_connect_def split: prod.splits)
  have ok: "service_ok (Suc n) (n_svc w)" using w by simp
  note new = tcp_service.connect_new [OF ok run(1)]
  show ?thesis
  proof (cases "HANDLER_ERROR < target")
    case True
    then show ?thesis
      using w new run(2) connect_failed_room [OF ok run(1) True] by (auto simp: net_target_def fun_eq_iff)
  next
    case False
    obtain h where h: "GetHandler target (n_svc w') = Some h" "handler_IsValid (Some h)"
      using connected_valid [OF ok run(1) False] by blast
    then have found: "net_handler target w' \<noteq> None" by (simp add: net_handler_def)
    have before: "GetHandler target (n_svc w) = None"
      using new False by simp
    then have "target \<noteq> c" using w by auto
    then have fresh: "target \<noteq> c" "GetHandler target s0 = None"
      using w before by metis+
    have "net_target n c s0 (Some target) w'"
      using w new False run(2) h(1) fresh by (auto simp: net_target_def fun_eq_iff split: if_splits)
    then show ?thesis using False found by auto
  qed
qed

text \<open>Descriptors: transfers leave the sockets alone, connecting balances what it opens.\<close>

lemma live_fds_set_handler:
  assumes "GetHandler i s = Some h0" and "h_fd h = h_fd h0"
  shows "live_fds (set_handler i h s) = live_fds s"
proof -
  obtain us vs where "commHandlers s = us @ (i, h0) # vs"
      "AList.update i h (commHandlers s) = us @ (i, h) # vs"
    using AList_update_split [of "commHandlers s" i h0] assms(1) unfolding GetHandler_def by metis
  then show ?thesis using assms(2) by (simp add: live_fds_def set_handler_def)
qed

lemma balance_set_handler:
  assumes "fds_balance T s" and "GetHandler i s = Some h0" and "h_fd h = h_fd h0"
  shows "fds_balance T (set_handler i h s)"
  using assms live_fds_set_handler [OF assms(2,3)] by (simp add: fds_balance_def set_handler_def)

lemma balance_set_helper:
  "fds_balance T s \<Longrightarrow> GetHandler i s = Some h \<Longrightarrow> fds_balance T (set_handler i (h\<lparr>reader := g\<rparr>) s)"
  "fds_balance T s \<Longrightarrow> GetHandler i s = Some h \<Longrightarrow> fds_balance T (set_handler i (h\<lparr>writer := g\<rparr>) s)"
  by (erule (1) balance_set_handler, simp)+

lemma balance_transfer:
  assumes "fds_balance T (n_svc w)"
  shows "net_read buf len p w = (r, buf', w') \<Longrightarrow> fds_balance T (n_svc w')"
    and "net_write buf len p w = (r, buf', w') \<Longrightarrow> fds_balance T (n_svc w')"
  using assms
  by (auto simp: net_read_def net_write_def Let_def intro: balance_set_helper split: option.splits prod.splits)

lemma balance_connect:
  assumes "fds_balance T (n_svc w)" and "service_ok (Suc n) (n_svc w)" and "net_connect k e cfg ep tv w = (t, w')"
  shows "fds_balance T (n_svc w')"
  using svc_step_balance [OF assms(2,1), of k e cfg "OpConnect ep tv"] assms(3)
  by (auto simp: net_connect_def split: prod.splits)

definition net_tracks :: "nat \<Rightarrow> int multiset \<Rightarrow> u64 \<Rightarrow> service \<Rightarrow> u64 option \<Rightarrow> net \<Rightarrow> bool" where
  "net_tracks n T c s0 t w \<longleftrightarrow> net_target n c s0 t w \<and> fds_balance T (n_svc w)"

interpretation net_tracking: target_tracking "net_ops k e cfg lib" "net_tracks n T c s0"
  for k e cfg lib n T c s0
proof (unfold_locales, goal_cases)
  case (1 t w buf len p r buf' w')
  then show ?case using net_target_read balance_transfer(1) unfolding net_tracks_def net_ops_sel by blast
next
  case (2 t w buf len p r buf' w')
  then show ?case using net_target_write balance_transfer(2) unfolding net_tracks_def net_ops_sel by blast
next
  case (8 w ep tv target w')
  then have "service_ok (Suc n) (n_svc w)" by (simp add: net_tracks_def net_target_def)
  with 8 show ?case
    using net_target_connect [of n c s0 w k e cfg ep tv target w'] balance_connect [of T w n k e cfg ep tv target w']
    by (simp add: net_tracks_def)
qed (auto simp: net_tracks_def net_ops_def net_lib_def elim!: net_target_same)

text \<open>Disposing distinct handlers closes each of their sockets once.\<close>

definition handler_fds :: "u64 list \<Rightarrow> service \<Rightarrow> int list" where
  "handler_fds ids s = map h_fd (List.map_filter (\<lambda>i. GetHandler i s) ids)"

lemma handler_fds_simps [simp]:
  "handler_fds [] s = []"
  "handler_fds (i # ids) s = (case GetHandler i s of None \<Rightarrow> [] | Some h \<Rightarrow> [h_fd h]) @ handler_fds ids s"
  by (simp_all add: handler_fds_def List.map_filter_simps split: option.splits)

lemma handler_fds_cong: "(\<And>i. i \<in> set ids \<Longrightarrow> GetHandler i s = GetHandler i s') \<Longrightarrow> handler_fds ids s = handler_fds ids s'"
  by (induction ids) (simp_all split: option.splits)

lemma dispose_calls:
  "opened (svc_calls (DisposeHandler k i s)) = opened (svc_calls s)"
  "closed (svc_calls (DisposeHandler k i s)) = closed (svc_calls s) @ handler_fds [i] s"
  using DisposeHandler_view [of k i s]
  by (auto simp: svc_view_def GetHandler_def split: option.splits)

lemma dispose_list_calls:
  assumes "distinct ids"
  shows "opened (svc_calls (fold (DisposeHandler k) ids s)) = opened (svc_calls s) \<and>
    closed (svc_calls (fold (DisposeHandler k) ids s)) = closed (svc_calls s) @ handler_fds ids s"
  using assms
proof (induction ids arbitrary: s)
  case (Cons i ids)
  have "handler_fds ids (DisposeHandler k i s) = handler_fds ids s"
    using Cons.prems GetHandler_DisposeHandler [of k i s] by (intro handler_fds_cong) (auto simp: fun_eq_iff)
  then show ?case
    using Cons.IH [of "DisposeHandler k i s"] Cons.prems dispose_calls [of k i s] by simp
qed simp

lemma live_fds_cong:
  assumes "service_ok n s" and "service_ok m s'" and "\<And>i. GetHandler i s = GetHandler i s'"
  shows "mset (live_fds s) = mset (live_fds s')"
proof -
  have keys: "distinct (map fst (commHandlers s))" "distinct (map fst (commHandlers s'))"
    using assms(1,2) by (simp_all add: service_ok_def)
  have "map_of (commHandlers s) = map_of (commHandlers s')"
    using assms(3) unfolding GetHandler_def by (intro ext)
  then have "set (commHandlers s) = set (commHandlers s')"
    using keys map_of_inject_set by blast
  then have "mset (commHandlers s) = mset (commHandlers s')"
    using keys unfolding distinct_map by (meson set_eq_iff_mset_eq_distinct)
  then show ?thesis unfolding live_fds_def by (metis mset_map)
qed

section \<open>The job of a new client\<close>

lemma client_job_created:
  assumes "CreateJobsFromResult k (JR_NEW_CLIENT hid) heap s = ([ClientHandshake st], heap1, s')"
  obtains st0 where "s' = s" and "state_ok (heap @ [\<lparr>counter = 0, handlerID = hid\<rparr>]) st0"
    and "handlerClaims st0 = [length heap]"
    and "Job_ClientHandshake st0 (heap @ [\<lparr>counter = 0, handlerID = hid\<rparr>]) = (st, heap1)"
proof -
  let ?add = "AddHandler hid State_empty heap"
  have heap: "snd ?add = heap @ [\<lparr>counter = 0, handlerID = hid\<rparr>]" and claims: "handlerClaims (fst ?add) = [length heap]"
    unfolding AddHandler_eq [OF state_ok_empty] by (simp_all add: State_empty_def)
  have "state_ok (snd ?add) (fst ?add)"
    using state_ok_ops(3) [OF state_ok_empty prod.collapse [symmetric]] .
  moreover have "s' = s" "Job_ClientHandshake (fst ?add) (snd ?add) = (st, heap1)"
    using assms by (auto simp: CreateJobsFromResult_def split: prod.splits)
  ultimately show ?thesis using that claims heap by simp
qed

definition target_list :: "u64 option \<Rightarrow> u64 list" where
  "target_list t = (case t of None \<Rightarrow> [] | Some tgt \<Rightarrow> [tgt])"

text \<open>
  The handshake of a new client: its result carries exactly the claims of the client's handler and of
  the target that was connected, all of them released, and the service has exactly these handlers more
  than before the client was accepted.
\<close>

lemma handshake_of_new_client:
  assumes "service_ok (Suc (Suc n)) s0" and "fds_balance T s0" and "CreateHandlerFromSocket k cfg sock s0 = (hid, s1)"
    and "CreateJobsFromResult k (JR_NEW_CLIENT hid) heap s1 = ([ClientHandshake st], heap1, s2)"
    and "n_svc w = s2" and "n_client w = hid"
    and "handshake_Execute (net_ops k e cfg lib) pton e cfg st heap1 w = (HS_Result res, t)"
  obtains target st' where "GetHandler hid s0 = None" and "net_target n hid s0 target (hs_w t)"
    and "fds_balance (add_mset sock T) (n_svc (hs_w t))"
    and "state_ok (hs_heap t) st'" and "\<forall>r \<in> set (handlerClaims st'). counter (hs_heap t ! r) = 0"
    and "map (\<lambda>r. handlerID (hs_heap t ! r)) (handlerClaims st') = hid # target_list target"
    and "handlerClaimStates st' = map (claim_snapshot (hs_heap t)) (handlerClaims st')"
    and "res = JR_TERMINAL st' \<or> res = JR_CLIENT_MODE_CONNECT st' \<and> target \<noteq> None"
proof -
  obtain st0 where job: "s2 = s1" "state_ok (heap @ [\<lparr>counter = 0, handlerID = hid\<rparr>]) st0"
    "handlerClaims st0 = [length heap]" "Job_ClientHandshake st0 (heap @ [\<lparr>counter = 0, handlerID = hid\<rparr>]) = (st, heap1)"
    using client_job_created [OF assms(4)] .
  note new = tcp_service.create_new [OF assms(1,3)]
  have "fds_balance (add_mset sock T) s1"
    using svc_step_balance [OF assms(1,2), of k e cfg "OpAccepted sock"] assms(3) by simp
  with new have start: "net_tracks n (add_mset sock T) hid s0 None w"
    using assms(5,6) job(1) by (auto simp: net_tracks_def net_target_def fun_eq_iff)
  obtain target st2 heap2 st' where ends: "with_target target st heap1 = (st2, heap2)"
      "DisclaimAllHandlers st2 heap2 = (st', hs_heap t)" "net_tracks n (add_mset sock T) hid s0 target (hs_w t)"
      "res = JR_TERMINAL st' \<or> res = JR_CLIENT_MODE_CONNECT st' \<and> target \<noteq> None"
    using net_tracking.handshake_Execute_tracked [OF assms(7) start] by (auto simp: hs_ends_def)
  note bal = job_claims_balance [OF job(2,4) ends(1,2)]
  have heap: "hs_heap t = heap @ map (\<lambda>h. \<lparr>counter = 0, handlerID = h\<rparr>) (hid # target_list target)"
    and claims: "handlerClaims st' = length heap # map (\<lambda>_. Suc (length heap)) (target_list target)"
    and snaps: "handlerClaimStates st' = map (claim_snapshot (hs_heap t)) (handlerClaims st')"
    using bal job(3) by (auto simp: target_list_def split: option.splits)
  have res: "state_ok (hs_heap t) st'" "\<forall>r \<in> set (handlerClaims st'). counter (hs_heap t ! r) = 0"
    "map (\<lambda>r. handlerID (hs_heap t ! r)) (handlerClaims st') = hid # target_list target"
    unfolding state_ok_def heap claims snaps
    by (auto simp: target_list_def nth_append split: option.splits)
  have "GetHandler hid s0 = None" using new by simp
  from that [OF this _ _ res snaps ends(4)] ends(3) show ?thesis by (simp add: net_tracks_def)
qed

lemma unclaimed_all:
  assumes "\<forall>r \<in> set rs. counter (h ! r) = 0"
  shows "unclaimed (map (claim_snapshot h) rs) = map (\<lambda>r. handlerID (h ! r)) rs"
  using assms by (induction rs) (simp_all add: claim_snapshot_def)

lemma net_target_handlers:
  assumes "net_target n c s0 t w" and "GetHandler c s0 = None"
  shows "GetHandler i (n_svc w) = None \<longleftrightarrow> i \<notin> set (c # target_list t) \<and> GetHandler i s0 = None"
    and "i \<notin> set (c # target_list t) \<Longrightarrow> GetHandler i (n_svc w) = GetHandler i s0"
    and "i \<in> set (c # target_list t) \<Longrightarrow> GetHandler i s0 = None"
    and "service_ok n (n_svc w)"
  using assms service_ok_less [of "Suc n" "n_svc w" n]
  by (auto simp: net_target_def target_list_def split: option.splits) (metis option.distinct(1))+

lemma factory_terminal_eq:
  "CreateJobsFromResult k (JR_TERMINAL st) heap s = ([], heap, fold (DisposeHandler k) (disposals (JR_TERMINAL st)) s)"
  by (simp add: CreateJobsFromResult_def disposals_def dispose_unclaimed_eq)

lemma dispose_list_balance:
  assumes "service_ok n s" and "fds_balance T s"
  shows "fds_balance T (fold (DisposeHandler k) ids s)"
  using assms by (induction ids arbitrary: s) (simp_all add: DisposeHandler_ok DisposeHandler_balance)

lemma mset_handler_fds:
  "mset (handler_fds ids s) = (\<Sum>i \<in># mset ids. case GetHandler i s of None \<Rightarrow> {#} | Some h \<Rightarrow> {#h_fd h#})"
  by (induction ids) (simp_all split: option.splits)

lemma balances_swap:
  fixes c3 :: "'a multiset"
  assumes "o3 + add_mset x t = c3 + l" and "o0 + t = c0 + l"
  shows "c3 + o0 = c0 + o3 + {#x#}"
proof (rule multiset_eqI)
  fix y
  show "count (c3 + o0) y = count (c0 + o3 + {#x#}) y"
    using arg_cong [OF assms(1), of "\<lambda>m. count m y"] arg_cong [OF assms(2), of "\<lambda>m. count m y"]
    by (cases "x = y") simp_all
qed

text \<open>The end of a failed client: its handlers are gone and what was opened for it is closed.\<close>

lemma failed_client_end:
  assumes ok: "service_ok n s" "service_ok m s0" and bal: "fds_balance T s0" "fds_balance (add_mset sock T) s"
    and res: "CreateJobsFromResult k (JR_TERMINAL st) heap s = (jobs, heap2, s3)"
    and same: "\<And>i. i \<notin> set (disposals (JR_TERMINAL st)) \<Longrightarrow> GetHandler i s = GetHandler i s0"
    and none: "\<And>i. i \<in> set (disposals (JR_TERMINAL st)) \<Longrightarrow> GetHandler i s0 = None"
  shows "jobs = [] \<and> (\<forall>i. GetHandler i s3 = GetHandler i s0) \<and>
    mset (closed (svc_calls s3)) + mset (opened (svc_calls s0)) =
      mset (closed (svc_calls s0)) + mset (opened (svc_calls s3)) + {#sock#}"
proof -
  note fin = factory_terminal [OF ok(1) res]
  then have handlers: "GetHandler i s3 = GetHandler i s0" for i
    using same none by auto
  have "service_ok n s3" using fin by simp
  from live_fds_cong [OF this ok(2) handlers] have live: "mset (live_fds s3) = mset (live_fds s0)" .
  have "fds_balance (add_mset sock T) s3"
    using dispose_list_balance [OF ok(1) bal(2), of k] res by (auto simp: factory_terminal_eq)
  from balances_swap [OF this [unfolded fds_balance_def live] bal(1) [unfolded fds_balance_def]]
  show ?thesis using fin handlers by simp
qed

text \<open>The end of a connected one: both tunnels' disposals close the two sockets.\<close>

lemma tunnels_close:
  assumes "mset (disposals (JR_TERMINAL sa)) + mset (disposals (JR_TERMINAL sb)) = mset ids" and "distinct ids"
    and "CreateJobsFromResult k (JR_TERMINAL sa) h4 s4 = (jobs5, h5, s5)"
    and "CreateJobsFromResult k (JR_TERMINAL sb) h6 s5 = (jobs6, h7, s6)"
  shows "mset (closed (svc_calls s6)) = mset (closed (svc_calls s4)) + mset (handler_fds ids s4)"
proof -
  let ?ds = "disposals (JR_TERMINAL sa) @ disposals (JR_TERMINAL sb)"
  have bag: "mset ?ds = mset ids" using assms(1) by simp
  then have "distinct ?ds" using assms(2) mset_eq_imp_distinct_iff by blast
  moreover have "s6 = fold (DisposeHandler k) ?ds s4"
    using assms(3,4) by (simp add: factory_terminal_eq)
  ultimately have "closed (svc_calls s6) = closed (svc_calls s4) @ handler_fds ?ds s4"
    using dispose_list_calls by blast
  then show ?thesis using bag by (simp only: mset_append mset_handler_fds)
qed

lemma connection_end:
  assumes "state_ok heap st" and "\<forall>r \<in> set (handlerClaims st). counter (heap ! r) = 0"
    and "CreateJobsFromResult k (JR_CLIENT_MODE_CONNECT st) heap s =
      ([TCPTunnel st1 True, TCPTunnel st2 False], heap', s')"
    and "map (\<lambda>r. handlerID (heap ! r)) (handlerClaims st) = [a, b]" and "a \<noteq> b"
  shows "\<forall>first ts m stA stB h4 h5 h6 h7 jobs5 jobs6 s4 s5 s6.
    steps_of True ts = handlerClaims st1 \<and> steps_of False ts = handlerClaims st2 \<and> service_ok m s4 \<and>
    CreateJobsFromResult k (tunnel_end first ts heap' stA) h4 s4 = (jobs5, h5, s5) \<and>
    CreateJobsFromResult k (tunnel_end (\<not> first) ts heap' stB) h6 s5 = (jobs6, h7, s6) \<longrightarrow>
    jobs5 = [] \<and> jobs6 = [] \<and> (\<forall>i. GetHandler i s6 = (if i = a \<or> i = b then None else GetHandler i s4)) \<and>
    mset (closed (svc_calls s6)) = mset (closed (svc_calls s4)) + mset (handler_fds [a, b] s4)"
proof (intro allI impI, elim conjE)
  fix first ts m stA stB h4 h5 h6 h7 jobs5 jobs6 s4 s5 s6
  assume steps: "steps_of True ts = handlerClaims st1" "steps_of False ts = handlerClaims st2" and ok: "service_ok m s4"
    and r5: "CreateJobsFromResult k (tunnel_end first ts heap' stA) h4 s4 = (jobs5, h5, s5)"
    and r6: "CreateJobsFromResult k (tunnel_end (\<not> first) ts heap' stB) h6 s5 = (jobs6, h7, s6)"
  have "(\<lambda>r. handlerID (heap ! r)) ` set (handlerClaims st) = {a, b}"
    using arg_cong [OF assms(4), of set] by simp
  moreover have "mset (closed (svc_calls s6)) = mset (closed (svc_calls s4)) + mset (handler_fds [a, b] s4)"
    using tunnels_disposals_created [OF assms(1-3) steps, of first stA stB] assms(4,5) r5 r6
    unfolding tunnel_end_def by (intro tunnels_close) simp_all
  ultimately show "jobs5 = [] \<and> jobs6 = [] \<and> (\<forall>i. GetHandler i s6 = (if i = a \<or> i = b then None else GetHandler i s4)) \<and>
    mset (closed (svc_calls s6)) = mset (closed (svc_calls s4)) + mset (handler_fds [a, b] s4)"
    using tunnels_dispose_all [OF assms(1-3) steps ok r5 r6] by simp
qed

text \<open>
  C5.  A client leaves no handler and no socket behind.  From the moment the listener adopts its socket until its
  last job is accounted for by the factory, a client adds its own handler and at most that of one target.  If the
  handshake fails, in whatever way and after whatever connection attempts, then once its result was processed the
  handlers are those before the client came, and the sockets closed meanwhile are, each once, the client's and
  all those opened for it.  If it connects, its two tunnels get the handlers of client and target, and once their results were
  processed, in either order and with any interleaving of the releases, exactly these two handlers are gone and
  their sockets closed, each once, whatever other clients did in the meantime.  (A run that ends in undefined behaviour has no result and is
  not covered.  \<open>fds_balance\<close> says that the sockets
  opened by the service and those handed to it, \<open>T\<close>, are the closed ones and those of live handlers, which holds
  of every service by theory \<open>Comm_Service\<close>; \<open>handler_fds\<close> are the sockets of the handlers that exist.)
\<close>

theorem client_leaves_no_handler:
  assumes room: "service_ok (Suc (Suc n)) s0" and bal: "fds_balance T s0"
    and accept: "CreateHandlerFromSocket k cfg sock s0 = (hid, s1)"
    and new: "CreateJobsFromResult k (JR_NEW_CLIENT hid) heap s1 = ([ClientHandshake st], heap1, s2)"
    and start: "n_svc w = s2" "n_client w = hid"
    and run: "handshake_Execute (net_ops k e cfg lib) pton e cfg st heap1 w = (HS_Result res, t)"
    and after: "CreateJobsFromResult k res (hs_heap t) (n_svc (hs_w t)) = (jobs, heap2, s3)"
  shows "jobs = [] \<and> (\<forall>i. GetHandler i s3 = GetHandler i s0) \<and>
      mset (closed (svc_calls s3)) + mset (opened (svc_calls s0)) =
        mset (closed (svc_calls s0)) + mset (opened (svc_calls s3)) + {#sock#} \<or>
    (\<exists>st1 st2 target. jobs = [TCPTunnel st1 True, TCPTunnel st2 False] \<and> hid \<noteq> target \<and>
       (\<forall>i. GetHandler i s3 = None \<longleftrightarrow> i \<noteq> hid \<and> i \<noteq> target \<and> GetHandler i s0 = None) \<and>
       (\<forall>i. i \<noteq> hid \<and> i \<noteq> target \<longrightarrow> GetHandler i s3 = GetHandler i s0) \<and>
       (\<forall>first ts m stA stB h4 h5 h6 h7 jobs5 jobs6 s4 s5 s6.
          steps_of True ts = handlerClaims st1 \<and> steps_of False ts = handlerClaims st2 \<and> service_ok m s4 \<and>
          CreateJobsFromResult k (tunnel_end first ts heap2 stA) h4 s4 = (jobs5, h5, s5) \<and>
          CreateJobsFromResult k (tunnel_end (\<not> first) ts heap2 stB) h6 s5 = (jobs6, h7, s6) \<longrightarrow>
          jobs5 = [] \<and> jobs6 = [] \<and>
          (\<forall>i. GetHandler i s6 = (if i = hid \<or> i = target then None else GetHandler i s4)) \<and>
          mset (closed (svc_calls s6)) = mset (closed (svc_calls s4)) + mset (handler_fds [hid, target] s4)))"
proof -
  obtain target st' where hs: "GetHandler hid s0 = None" "net_target n hid s0 target (hs_w t)"
    "fds_balance (add_mset sock T) (n_svc (hs_w t))"
    "state_ok (hs_heap t) st'" "\<forall>r \<in> set (handlerClaims st'). counter (hs_heap t ! r) = 0"
    "map (\<lambda>r. handlerID (hs_heap t ! r)) (handlerClaims st') = hid # target_list target"
    "handlerClaimStates st' = map (claim_snapshot (hs_heap t)) (handlerClaims st')"
    "res = JR_TERMINAL st' \<or> res = JR_CLIENT_MODE_CONNECT st' \<and> target \<noteq> None"
    using handshake_of_new_client [OF room bal accept new start run] .
  note svc = net_target_handlers [OF hs(2,1)]
  show ?thesis
  proof (cases "res = JR_TERMINAL st'")
    case True
    have ds: "disposals (JR_TERMINAL st') = hid # target_list target"
      using hs(5-7) by (simp add: disposals_def unclaimed_all)
    show ?thesis
      using failed_client_end [OF svc(4) room bal hs(3) after [unfolded True]] svc(2,3) unfolding ds by blast
  next
    case False
    then obtain tgt where con: "res = JR_CLIENT_MODE_CONNECT st'" "target = Some tgt" using hs(8) by blast
    obtain st1 st2 where two: "jobs = [TCPTunnel st1 True, TCPTunnel st2 False]" "s3 = n_svc (hs_w t)"
      using two_tunnels_claimed [OF hs(4) after [unfolded con(1)]] by blast
    note all = connection_end [OF hs(4,5) after [unfolded con(1) two(1)], of hid tgt]
    have ne: "hid \<noteq> tgt" using hs(2) con(2) by (auto simp: net_target_def)
    have claims: "map (\<lambda>r. handlerID (hs_heap t ! r)) (handlerClaims st') = [hid, tgt]"
      using hs(6) con(2) by (simp add: target_list_def)
    show ?thesis
      using two svc(1,2) con(2) ne all [OF claims ne]
      by (intro disjI2 exI [of _ st1] exI [of _ st2] exI [of _ tgt]) (simp add: target_list_def)
  qed
qed

text \<open>The client of theory \<open>Handshake_Theorems\<close>, from its acceptance on.\<close>

lemma demo_accepted:
  "CreateHandlerFromSocket open_kernel demo_config 7 (TCPCommService open_kernel demo_config) = (1, n_svc (demo_net dest))"
proof -
  have "fst (CreateHandlerFromSocket open_kernel demo_config 7 (TCPCommService open_kernel demo_config)) = 1"
    by code_simp
  then show ?thesis by (simp add: demo_net_def prod_eq_iff)
qed

lemma demo_job:
  "CreateJobsFromResult open_kernel (JR_NEW_CLIENT 1) [] s =
     ([ClientHandshake (fst (Job_ClientHandshake demo_state demo_heap))], snd (Job_ClientHandshake demo_state demo_heap), s)"
proof -
  have "AddHandler 1 State_empty [] = (demo_state, demo_heap)" by code_simp
  then show ?thesis by (simp add: CreateJobsFromResult_def case_prod_beta Let_def)
qed

theorem client_leaves_no_handler_witness:
  "\<exists>res t jobs heap2 s3 st1 st2 target. demo_run (Dest_V4 [10, 0, 0, 1]) demo_sa4 = (HS_Result res, t) \<and>
    CreateJobsFromResult open_kernel res (hs_heap t) (n_svc (hs_w t)) = (jobs, heap2, s3) \<and>
    jobs = [TCPTunnel st1 True, TCPTunnel st2 False] \<and> 1 \<noteq> target \<and>
    (\<forall>i. GetHandler i s3 = None \<longleftrightarrow> i \<noteq> 1 \<and> i \<noteq> target)"
proof -
  let ?dest = "Dest_V4 [10, 0, 0, 1]"
  let ?s0 = "TCPCommService open_kernel demo_config"
  obtain st' t where out: "demo_run ?dest demo_sa4 = (HS_Result (JR_CLIENT_MODE_CONNECT st'), t)"
    using demo_run_facts(1) [of ?dest] by (cases "demo_run ?dest demo_sa4") auto
  have room: "service_ok (Suc (Suc 0)) ?s0" by (rule service_ok_new) (simp add: HANDLER_ERROR_def)
  have bal: "fds_balance {#} ?s0" by (simp add: fds_balance_def TCPCommService_def Let_def live_fds_def)
  have none: "GetHandler i ?s0 = None" for i by (simp add: GetHandler_def TCPCommService_def Let_def)
  obtain jobs heap2 s3 where after: "CreateJobsFromResult open_kernel (JR_CLIENT_MODE_CONNECT st') (hs_heap t)
      (n_svc (hs_w t)) = (jobs, heap2, s3)" by (metis prod.collapse)
  then have "jobs \<noteq> []" by (auto simp: CreateJobsFromResult_def split: prod.splits)
  have client: "n_client (demo_net ?dest) = 1" by (simp add: demo_net_def)
  from client_leaves_no_handler [OF room bal demo_accepted demo_job refl client out [unfolded demo_run_def] after]
  show ?thesis
  proof (elim disjE exE conjE, goal_cases)
    case 1
    from \<open>jobs \<noteq> []\<close> 1(1) show ?case by (rule notE)
  next
    case (2 st1 st2 target)
    have "GetHandler i s3 = None \<longleftrightarrow> i \<noteq> 1 \<and> i \<noteq> target" for i
      using spec [OF 2(3), of i] by (simp only: none simp_thms)
    then show ?case using out after 2(1,2) by (intro exI conjI allI)
  qed
qed

end
