(* ===== verification/Message_Broker.thy ===== *)
theory Message_Broker
  imports Jobs
begin

text \<open>
  \<open>src/Src/IMessage.h\<close>, \<open>IMessageSubscriber.h\<close>, \<open>IMessageSender.h\<close> and \<open>MessageBroker.*\<close>: the bus
  between the components.  Sending a message calls the subscribers that are ready for its type, in
  the order of the set of pointers, on the sender's thread; a subscriber may send messages itself.

  The source has two brokers, selected by \<open>NDEBUG\<close>: the release version, and a debug version that
  refuses a message whose sender is already sending on the same thread.  Sends nest, so both are
  defined by recursion on a bound of the nesting depth; \<open>None\<close> means that the bound was reached.
\<close>

section \<open>Messages and subscribers\<close>

datatype MsgType = MSG_SHUTDOWN | MSG_JOB_COMPLETE | MSG_STARTUP_READY | MSG_STARTUP_CONTINUE

datatype message =
    ShutdownMessage int
  | JobCompleteMessage job_result
  | StartupReadyMessage
  | StartupContinueMessage

primrec msgType :: "message \<Rightarrow> MsgType" where
  "msgType (ShutdownMessage ec) = MSG_SHUTDOWN"
| "msgType (JobCompleteMessage result) = MSG_JOB_COMPLETE"
| "msgType StartupReadyMessage = MSG_STARTUP_READY"
| "msgType StartupContinueMessage = MSG_STARTUP_CONTINUE"

type_synonym ptr = nat
type_synonym tid = nat

text \<open>
  What a subscriber does with a message: a sequence of changes of the state of the subscribers and
  of messages it sends, with the sender it names.
\<close>

datatype 's act = Local "'s \<Rightarrow> 's" | Post ptr message

record 's subscribers_iface =
  ReadyForMessage :: "ptr \<Rightarrow> MsgType \<Rightarrow> bool"
  OnMessage :: "ptr \<Rightarrow> ptr \<Rightarrow> message \<Rightarrow> 's \<Rightarrow> 's act list"

section \<open>Delivery\<close>

primrec run_acts :: "(ptr \<Rightarrow> message \<Rightarrow> 'b \<times> 's \<Rightarrow> ('b \<times> 's) option) \<Rightarrow> 's act list \<Rightarrow> 'b \<times> 's \<Rightarrow>
    ('b \<times> 's) option" where
  "run_acts post [] bs = Some bs"
| "run_acts post (a # as) bs =
     (case a of
        Local f \<Rightarrow> run_acts post as (fst bs, f (snd bs))
      | Post src m \<Rightarrow> Option.bind (post src m bs) (run_acts post as))"

text \<open>The loop over the subscribers, the same in both versions.\<close>

primrec notify_all :: "(ptr \<Rightarrow> message \<Rightarrow> 'b \<times> 's \<Rightarrow> ('b \<times> 's) option) \<Rightarrow> 's subscribers_iface \<Rightarrow> ptr \<Rightarrow>
    message \<Rightarrow> ptr list \<Rightarrow> 'b \<times> 's \<Rightarrow> ('b \<times> 's) option" where
  "notify_all post sys src m [] bs = Some bs"
| "notify_all post sys src m (p # ps) bs =
     (if ReadyForMessage sys p (msgType m)
      then Option.bind (run_acts post (OnMessage sys p src m (snd bs)) bs) (notify_all post sys src m ps)
      else notify_all post sys src m ps bs)"

section \<open>The release version\<close>

text \<open>A \<open>std::set\<close> of pointers is iterated in ascending order.\<close>

record broker =
  curSubs :: "ptr list immutable_storage"

definition MessageBroker :: broker where
  "MessageBroker = \<lparr>curSubs = IS_new []\<rparr>"

definition AddSubscriber :: "ptr \<Rightarrow> broker \<Rightarrow> broker" where
  "AddSubscriber p b = b\<lparr>curSubs := IS_Set (insort_insert p (IS_Get (curSubs b))) (curSubs b)\<rparr>"

primrec SendMessage :: "nat \<Rightarrow> 's subscribers_iface \<Rightarrow> ptr \<Rightarrow> message \<Rightarrow> broker \<times> 's \<Rightarrow> (broker \<times> 's) option" where
  "SendMessage 0 sys src m bs = None"
| "SendMessage (Suc depth) sys src m bs =
     notify_all (SendMessage depth sys) sys src m (IS_Get (curSubs (fst bs))) bs"

section \<open>The debug version\<close>

text \<open>
  \<open>callers\<close> maps a thread to the senders whose messages it is delivering; \<open>errors\<close> records the
  types of the messages that were refused.
\<close>

record dbg_broker =
  subscribers :: "ptr list"
  callers :: "tid \<rightharpoonup> ptr set"
  errors :: "MsgType list"

definition MessageBroker_dbg :: dbg_broker where
  "MessageBroker_dbg = \<lparr>subscribers = [], callers = Map.empty, errors = []\<rparr>"

definition AddSubscriber_dbg :: "ptr \<Rightarrow> dbg_broker \<Rightarrow> dbg_broker" where
  "AddSubscriber_dbg p b = b\<lparr>subscribers := insort_insert p (subscribers b)\<rparr>"

definition leave_sender :: "tid \<Rightarrow> ptr \<Rightarrow> dbg_broker \<Rightarrow> dbg_broker" where
  "leave_sender t src b =
     (case callers b t of
        None \<Rightarrow> b
      | Some curSenders \<Rightarrow> b\<lparr>callers := (callers b)(t :=
          (if curSenders - {src} = {} then None else Some (curSenders - {src})))\<rparr>)"

primrec SendMessage_dbg :: "nat \<Rightarrow> 's subscribers_iface \<Rightarrow> tid \<Rightarrow> ptr \<Rightarrow> message \<Rightarrow> dbg_broker \<times> 's \<Rightarrow>
    (dbg_broker \<times> 's) option" where
  "SendMessage_dbg 0 sys t src m bs = None"
| "SendMessage_dbg (Suc depth) sys t src m bs =
     (let curSenders = (case callers (fst bs) t of None \<Rightarrow> {} | Some cs \<Rightarrow> cs)
      in if src \<in> curSenders
      then Some ((fst bs)\<lparr>errors := errors (fst bs) @ [msgType m]\<rparr>, snd bs)
      else map_option (\<lambda>(b, s). (leave_sender t src b, s))
        (notify_all (SendMessage_dbg depth sys t) sys src m (subscribers (fst bs))
          ((fst bs)\<lparr>callers := (callers (fst bs))(t \<mapsto> insert src curSenders)\<rparr>, snd bs)))"


section \<open>Subscription\<close>

text \<open>Both versions keep the pointers of the subscribers as a set, in ascending order.\<close>

lemma insort_insert_sorted_list_of_set:
  "finite A \<Longrightarrow> insort_insert p (sorted_list_of_set A) = sorted_list_of_set (insert p A)"
  by (cases "p \<in> A") (simp_all add: insort_insert_insort insort_insert_triv insert_absorb)

lemma subscribers_of_registrations:
  "IS_Get (curSubs (fold AddSubscriber ps MessageBroker)) = sorted_list_of_set (set ps)"
  "subscribers (fold AddSubscriber_dbg ps MessageBroker_dbg) = sorted_list_of_set (set ps)"
proof -
  have "IS_Get (curSubs (fold AddSubscriber ps b)) = sorted_list_of_set (A \<union> set ps)"
    if "IS_Get (curSubs b) = sorted_list_of_set A" "finite A" for A b
    using that
  proof (induction ps arbitrary: A b)
    case (Cons p ps)
    from Cons.IH [of "AddSubscriber p b" "insert p A"] Cons.prems show ?case
      by (simp add: AddSubscriber_def insort_insert_sorted_list_of_set)
  qed simp
  from this [of MessageBroker "{}"]
  show "IS_Get (curSubs (fold AddSubscriber ps MessageBroker)) = sorted_list_of_set (set ps)"
    by (simp add: MessageBroker_def)
  have "subscribers (fold AddSubscriber_dbg ps b) = sorted_list_of_set (A \<union> set ps)"
    if "subscribers b = sorted_list_of_set A" "finite A" for A b
    using that
  proof (induction ps arbitrary: A b)
    case (Cons p ps)
    from Cons.IH [of "AddSubscriber_dbg p b" "insert p A"] Cons.prems show ?case
      by (simp add: AddSubscriber_dbg_def insort_insert_sorted_list_of_set)
  qed simp
  from this [of MessageBroker_dbg "{}"]
  show "subscribers (fold AddSubscriber_dbg ps MessageBroker_dbg) = sorted_list_of_set (set ps)"
    by (simp add: MessageBroker_dbg_def)
qed

section \<open>What nested sends keep\<close>

lemma run_acts_keeps:
  assumes "\<And>src m b s b' s'. P b \<Longrightarrow> post src m (b, s) = Some (b', s') \<Longrightarrow> P b'"
  shows "P b \<Longrightarrow> run_acts post as (b, s) = Some (b', s') \<Longrightarrow> P b'"
proof (induction as arbitrary: b s)
  case (Cons a as)
  then show ?case
    using assms by (cases a) (simp_all add: bind_eq_Some_conv, blast)
qed simp

lemma notify_all_keeps:
  assumes "\<And>src m b s b' s'. P b \<Longrightarrow> post src m (b, s) = Some (b', s') \<Longrightarrow> P b'"
  shows "P b \<Longrightarrow> notify_all post sys src m ps (b, s) = Some (b', s') \<Longrightarrow> P b'"
proof (induction ps arbitrary: b s)
  case (Cons p ps)
  show ?case
  proof (cases "ReadyForMessage sys p (msgType m)")
    case True
    then obtain b1 s1 where "run_acts post (OnMessage sys p src m s) (b, s) = Some (b1, s1)"
        "notify_all post sys src m ps (b1, s1) = Some (b', s')"
      using Cons.prems by (auto simp: bind_eq_Some_conv)
    then show ?thesis
      using Cons.IH [of b1 s1] run_acts_keeps [of P post b "OnMessage sys p src m s" s b1 s1] assms Cons.prems
      by blast
  next
    case False
    then show ?thesis using Cons by simp
  qed
qed simp

text \<open>A set of senders is never empty, and a send restores the table and only appends errors.\<close>

definition dbg_frame :: "tid \<Rightarrow> dbg_broker \<Rightarrow> dbg_broker \<Rightarrow> bool" where
  "dbg_frame t b b' \<longleftrightarrow> callers b t \<noteq> Some {} \<and> callers b' = callers b \<and> subscribers b' = subscribers b \<and>
     (\<exists>es. errors b' = errors b @ es)"

lemma dbg_frame_refl: "callers b t \<noteq> Some {} \<Longrightarrow> dbg_frame t b b"
  by (simp add: dbg_frame_def)

lemma dbg_frame_trans: "dbg_frame t a b \<Longrightarrow> dbg_frame t b c \<Longrightarrow> dbg_frame t a c"
  by (auto simp: dbg_frame_def)

definition enter_sender :: "tid \<Rightarrow> ptr \<Rightarrow> dbg_broker \<Rightarrow> dbg_broker" where
  "enter_sender t src b = b\<lparr>callers := (callers b)(t \<mapsto> insert src (case callers b t of None \<Rightarrow> {} | Some cs \<Rightarrow> cs))\<rparr>"

definition senders :: "tid \<Rightarrow> dbg_broker \<Rightarrow> ptr set" where
  "senders t b = (case callers b t of None \<Rightarrow> {} | Some cs \<Rightarrow> cs)"

lemma SendMessage_dbg_Suc:
  "SendMessage_dbg (Suc d) sys t src m (b, s) =
     (if src \<in> senders t b then Some (b\<lparr>errors := errors b @ [msgType m]\<rparr>, s)
      else map_option (\<lambda>(b, s). (leave_sender t src b, s))
        (notify_all (SendMessage_dbg d sys t) sys src m (subscribers b) (enter_sender t src b, s)))"
  by (simp add: senders_def enter_sender_def Let_def)

declare SendMessage_dbg.simps(2) [simp del]

lemma enter_sender_simps [simp]:
  "senders t (enter_sender t src b) = insert src (senders t b)"
  "callers (enter_sender t src b) t \<noteq> Some {}"
  "subscribers (enter_sender t src b) = subscribers b" "errors (enter_sender t src b) = errors b"
  by (simp_all add: enter_sender_def senders_def)

lemma leave_after_enter:
  assumes "callers b t \<noteq> Some {}" and "src \<notin> senders t b" and "dbg_frame t (enter_sender t src b) b'"
  shows "callers (leave_sender t src b') = callers b" "subscribers (leave_sender t src b') = subscribers b"
    "errors (leave_sender t src b') = errors b'"
proof -
  have "callers b' = callers (enter_sender t src b)" "subscribers b' = subscribers b"
    using assms(3) by (simp_all add: dbg_frame_def)
  then show "callers (leave_sender t src b') = callers b" "subscribers (leave_sender t src b') = subscribers b"
    "errors (leave_sender t src b') = errors b'"
    using assms(1,2)
    by (auto simp: leave_sender_def enter_sender_def senders_def fun_eq_iff split: option.splits)
qed

lemma SendMessage_dbg_frame:
  "SendMessage_dbg d sys t src m (b, s) = Some (b', s') \<Longrightarrow> callers b t \<noteq> Some {} \<Longrightarrow> dbg_frame t b b'"
proof (induction d arbitrary: src m b s b' s')
  case (Suc d)
  show ?case
  proof (cases "src \<in> senders t b")
    case True
    then show ?thesis using Suc.prems by (auto simp: SendMessage_dbg_Suc dbg_frame_def)
  next
    case False
    then obtain b1 where run: "notify_all (SendMessage_dbg d sys t) sys src m (subscribers b)
        (enter_sender t src b, s) = Some (b1, s')" "b' = leave_sender t src b1"
      using Suc.prems(1) by (auto simp: SendMessage_dbg_Suc)
    have keep: "dbg_frame t (enter_sender t src b) b''"
      if "dbg_frame t (enter_sender t src b) a" "SendMessage_dbg d sys t src' m' (a, x) = Some (b'', x')" for src' m' a x b'' x'
    proof -
      have "callers a t \<noteq> Some {}" using that(1) by (simp add: dbg_frame_def)
      then show ?thesis using Suc.IH [OF that(2)] that(1) dbg_frame_trans by blast
    qed
    have "dbg_frame t (enter_sender t src b) b1"
      by (rule notify_all_keeps [where P = "dbg_frame t (enter_sender t src b)", OF keep dbg_frame_refl run(1)]) simp_all
    then show ?thesis
      using leave_after_enter [OF Suc.prems(2) False, of b1] run(2) Suc.prems(2)
      by (simp add: dbg_frame_def)
  qed
qed simp

section \<open>The debug version never recurses forever\<close>

lemma run_acts_total:
  assumes post: "\<And>src m b s. P b \<Longrightarrow> src \<in> S \<Longrightarrow> \<exists>b' s'. post src m (b, s) = Some (b', s') \<and> P b'"
  shows "P b \<Longrightarrow> (\<And>src m. Post src m \<in> set as \<Longrightarrow> src \<in> S) \<Longrightarrow>
    \<exists>b' s'. run_acts post as (b, s) = Some (b', s') \<and> P b'"
proof (induction as arbitrary: b s)
  case (Cons a as)
  show ?case
  proof (cases a)
    case (Local f)
    then show ?thesis using Cons by simp
  next
    case (Post src m)
    then obtain b1 s1 where "post src m (b, s) = Some (b1, s1)" "P b1"
      using post [of b src m s] Cons.prems by auto
    moreover from this have "\<exists>b' s'. run_acts post as (b1, s1) = Some (b', s') \<and> P b'"
      using Cons.prems by (intro Cons.IH) auto
    ultimately show ?thesis using Post by simp
  qed
qed simp

lemma notify_all_total:
  assumes post: "\<And>src m b s. P b \<Longrightarrow> src \<in> S \<Longrightarrow> \<exists>b' s'. post src m (b, s) = Some (b', s') \<and> P b'"
    and acts: "\<And>p s src' m'. Post src' m' \<in> set (OnMessage sys p src m s) \<Longrightarrow> src' \<in> S"
  shows "P b \<Longrightarrow> \<exists>b' s'. notify_all post sys src m ps (b, s) = Some (b', s') \<and> P b'"
proof (induction ps arbitrary: b s)
  case (Cons p ps)
  obtain b1 s1 where "run_acts post (OnMessage sys p src m s) (b, s) = Some (b1, s1)" "P b1"
    using run_acts_total [of P S post b "OnMessage sys p src m s" s] post acts Cons.prems by blast
  then show ?case using Cons by simp
qed simp

lemma SendMessage_dbg_total:
  assumes "finite S" and acts: "\<And>p src m s src' m'. Post src' m' \<in> set (OnMessage sys p src m s) \<Longrightarrow> src' \<in> S"
  shows "src \<in> S \<Longrightarrow> callers b t \<noteq> Some {} \<Longrightarrow> card (S - senders t b) < d \<Longrightarrow>
    \<exists>b' s'. SendMessage_dbg d sys t src m (b, s) = Some (b', s')"
proof (induction d arbitrary: src m b s)
  case (Suc d)
  show ?case
  proof (cases "src \<in> senders t b")
    case True
    then show ?thesis by (simp add: SendMessage_dbg_Suc)
  next
    case False
    let ?b1 = "enter_sender t src b"
    have "S - senders t ?b1 = (S - senders t b) - {src}" by auto
    then have card: "card (S - senders t ?b1) < d"
      using Suc.prems False card_Diff1_less [of "S - senders t b" src] assms(1)
      by (metis Diff_iff finite_Diff less_Suc_eq_le order.strict_trans2)
    have post: "\<exists>b' s'. SendMessage_dbg d sys t src' m' (a, x) = Some (b', s') \<and> dbg_frame t ?b1 b'"
      if "dbg_frame t ?b1 a" "src' \<in> S" for src' m' a x
    proof -
      have a: "callers a t \<noteq> Some {}" "senders t a = senders t ?b1"
        using that(1) by (simp_all add: dbg_frame_def senders_def)
      have "\<exists>b' s'. SendMessage_dbg d sys t src' m' (a, x) = Some (b', s')"
        using Suc.IH [OF that(2) a(1)] a(2) card by metis
      then obtain b' s' where run: "SendMessage_dbg d sys t src' m' (a, x) = Some (b', s')" by blast
      then show ?thesis
        using SendMessage_dbg_frame [OF run a(1)] that(1) dbg_frame_trans by blast
    qed
    have "\<exists>b' s'. notify_all (SendMessage_dbg d sys t) sys src m (subscribers b) (?b1, s) = Some (b', s') \<and>
        dbg_frame t ?b1 b'"
      using post acts by (intro notify_all_total [where S = S]) (simp_all add: dbg_frame_refl)
    then show ?thesis using False by (auto simp: SendMessage_dbg_Suc)
  qed
qed simp

text \<open>
  C28.  The debug broker ends on every input: whatever the subscribers do with messages, if only
  finitely many senders exist, a send returns, the nesting never exceeds the number of senders, and
  afterwards the table of senders is as before, on every thread.
\<close>

theorem SendMessage_dbg_terminates:
  assumes "finite S" and "src \<in> S"
    and "\<forall>p src m s src' m'. Post src' m' \<in> set (OnMessage sys p src m s) \<longrightarrow> src' \<in> S"
    and "callers b t \<noteq> Some {}" and "card S < d"
  shows "\<exists>b' s'. SendMessage_dbg d sys t src m (b, s) = Some (b', s') \<and> callers b' = callers b \<and>
    subscribers b' = subscribers b"
proof -
  have "card (S - senders t b) < d"
    using card_mono [OF assms(1), of "S - senders t b"] assms(5) by auto
  then obtain b' s' where "SendMessage_dbg d sys t src m (b, s) = Some (b', s')"
    using SendMessage_dbg_total [of S sys src b t d m s] assms by blast
  then show ?thesis using SendMessage_dbg_frame assms(4) by (fastforce simp: dbg_frame_def)
qed

text \<open>Two subscribers that answer every message with another one: the release version would not end.\<close>

definition echo :: "nat subscribers_iface" where
  "echo = \<lparr>ReadyForMessage = (\<lambda>p ty. True),
     OnMessage = (\<lambda>p src m s. [Local Suc, Post (if p = 0 then 0 else 1) m])\<rparr>"

theorem SendMessage_dbg_terminates_witness:
  "\<exists>b' s'. SendMessage_dbg 4 echo 7 2 StartupReadyMessage (fold AddSubscriber_dbg [1, 0] MessageBroker_dbg, 0) =
      Some (b', s') \<and> callers b' = Map.empty"
proof -
  have start: "callers (fold AddSubscriber_dbg [1, 0] MessageBroker_dbg) = Map.empty"
    by (simp add: AddSubscriber_dbg_def MessageBroker_dbg_def)
  have "card {0, 1, 2 :: ptr} < 4" by simp
  moreover have "\<forall>p src m s src' m'. Post src' m' \<in> set (OnMessage echo p src m s) \<longrightarrow> src' \<in> {0, 1, 2}"
    by (simp add: echo_def)
  ultimately show ?thesis
    using SendMessage_dbg_terminates [of "{0, 1, 2}" 2 echo "fold AddSubscriber_dbg [1, 0] MessageBroker_dbg" 7 4
        StartupReadyMessage 0] start
    by fastforce
qed

section \<open>Debug and release builds agree\<close>

lemma run_acts_agree:
  assumes post: "\<And>src m b s b' s'. P b \<Longrightarrow> pd src m (b, s) = Some (b', s') \<Longrightarrow>
      P b' \<and> (\<exists>es. errors b' = errors b @ es) \<and> (errors b' = errors b \<longrightarrow> pr src m (r, s) = Some (r, s'))"
  shows "P b \<Longrightarrow> run_acts pd as (b, s) = Some (b', s') \<Longrightarrow>
    P b' \<and> (\<exists>es. errors b' = errors b @ es) \<and> (errors b' = errors b \<longrightarrow> run_acts pr as (r, s) = Some (r, s'))"
proof (induction as arbitrary: b s)
  case (Cons a as)
  show ?case
  proof (cases a)
    case (Local f)
    then show ?thesis using Cons by simp
  next
    case (Post src m)
    then obtain b1 s1 where 1: "pd src m (b, s) = Some (b1, s1)" "run_acts pd as (b1, s1) = Some (b', s')"
      using Cons.prems(2) by (auto simp: bind_eq_Some_conv)
    note step = post [OF Cons.prems(1) 1(1)]
    then have rest: "P b' \<and> (\<exists>es. errors b' = errors b1 @ es) \<and>
        (errors b' = errors b1 \<longrightarrow> run_acts pr as (r, s1) = Some (r, s'))"
      using Cons.IH [OF _ 1(2)] by blast
    then show ?thesis using step Post by auto
  qed
qed simp

lemma notify_all_agree:
  assumes post: "\<And>src m b s b' s'. P b \<Longrightarrow> pd src m (b, s) = Some (b', s') \<Longrightarrow>
      P b' \<and> (\<exists>es. errors b' = errors b @ es) \<and> (errors b' = errors b \<longrightarrow> pr src m (r, s) = Some (r, s'))"
  shows "P b \<Longrightarrow> notify_all pd sys src m ps (b, s) = Some (b', s') \<Longrightarrow>
    P b' \<and> (\<exists>es. errors b' = errors b @ es) \<and>
    (errors b' = errors b \<longrightarrow> notify_all pr sys src m ps (r, s) = Some (r, s'))"
proof (induction ps arbitrary: b s)
  case (Cons p ps)
  show ?case
  proof (cases "ReadyForMessage sys p (msgType m)")
    case True
    then obtain b1 s1 where 1: "run_acts pd (OnMessage sys p src m s) (b, s) = Some (b1, s1)"
        "notify_all pd sys src m ps (b1, s1) = Some (b', s')"
      using Cons.prems(2) by (auto simp: bind_eq_Some_conv)
    note step = run_acts_agree [where P = P and pd = pd and pr = pr and r = r, OF post Cons.prems(1) 1(1)]
    then have rest: "P b' \<and> (\<exists>es. errors b' = errors b1 @ es) \<and>
        (errors b' = errors b1 \<longrightarrow> notify_all pr sys src m ps (r, s1) = Some (r, s'))"
      using Cons.IH [OF _ 1(2)] by blast
    then show ?thesis using step True by auto
  next
    case False
    then show ?thesis using Cons by simp
  qed
qed simp

lemma SendMessage_agree:
  "SendMessage_dbg d sys t src m (b, s) = Some (b', s') \<Longrightarrow> callers b t \<noteq> Some {} \<Longrightarrow> errors b' = errors b \<Longrightarrow>
     IS_Get (curSubs r) = subscribers b \<Longrightarrow> SendMessage d sys src m (r, s) = Some (r, s')"
proof (induction d arbitrary: src m b s b' s')
  case (Suc d)
  have fresh: "src \<notin> senders t b"
    using Suc.prems(1,3) by (auto simp: SendMessage_dbg_Suc)
  let ?b1 = "enter_sender t src b"
  obtain b2 where run: "notify_all (SendMessage_dbg d sys t) sys src m (subscribers b) (?b1, s) = Some (b2, s')"
      "b' = leave_sender t src b2"
    using Suc.prems(1) fresh by (auto simp: SendMessage_dbg_Suc)
  have post: "dbg_frame t ?b1 a' \<and> (\<exists>es. errors a' = errors a @ es) \<and>
      (errors a' = errors a \<longrightarrow> SendMessage d sys src' m' (r, x) = Some (r, x'))"
    if "dbg_frame t ?b1 a" "SendMessage_dbg d sys t src' m' (a, x) = Some (a', x')" for src' m' a x a' x'
  proof -
    have a: "callers a t \<noteq> Some {}" "subscribers a = subscribers b"
      using that(1) by (simp_all add: dbg_frame_def)
    have fr: "dbg_frame t a a'" by (rule SendMessage_dbg_frame [OF that(2) a(1)])
    then have "\<exists>es. errors a' = errors a @ es" by (simp add: dbg_frame_def)
    then show ?thesis
      using Suc.IH [OF that(2) a(1)] a(2) Suc.prems(4) dbg_frame_trans [OF that(1) fr] by simp
  qed
  have "dbg_frame t ?b1 b2 \<and> (errors b2 = errors ?b1 \<longrightarrow>
      notify_all (SendMessage d sys) sys src m (subscribers b) (r, s) = Some (r, s'))"
    using notify_all_agree [where P = "dbg_frame t ?b1" and r = r and pr = "SendMessage d sys", OF post dbg_frame_refl run(1)]
    by simp
  then show ?case
    using leave_after_enter [OF Suc.prems(2) fresh, of b2] run(2) Suc.prems(3,4) by simp
qed simp

text \<open>
  C29.  The debug and the release build deliver the same: with the same subscribers, a send that the
  debug broker completes without reporting a recursion has the same effect in the release broker.
\<close>

theorem release_broker_agrees_with_debug:
  assumes "SendMessage_dbg d sys t src m (fold AddSubscriber_dbg ps MessageBroker_dbg, s) = Some (b', s')"
    and "errors b' = []"
  shows "SendMessage d sys src m (fold AddSubscriber ps MessageBroker, s) =
    Some (fold AddSubscriber ps MessageBroker, s')"
proof -
  have "callers (fold AddSubscriber_dbg ps b) = callers b \<and> errors (fold AddSubscriber_dbg ps b) = errors b" for b
    by (induction ps arbitrary: b) (simp_all add: AddSubscriber_dbg_def)
  then have "callers (fold AddSubscriber_dbg ps MessageBroker_dbg) t \<noteq> Some {}"
      "errors b' = errors (fold AddSubscriber_dbg ps MessageBroker_dbg)"
    using assms(2) by (simp_all add: MessageBroker_dbg_def)
  from SendMessage_agree [OF assms(1) this] show ?thesis
    by (simp add: subscribers_of_registrations)
qed

text \<open>Subscriber 1 answers a completed job with a shutdown, which both count.\<close>

definition relay :: "nat list subscribers_iface" where
  "relay = \<lparr>ReadyForMessage = (\<lambda>p ty. ty = MSG_SHUTDOWN \<or> p = 1),
     OnMessage = (\<lambda>p src m s. Local (\<lambda>s. s @ [p]) # (if msgType m = MSG_JOB_COMPLETE then [Post p (ShutdownMessage 1)] else []))\<rparr>"

theorem release_broker_agrees_with_debug_witness:
  "SendMessage 2 relay 9 (JobCompleteMessage (JR_NEW_CLIENT 3)) (fold AddSubscriber [5, 1] MessageBroker, []) =
    Some (fold AddSubscriber [5, 1] MessageBroker, [1, 1, 5])"
proof -
  let ?run = "SendMessage_dbg 2 relay 0 9 (JobCompleteMessage (JR_NEW_CLIENT 3))
    (fold AddSubscriber_dbg [5, 1] MessageBroker_dbg, [])"
  have "map_option (\<lambda>(b, s). (errors b, s)) ?run = Some ([], [1, 1, 5])" by code_simp
  then obtain b' where "?run = Some (b', [1, 1, 5])" "errors b' = []" by auto
  then show ?thesis by (rule release_broker_agrees_with_debug)
qed

section \<open>Subscribers whose reactions descend\<close>

text \<open>
  The release broker ends if every message that a subscriber sends in reaction to another one is of
  lower rank; the rank bounds the nesting.
\<close>

locale ranked_subscribers =
  fixes sys :: "'s subscribers_iface"
    and rank :: "message \<Rightarrow> nat"
  assumes reaction_rank: "ReadyForMessage sys p (msgType m) \<Longrightarrow>
    Post src' m' \<in> set (OnMessage sys p src m s) \<Longrightarrow> rank m' < rank m"
begin

lemma run_acts_ranked:
  assumes "\<And>src' m' s. rank m' < n \<Longrightarrow> \<exists>s'. post src' m' (b, s) = Some (b, s')"
  shows "(\<And>src' m'. Post src' m' \<in> set as \<Longrightarrow> rank m' < n) \<Longrightarrow> \<exists>s'. run_acts post as (b, s) = Some (b, s')"
proof (induction as arbitrary: s)
  case (Cons a as)
  show ?case
  proof (cases a)
    case (Local f)
    then show ?thesis using Cons by simp
  next
    case (Post src' m')
    then obtain s1 where "post src' m' (b, s) = Some (b, s1)" using Cons.prems assms by force
    moreover have "\<exists>s'. run_acts post as (b, s1) = Some (b, s')"
      using Cons.prems by (intro Cons.IH) auto
    ultimately show ?thesis using Post by simp
  qed
qed simp

lemma SendMessage_returns: "rank m < d \<Longrightarrow> \<exists>s'. SendMessage d sys src m (b, s) = Some (b, s')"
proof (induction d arbitrary: src m s)
  case (Suc d)
  have "\<exists>s'. notify_all (SendMessage d sys) sys src m ps (b, s) = Some (b, s')" for ps
  proof (induction ps arbitrary: s)
    case (Cons p ps)
    show ?case
    proof (cases "ReadyForMessage sys p (msgType m)")
      case True
      have "\<exists>s1. run_acts (SendMessage d sys) (OnMessage sys p src m s) (b, s) = Some (b, s1)"
      proof (rule run_acts_ranked [where n = "rank m"])
        show "\<And>src' m' s. rank m' < rank m \<Longrightarrow> \<exists>s'. SendMessage d sys src' m' (b, s) = Some (b, s')"
          using Suc.IH Suc.prems by auto
        show "\<And>src' m'. Post src' m' \<in> set (OnMessage sys p src m s) \<Longrightarrow> rank m' < rank m"
          using reaction_rank [OF True] by blast
      qed
      then show ?thesis using True Cons by auto
    qed (simp add: Cons)
  qed simp
  then show ?case by simp
qed simp

end

end
