(* ===== verification/Lifecycle_Handlers.thy ===== *)
theory Lifecycle_Handlers
  imports Message_Broker
begin

text \<open>
  \<open>src/Src/StartupHandler.*\<close> and \<open>ShutdownHandler.*\<close>: the two subscribers of the main thread.  The
  first lets it wait until every listener is ready, the second collects the first shutdown request.
\<close>

section \<open>StartupHandler\<close>

record startup_handler =
  awaitedTargets :: "ptr set"
  su_shutdownRequested :: bool

definition StartupHandler :: startup_handler where
  "StartupHandler = \<lparr>awaitedTargets = {}, su_shutdownRequested = False\<rparr>"

definition AddTarget :: "ptr \<Rightarrow> startup_handler \<Rightarrow> startup_handler" where
  "AddTarget target h = h\<lparr>awaitedTargets := insert target (awaitedTargets h)\<rparr>"

definition startup_ReadyForMessage :: "MsgType \<Rightarrow> bool" where
  "startup_ReadyForMessage ty \<longleftrightarrow> ty = MSG_STARTUP_READY \<or> ty = MSG_SHUTDOWN"

definition startup_OnMessage :: "ptr \<Rightarrow> message \<Rightarrow> startup_handler \<Rightarrow> startup_handler" where
  "startup_OnMessage src m h =
     (if msgType m = MSG_SHUTDOWN then h\<lparr>su_shutdownRequested := True\<rparr>
      else if src \<in> awaitedTargets h then h\<lparr>awaitedTargets := awaitedTargets h - {src}\<rparr>
      else h)"

text \<open>
  The waiting loop; before each test other threads may have changed the handler.  The first
  component tells whether the loop has returned.
\<close>

fun WaitForStartupReady :: "(startup_handler \<Rightarrow> startup_handler) list \<Rightarrow> startup_handler \<Rightarrow> bool \<times> startup_handler" where
  "WaitForStartupReady [] h = (su_shutdownRequested h \<or> awaitedTargets h = {}, h)"
| "WaitForStartupReady (others # turns) h =
     (if su_shutdownRequested h \<or> awaitedTargets h = {} then (True, h)
      else WaitForStartupReady turns (others h))"

section \<open>ShutdownHandler\<close>

text \<open>\<open>sd_kills\<close> counts the \<open>SIGUSR2\<close> signals the process sent to itself.\<close>

record shutdown_handler =
  sd_shutdownRequested :: bool
  sd_ec :: int
  sd_kills :: nat

definition ShutdownHandler :: shutdown_handler where
  "ShutdownHandler = \<lparr>sd_shutdownRequested = False, sd_ec = 0, sd_kills = 0\<rparr>"

definition IsShutdownRequested :: "shutdown_handler \<Rightarrow> bool" where
  "IsShutdownRequested h = sd_shutdownRequested h"

definition GetEC :: "shutdown_handler \<Rightarrow> int" where
  "GetEC h = sd_ec h"

definition shutdown_ReadyForMessage :: "MsgType \<Rightarrow> bool" where
  "shutdown_ReadyForMessage ty \<longleftrightarrow> ty = MSG_SHUTDOWN"

text \<open>
  The handler runs on the threads of the senders, so its three atomic operations interleave with
  those of other calls.  A call is at one of these points: before \<open>exchange\<close>, between \<open>exchange\<close> and
  \<open>ec.store\<close>, between that and \<open>kill\<close>, or returned.
\<close>

datatype sd_point = SD_Exchange int | SD_Store int | SD_Kill | SD_Returned

fun sd_next :: "sd_point \<Rightarrow> shutdown_handler \<Rightarrow> sd_point \<times> shutdown_handler" where
  "sd_next (SD_Exchange e) h =
     (if sd_shutdownRequested h then SD_Returned else SD_Store e, h\<lparr>sd_shutdownRequested := True\<rparr>)"
| "sd_next (SD_Store e) h = (SD_Kill, h\<lparr>sd_ec := e\<rparr>)"
| "sd_next SD_Kill h = (SD_Returned, h\<lparr>sd_kills := Suc (sd_kills h)\<rparr>)"
| "sd_next SD_Returned h = (SD_Returned, h)"

text \<open>A whole call, with nothing in between.  Only shutdown messages are delivered to the handler.\<close>

definition shutdown_OnMessage :: "message \<Rightarrow> shutdown_handler \<Rightarrow> shutdown_handler" where
  "shutdown_OnMessage m h =
     (case m of
        ShutdownMessage e \<Rightarrow>
          if \<not> sd_shutdownRequested h
          then h\<lparr>sd_shutdownRequested := True, sd_ec := e, sd_kills := Suc (sd_kills h)\<rparr>
          else h
      | _ \<Rightarrow> h)"

lemma shutdown_OnMessage_steps:
  "\<exists>n. ((\<lambda>(p, h). sd_next p h) ^^ n) (SD_Exchange e, h) = (SD_Returned, shutdown_OnMessage (ShutdownMessage e) h)"
proof (cases "sd_shutdownRequested h")
  case True
  then have "h\<lparr>sd_shutdownRequested := True\<rparr> = h" by simp
  then show ?thesis using True by (intro exI [of _ 1]) (simp add: shutdown_OnMessage_def)
next
  case False
  then show ?thesis by (intro exI [of _ 3]) (simp add: shutdown_OnMessage_def numeral_3_eq_3)
qed

text \<open>Any number of concurrent calls: each step advances one of them.\<close>

inductive sd_step :: "sd_point list \<times> shutdown_handler \<Rightarrow> sd_point list \<times> shutdown_handler \<Rightarrow> bool" where
  sd_advance: "i < length ps \<Longrightarrow> sd_next (ps ! i) h = (p, h') \<Longrightarrow> sd_step (ps, h) (ps[i := p], h')"

inductive_cases sd_stepE: "sd_step s s'"

section \<open>Waiting for the listeners\<close>

text \<open>What a broadcast message does to the handler.\<close>

definition startup_receive :: "ptr \<times> message \<Rightarrow> startup_handler \<Rightarrow> startup_handler" where
  "startup_receive e h =
     (if startup_ReadyForMessage (msgType (snd e)) then startup_OnMessage (fst e) (snd e) h else h)"

definition reported_ready :: "(ptr \<times> message) list \<Rightarrow> ptr set" where
  "reported_ready evs = {src. (src, StartupReadyMessage) \<in> set evs}"

definition asked_shutdown :: "(ptr \<times> message) list \<Rightarrow> bool" where
  "asked_shutdown evs \<longleftrightarrow> (\<exists>e \<in> set evs. msgType (snd e) = MSG_SHUTDOWN)"

lemma startup_receive_eq:
  "startup_receive (src, m) h =
     h\<lparr>su_shutdownRequested := su_shutdownRequested h \<or> msgType m = MSG_SHUTDOWN,
       awaitedTargets := awaitedTargets h - reported_ready [(src, m)]\<rparr>"
  by (cases m) (auto simp: startup_receive_def startup_ReadyForMessage_def startup_OnMessage_def reported_ready_def)

text \<open>
  The main thread is released by exactly the right messages: with whatever was broadcast, the
  wait has returned if and only if every awaited listener reported that it is ready, or someone
  requested a shutdown.
\<close>

lemma WaitForStartupReady_returns:
  "fst (WaitForStartupReady (map startup_receive evs) h) \<longleftrightarrow>
     su_shutdownRequested h \<or> asked_shutdown evs \<or> awaitedTargets h \<subseteq> reported_ready evs"
proof (induction evs arbitrary: h)
  case Nil
  then show ?case by (auto simp: asked_shutdown_def reported_ready_def)
next
  case (Cons ev evs)
  obtain src m where ev: "ev = (src, m)" by (cases ev)
  have split: "reported_ready (ev # evs) = reported_ready [ev] \<union> reported_ready evs"
      "asked_shutdown (ev # evs) \<longleftrightarrow> msgType m = MSG_SHUTDOWN \<or> asked_shutdown evs"
    by (auto simp: reported_ready_def asked_shutdown_def ev)
  show ?case
    using Cons.IH [of "startup_receive ev h"] unfolding split
    by (auto simp: ev startup_receive_eq)
qed

section \<open>One request wins\<close>

definition in_call :: "sd_point \<Rightarrow> bool" where
  "in_call p \<longleftrightarrow> (case p of SD_Store e \<Rightarrow> True | SD_Kill \<Rightarrow> True | _ \<Rightarrow> False)"

text \<open>
  \<open>sd_inv es\<close>: before the first exchange nothing was stored or sent; afterwards there is one winner,
  which is still in its call and will store the code of a request, or has sent the signal.
\<close>

definition sd_inv :: "int set \<Rightarrow> sd_point list \<times> shutdown_handler \<Rightarrow> bool" where
  "sd_inv es s \<longleftrightarrow> (case s of (ps, h) \<Rightarrow>
     (\<forall>e. SD_Exchange e \<in> set ps \<longrightarrow> e \<in> es) \<and> (\<forall>e. SD_Store e \<in> set ps \<longrightarrow> e \<in> es) \<and>
     sd_kills h + length (filter in_call ps) = (if sd_shutdownRequested h then 1 else 0) \<and>
     (sd_shutdownRequested h \<longrightarrow> (\<exists>e. SD_Store e \<in> set ps) \<or> sd_ec h \<in> es) \<and>
     (\<not> sd_shutdownRequested h \<longrightarrow> SD_Returned \<notin> set ps))"

lemma length_filter_update:
  assumes "i < length ps"
  shows "length (filter P (ps[i := p])) + (if P (ps ! i) then 1 else 0) =
    length (filter P ps) + (if P p then 1 else 0)"
proof -
  have "ps = take i ps @ ps ! i # drop (Suc i) ps" by (rule id_take_nth_drop [OF assms])
  then have "filter P ps = filter P (take i ps) @ filter P (ps ! i # drop (Suc i) ps)"
    by (metis filter_append)
  then show ?thesis using assms by (simp add: upd_conv_take_nth_drop)
qed

lemma sd_inv_step:
  assumes "sd_step s s'" and "sd_inv es s"
  shows "sd_inv es s'"
  using assms(1)
proof (cases rule: sd_step.cases)
  case (sd_advance i ps h p h')
  have mem: "ps ! i \<in> set ps" using sd_advance(3) by simp
  have sub: "q \<in> set (ps[i := p]) \<Longrightarrow> q = p \<or> q \<in> set ps" for q
    using set_update_subset_insert [of ps i p] by blast
  have new: "p \<in> set (ps[i := p])" using sd_advance(3) by (simp add: set_update_memI)
  have stay: "q \<in> set ps \<Longrightarrow> q \<noteq> ps ! i \<Longrightarrow> q \<in> set (ps[i := p])" for q
    using sd_advance(3) by (metis in_set_conv_nth length_list_update nth_list_update_neq)
  note cnt = length_filter_update [OF sd_advance(3), of in_call p]
  show ?thesis
  proof (cases "ps ! i")
    case (SD_Exchange e)
    then show ?thesis
      using assms(2) sd_advance mem sub new stay cnt
      by (auto simp: sd_inv_def in_call_def split: if_splits)
  next
    case (SD_Store e)
    then have "in_call (ps ! i)" by (simp add: in_call_def)
    then have "sd_shutdownRequested h"
      using assms(2) sd_advance(1) mem by (auto simp: sd_inv_def filter_empty_conv split: if_splits)
    then show ?thesis
      using SD_Store assms(2) sd_advance mem sub cnt by (auto simp: sd_inv_def in_call_def)
  next
    case SD_Kill
    then have "in_call (ps ! i)" by (simp add: in_call_def)
    then have "sd_shutdownRequested h"
      using assms(2) sd_advance(1) mem by (auto simp: sd_inv_def filter_empty_conv split: if_splits)
    moreover from this have "filter in_call (ps[i := p]) = []"
      using SD_Kill assms(2) sd_advance cnt by (auto simp: sd_inv_def in_call_def simp flip: length_0_conv)
    ultimately show ?thesis
      using SD_Kill assms(2) sd_advance mem sub cnt stay by (auto simp: sd_inv_def in_call_def)
  next
    case SD_Returned
    then have "ps[i := p] = ps" "h' = h" using sd_advance(4) list_update_id [of ps i] by auto
    then show ?thesis using assms(2) sd_advance(1,2) by simp
  qed
qed

lemma sd_inv_run: "sd_step\<^sup>*\<^sup>* s s' \<Longrightarrow> sd_inv es s \<Longrightarrow> sd_inv es s'"
  by (induction rule: rtranclp_induct) (auto intro: sd_inv_step)


text \<open>A schedule names the call that makes each step.\<close>

definition sd_run :: "nat list \<Rightarrow> sd_point list \<times> shutdown_handler \<Rightarrow> sd_point list \<times> shutdown_handler" where
  "sd_run schedule s = fold (\<lambda>i (ps, h). let (p, h') = sd_next (ps ! i) h in (ps[i := p], h')) schedule s"

lemma sd_run_reaches: "list_all (\<lambda>i. i < length (fst s)) schedule \<Longrightarrow> sd_step\<^sup>*\<^sup>* s (sd_run schedule s)"
proof (induction schedule arbitrary: s)
  case (Cons i schedule)
  obtain ps h where s: "s = (ps, h)" by (cases s)
  obtain p h' where n: "sd_next (ps ! i) h = (p, h')" by fastforce
  have "sd_step s (ps[i := p], h')" using Cons.prems n s by (auto intro: sd_advance)
  moreover have "sd_step\<^sup>*\<^sup>* (ps[i := p], h') (sd_run schedule (ps[i := p], h'))"
    using Cons s by simp
  ultimately show ?case using n s by (simp add: sd_run_def)
qed (simp add: sd_run_def)


end
