(* ===== verification/Job_Workers.thy ===== *)
theory Job_Workers
  imports Job_Factory
begin

text \<open>
  \<open>src/Src/WorkerBase.*\<close>, \<open>IJobWorker.h\<close>, \<open>JobWorker.*\<close> and \<open>JobWorkerFactory.*\<close>: an object that owns a
  thread, and the worker that waits for one job, executes it and reports its result.
\<close>

section \<open>WorkerBase\<close>

text \<open>
  The virtual \<open>Worker\<close> is given by the state a started thread begins in (\<open>begin_thread\<close>), the virtual
  \<open>OnShutdown\<close> by a function.  \<open>join\<close> returns only when the thread has ended: a call of \<open>Shutdown\<close>
  that has to wait is \<open>None\<close>.
\<close>

record worker_base =
  workerStarted :: bool

definition worker_Startup :: "('a worker_base_scheme \<Rightarrow> 'a worker_base_scheme) \<Rightarrow> 'a worker_base_scheme \<Rightarrow>
    bool \<times> 'a worker_base_scheme" where
  "worker_Startup begin_thread w =
     (if workerStarted w then (False, w)
      else (True, (begin_thread w)\<lparr>workerStarted := True\<rparr>))"

definition worker_Shutdown :: "('a worker_base_scheme \<Rightarrow> 'a worker_base_scheme) \<Rightarrow>
    ('a worker_base_scheme \<Rightarrow> bool) \<Rightarrow> 'a worker_base_scheme \<Rightarrow> (bool \<times> 'a worker_base_scheme) option" where
  "worker_Shutdown on_shutdown thread_ended w =
     (if \<not> workerStarted w then Some (False, w)
      else
      let w1 = on_shutdown w
      in if thread_ended w1 then Some (True, w1\<lparr>workerStarted := False\<rparr>) else None)"

definition worker_RequestShutdown :: "('a worker_base_scheme \<Rightarrow> 'a worker_base_scheme) \<Rightarrow>
    'a worker_base_scheme \<Rightarrow> bool \<times> 'a worker_base_scheme" where
  "worker_RequestShutdown on_shutdown w =
     (if \<not> workerStarted w then (False, w) else (True, on_shutdown w))"

text \<open>
  The contract of the base class, for any subclass: \<open>Shutdown\<close> and \<open>Startup\<close> alternate, and a
  shutdown that returned leaves no thread behind.
\<close>

locale worker_thread =
  fixes begin_thread on_shutdown :: "'a worker_base_scheme \<Rightarrow> 'a worker_base_scheme"
    and thread_ended :: "'a worker_base_scheme \<Rightarrow> bool"
  assumes on_shutdown_started: "workerStarted (on_shutdown w) = workerStarted w"
    and ended_started: "thread_ended (w\<lparr>workerStarted := b\<rparr>) = thread_ended w"
begin

lemma startup_once: "worker_Startup begin_thread w = (True, w') \<Longrightarrow>
    workerStarted w' \<and> worker_Startup begin_thread w' = (False, w')"
  by (auto simp: worker_Startup_def split: if_splits)

lemma shutdown_ends: "worker_Shutdown on_shutdown thread_ended w = Some (True, w') \<Longrightarrow>
    workerStarted w \<and> \<not> workerStarted w' \<and> thread_ended w'"
  by (auto simp: worker_Shutdown_def Let_def ended_started split: if_splits)

lemma request_keeps_started: "workerStarted (snd (worker_RequestShutdown on_shutdown w)) = workerStarted w"
  by (simp add: worker_RequestShutdown_def on_shutdown_started)

end

section \<open>JobWorker\<close>

text \<open>Where the worker's thread is: not created, in the wait for a job, in \<open>Execute\<close>, sending, ended.\<close>

datatype worker_phase = NoThread | Waiting | Executing job | Sending job_result | Ended

record job_worker = worker_base +
  jobSet :: bool
  jw_job :: "job option"
  jw_phase :: worker_phase
  jw_cancelled :: bool

definition JobWorker :: job_worker where
  "JobWorker = \<lparr>workerStarted = False, jobSet = False, jw_job = None, jw_phase = NoThread, jw_cancelled = False\<rparr>"

definition CreateWorker :: job_worker where
  "CreateWorker = JobWorker"

definition SetJob :: "job option \<Rightarrow> job_worker \<Rightarrow> bool \<times> job_worker" where
  "SetJob j w = (if jobSet w then (False, w) else (True, w\<lparr>jw_job := j, jobSet := True\<rparr>))"

definition worker_OnShutdown :: "job_worker \<Rightarrow> job_worker" where
  "worker_OnShutdown w = (if jobSet w \<and> jw_job w \<noteq> None then w\<lparr>jw_cancelled := True\<rparr> else w)"

text \<open>
  \<open>JobWorker::Worker\<close> in three parts, each enabled at its phase: leaving the wait with the job that
  was set, the return of \<open>Execute\<close> with its result, and the return of \<open>SendMessage\<close>.
\<close>

definition worker_begin :: "job_worker \<Rightarrow> job_worker" where
  "worker_begin w = w\<lparr>jw_phase := Waiting\<rparr>"

definition worker_wake :: "job_worker \<Rightarrow> job_worker option" where
  "worker_wake w =
     (if jw_phase w = Waiting \<and> jobSet w
      then Some (w\<lparr>jw_phase := (case jw_job w of None \<Rightarrow> Ended | Some curJob \<Rightarrow> Executing curJob)\<rparr>)
      else None)"

definition worker_executed :: "job_result \<Rightarrow> job_worker \<Rightarrow> job_worker option" where
  "worker_executed result w =
     (case jw_phase w of Executing curJob \<Rightarrow> Some (w\<lparr>jw_job := None, jw_phase := Sending result\<rparr>) | _ \<Rightarrow> None)"

definition worker_sent :: "job_worker \<Rightarrow> job_worker option" where
  "worker_sent w = (case jw_phase w of Sending result \<Rightarrow> Some (w\<lparr>jw_phase := Ended\<rparr>) | _ \<Rightarrow> None)"

definition worker_ended :: "job_worker \<Rightarrow> bool" where
  "worker_ended w \<longleftrightarrow> jw_phase w = Ended"

abbreviation "jw_Startup \<equiv> worker_Startup worker_begin"
abbreviation "jw_Shutdown \<equiv> worker_Shutdown worker_OnShutdown worker_ended"
abbreviation "jw_Request w \<equiv> snd (worker_RequestShutdown worker_OnShutdown w)"

interpretation jw: worker_thread worker_begin worker_OnShutdown worker_ended
  by unfold_locales (simp_all add: worker_OnShutdown_def worker_ended_def)

section \<open>Life of a worker\<close>

text \<open>
  What is known of a worker by its place in the dispatcher: without a job; dismissed with the empty
  job; given a job, which it executes and reports; reporting or done; collected.
\<close>

datatype worker_class = Fresh | Dismissed | Busy | Leaving | Collected

fun has_class :: "worker_class \<Rightarrow> job_worker \<Rightarrow> bool" where
  "has_class Fresh w \<longleftrightarrow> workerStarted w \<and> \<not> jobSet w \<and> jw_job w = None \<and> jw_phase w = Waiting"
| "has_class Dismissed w \<longleftrightarrow> workerStarted w \<and> jobSet w \<and> jw_job w = None \<and> jw_phase w \<in> {Waiting, Ended}"
| "has_class Busy w \<longleftrightarrow> workerStarted w \<and> jobSet w \<and>
     (case jw_phase w of NoThread \<Rightarrow> False | Waiting \<Rightarrow> jw_job w \<noteq> None | Executing j \<Rightarrow> jw_job w = Some j
      | Sending r \<Rightarrow> jw_job w = None | Ended \<Rightarrow> jw_job w = None)"
| "has_class Leaving w \<longleftrightarrow> workerStarted w \<and> jobSet w \<and> jw_job w = None \<and>
     (jw_phase w = Ended \<or> (\<exists>r. jw_phase w = Sending r))"
| "has_class Collected w \<longleftrightarrow> \<not> workerStarted w \<and> jw_phase w = Ended"

named_theorems class_simps

lemma class_new: "worker_Startup worker_begin CreateWorker = (True, w) \<Longrightarrow> has_class Fresh w"
  "fst (worker_Startup worker_begin CreateWorker)"
  by (auto simp: worker_Startup_def worker_begin_def CreateWorker_def JobWorker_def)

lemma class_SetJob [class_simps]:
  "has_class Fresh w \<Longrightarrow> fst (SetJob j w)"
  "has_class Fresh w \<Longrightarrow> has_class Busy (snd (SetJob (Some job) w))"
  "has_class Fresh w \<Longrightarrow> has_class Dismissed (snd (SetJob None w))"
  by (simp_all add: SetJob_def)

lemma class_request [class_simps]:
  "c \<noteq> Collected \<Longrightarrow> has_class c w \<Longrightarrow> has_class c (jw_Request w)"
  by (cases c) (auto simp: worker_RequestShutdown_def worker_OnShutdown_def split: worker_phase.splits)

lemma class_wake: "has_class c w \<Longrightarrow> worker_wake w = Some w' \<Longrightarrow> has_class c w'"
  by (cases c) (auto simp: worker_wake_def split: if_splits option.splits)

lemma class_executed: "has_class c w \<Longrightarrow> worker_executed r w = Some w' \<Longrightarrow> has_class c w'"
  by (cases c) (auto simp: worker_executed_def split: worker_phase.splits)

lemma class_sent: "has_class c w \<Longrightarrow> worker_sent w = Some w' \<Longrightarrow> has_class c w'"
  by (cases c) (auto simp: worker_sent_def split: worker_phase.splits)

lemma class_leaving: "has_class Busy w \<Longrightarrow> jw_phase w = Sending r \<Longrightarrow> has_class Leaving w"
  by simp

lemma class_collected:
  assumes "c \<in> {Dismissed, Busy, Leaving}" and "has_class c w" and "worker_ended w"
  shows "\<exists>w'. jw_Shutdown w = Some (True, w') \<and> has_class Collected w'"
proof -
  have "workerStarted w" "jw_job w = None"
    using assms by (auto simp: worker_ended_def)
  then show ?thesis
    using assms(3) by (auto simp: worker_Shutdown_def worker_OnShutdown_def worker_ended_def)
qed

declare has_class.simps [simp del]

text \<open>The calls on a worker, and the parts of its thread, in any order.\<close>

datatype worker_op = OpSetJob "job option" | OpCancel | OpWake | OpExecuted job_result | OpSent

fun worker_do :: "worker_op \<Rightarrow> job_worker \<Rightarrow> job_worker" where
  "worker_do (OpSetJob j) w = snd (SetJob j w)"
| "worker_do OpCancel w = jw_Request w"
| "worker_do OpWake w = (case worker_wake w of None \<Rightarrow> w | Some w' \<Rightarrow> w')"
| "worker_do (OpExecuted r) w = (case worker_executed r w of None \<Rightarrow> w | Some w' \<Rightarrow> w')"
| "worker_do OpSent w = (case worker_sent w of None \<Rightarrow> w | Some w' \<Rightarrow> w')"

fun set_jobs :: "worker_op list \<Rightarrow> job option list" where
  "set_jobs [] = []"
| "set_jobs (OpSetJob j # ops) = j # set_jobs ops"
| "set_jobs (op # ops) = set_jobs ops"

definition runs :: "job option \<Rightarrow> job_worker \<Rightarrow> bool" where
  "runs j w \<longleftrightarrow> (case j of None \<Rightarrow> has_class Dismissed w
     | Some job \<Rightarrow> has_class Busy w \<and> (jw_job w = None \<or> jw_job w = Some job))"

lemma class_do:
  assumes "has_class c w" and "c \<in> {Fresh, Dismissed, Busy}" and "c = Fresh \<longrightarrow> (\<forall>j. op \<noteq> OpSetJob j)"
  shows "has_class c (worker_do op w)"
proof (cases op)
  case (OpSetJob j)
  then show ?thesis using assms by (auto simp: SetJob_def has_class.simps)
next
  case OpCancel
  then show ?thesis using assms class_request [of c w] by auto
next
  case OpWake
  then show ?thesis using assms(1) class_wake [of c w] by (cases "worker_wake w") simp_all
next
  case (OpExecuted r)
  then show ?thesis using assms(1) class_executed [of c w r] by (cases "worker_executed r w") simp_all
next
  case OpSent
  then show ?thesis using assms(1) class_sent [of c w] by (cases "worker_sent w") simp_all
qed

lemma runs_do: "runs j w \<Longrightarrow> runs j (worker_do op w)"
proof (cases j)
  case None
  then show "runs j w \<Longrightarrow> runs j (worker_do op w)" using class_do [of Dismissed w op] by (simp add: runs_def)
next
  case (Some job)
  assume r: "runs j w"
  have "jw_job (worker_do op w) = None \<or> jw_job (worker_do op w) = jw_job w"
    using r Some
    by (cases op) (auto simp: has_class.simps runs_def SetJob_def worker_RequestShutdown_def worker_OnShutdown_def worker_wake_def
        worker_executed_def worker_sent_def split: option.splits worker_phase.splits if_splits)
  then show ?thesis using r Some class_do [of Busy w op] by (auto simp: runs_def)
qed

lemma runs_fold: "runs j w \<Longrightarrow> runs j (fold worker_do ops w)"
  by (induction ops arbitrary: w) (simp_all add: runs_do)

text \<open>
  C23.  A worker runs one job.  Of the calls of \<open>SetJob\<close> on a started worker only the first succeeds,
  whatever the thread and \<open>OnShutdown\<close> do before and after it; the thread executes no other job than
  the one of that call, and none if it was the empty job or there was no call.
\<close>

theorem worker_runs_first_job:
  assumes "jw_Startup CreateWorker = (True, w0)" and "w = fold worker_do ops w0"
  shows "(case set_jobs ops of
      [] \<Rightarrow> jw_phase w = Waiting \<and> fst (SetJob j w)
    | None # _ \<Rightarrow> jw_phase w \<in> {Waiting, Ended} \<and> SetJob j w = (False, w)
    | Some job # _ \<Rightarrow> SetJob j w = (False, w) \<and> (\<forall>job'. jw_phase w = Executing job' \<longrightarrow> job' = job))"
proof -
  have "(case set_jobs ops of [] \<Rightarrow> has_class Fresh w | j # _ \<Rightarrow> runs j w)"
    using class_new(1) [OF assms(1)] unfolding assms(2)
  proof (induction ops arbitrary: w0)
    case (Cons op ops)
    show ?case
    proof (cases "\<exists>j. op = OpSetJob j")
      case True
      then obtain j where j: "op = OpSetJob j" by blast
      have "runs j (snd (SetJob j w0))"
        using Cons.prems by (auto simp: runs_def SetJob_def has_class.simps split: option.splits)
      then show ?thesis using j runs_fold by simp
    next
      case False
      then have "set_jobs (op # ops) = set_jobs ops" by (cases op) auto
      moreover have "has_class Fresh (worker_do op w0)" using Cons.prems False class_do [of Fresh w0 op] by simp
      ultimately show ?thesis using Cons.IH [of "worker_do op w0"] by (simp cong: list.case_cong)
    qed
  qed simp
  then show ?thesis
    by (auto simp: runs_def SetJob_def has_class.simps split: list.splits option.splits worker_phase.splits)
qed

theorem worker_runs_first_job_witness:
  "\<exists>w. fold worker_do [OpCancel, OpSetJob (Some (ClientHandshake State_empty)), OpSetJob None, OpWake, OpCancel]
      (snd (jw_Startup CreateWorker)) = w \<and> jw_phase w = Executing (ClientHandshake State_empty) \<and>
    SetJob None w = (False, w)"
proof -
  have start: "jw_Startup CreateWorker = (True, snd (jw_Startup CreateWorker))"
    using class_new(2) by (metis prod.collapse)
  let ?ops = "[OpCancel, OpSetJob (Some (ClientHandshake State_empty)), OpSetJob None, OpWake, OpCancel]"
  have "jw_phase (fold worker_do ?ops (snd (jw_Startup CreateWorker))) = Executing (ClientHandshake State_empty)"
    by code_simp
  then show ?thesis
    using worker_runs_first_job [OF start refl, of ?ops None] by simp
qed

end
