(* ===== verification/Job_Dispatcher.thy ===== *)
theory Job_Dispatcher
  imports Job_Workers Message_Broker
begin

text \<open>
  \<open>src/Src/JobDispatcher.*\<close>: the pool of workers.  A background thread keeps free workers in stock and
  collects the finished ones; every result of a job is handled on the thread that reports it, which
  asks the factory for the next jobs and gives each to a free worker.

  The worker objects live in a heap (\<open>workers\<close>, one entry per object ever created); the pools hold
  their indices.  The background thread, the calls of \<open>OnMessage\<close> in progress and the workers' threads
  interleave; a critical section is one step, except for those of the shutdown, which wait for
  threads while they hold a lock and are spread over several steps.  The job factory is a parameter
  with a state of its own (theory \<open>Job_Factory\<close> is the program's).
\<close>

section \<open>State\<close>

text \<open>A message comes from a worker or from another object (a listener).\<close>

datatype sender = SWorker nat | SOther ptr

text \<open>The points of a call of \<open>OnMessage\<close>, after the counter was incremented.\<close>

datatype msg_point =
    MP_Check job_result
  | MP_Move job_result
  | MP_Create job_result
  | MP_Assign "job list"
  | MP_Leave

text \<open>
  The points of the background thread; a list is what remains of a loop over workers.  From
  \<open>BG_FreeReq\<close> to \<open>BG_FreeJoin\<close> the thread holds \<open>freeLock\<close>, at \<open>BG_ActReq\<close> and \<open>BG_ActJoin\<close> it holds
  \<open>activeLock\<close>, at \<open>BG_FinReq\<close> and \<open>BG_FinJoin\<close> it holds \<open>disposeLock\<close>.
\<close>

datatype bg_point =
    BG_Test | BG_Collect | BG_Request "nat list" "nat list" | BG_Join "nat list" | BG_Populate | BG_Sleep
  | BG_Pre | BG_FreeReq "nat list" | BG_FreeJoin "nat list" | BG_ActReq "nat list" | BG_ActJoin "nat list"
  | BG_FinReq "nat list" | BG_FinJoin "nat list" | BG_Post | BG_Done | BG_Failed

record 'e dispatcher =
  d_shutdownPending :: bool
  msgProcCount :: int
  workerID :: u64
  freeWorkers :: "nat list"
  activeWorkers :: "nat list"
  finishedWorkers :: "nat list"
  workers :: "job_worker list"
  inflight :: "(sender \<times> msg_point) list"
  bg :: bg_point
  d_sent :: "int list"
  d_env :: 'e

definition JobDispatcher :: "'e \<Rightarrow> 'e dispatcher" where
  "JobDispatcher e = \<lparr>d_shutdownPending = False, msgProcCount = 0, workerID = 0, freeWorkers = [],
     activeWorkers = [], finishedWorkers = [], workers = [], inflight = [], bg = BG_Test, d_sent = [], d_env = e\<rparr>"

definition dispatcher_HandleError :: "int \<Rightarrow> 'e dispatcher \<Rightarrow> 'e dispatcher" where
  "dispatcher_HandleError ec d = d\<lparr>d_sent := d_sent d @ [ec]\<rparr>"

definition dispatcher_OnShutdown :: "'e dispatcher \<Rightarrow> 'e dispatcher" where
  "dispatcher_OnShutdown d = d\<lparr>d_shutdownPending := True\<rparr>"

definition dispatcher_ReadyForMessage :: "MsgType \<Rightarrow> bool" where
  "dispatcher_ReadyForMessage ty \<longleftrightarrow> ty = MSG_JOB_COMPLETE"

definition upd_worker :: "nat \<Rightarrow> (job_worker \<Rightarrow> job_worker) \<Rightarrow> 'e dispatcher \<Rightarrow> 'e dispatcher" where
  "upd_worker i f d = d\<lparr>workers := (workers d)[i := f (workers d ! i)]\<rparr>"

section \<open>Spawning\<close>

primrec SpawnWorkers :: "nat \<Rightarrow> 'e dispatcher \<Rightarrow> bool \<times> 'e dispatcher" where
  "SpawnWorkers 0 d = (True, d)"
| "SpawnWorkers (Suc n) d =
     (let d1 = d\<lparr>workerID := workerID d + 1\<rparr>;
          (ok, newWorker) = jw_Startup CreateWorker
      in if \<not> ok then (False, d1)
         else SpawnWorkers n (d1\<lparr>workers := workers d1 @ [newWorker],
                freeWorkers := freeWorkers d1 @ [length (workers d1)]\<rparr>))"

text \<open>\<open>err\<close> is the value of \<open>errno\<close>.\<close>

definition CreateWorkerInstance :: "int \<Rightarrow> 'e dispatcher \<Rightarrow> nat option \<times> 'e dispatcher" where
  "CreateWorkerInstance err d =
     (let (ok, d1) = (if length (freeWorkers d) < 1 then SpawnWorkers 1 d else (True, d))
      in if \<not> ok then (None, dispatcher_HandleError err d1)
         else (Some (last (freeWorkers d1)), d1\<lparr>freeWorkers := butlast (freeWorkers d1)\<rparr>))"

section \<open>Messages\<close>

definition move_finished :: "sender \<Rightarrow> 'e dispatcher \<Rightarrow> 'e dispatcher" where
  "move_finished src d =
     (case src of
        SWorker i \<Rightarrow>
          if i \<in> set (activeWorkers d)
          then d\<lparr>finishedWorkers := finishedWorkers d @ [i], activeWorkers := remove1 i (activeWorkers d)\<rparr>
          else d
      | SOther p \<Rightarrow> d)"

definition assign_job :: "int \<Rightarrow> job \<Rightarrow> 'e dispatcher \<Rightarrow> bool \<times> 'e dispatcher" where
  "assign_job err j d =
     (let (newInstance, d1) = CreateWorkerInstance err d
      in case newInstance of
           None \<Rightarrow> (False, d1)
         | Some i \<Rightarrow>
             (True, upd_worker i (\<lambda>w. snd (SetJob (Some j) w)) (d1\<lparr>activeWorkers := List.insert i (activeWorkers d1)\<rparr>)))"

fun holds_free :: "bg_point \<Rightarrow> bool" where
  "holds_free (BG_FreeReq is) = True" | "holds_free (BG_FreeJoin is) = True" | "holds_free p = False"

fun holds_active :: "bg_point \<Rightarrow> bool" where
  "holds_active (BG_ActReq is) = True" | "holds_active (BG_ActJoin is) = True" | "holds_active p = False"

fun holds_dispose :: "bg_point \<Rightarrow> bool" where
  "holds_dispose (BG_FinReq is) = True" | "holds_dispose (BG_FinJoin is) = True" | "holds_dispose p = False"

text \<open>
  One step of a call of \<open>OnMessage\<close> (\<open>OnMessageInternal\<close>, and the decrement that ends it); \<open>None\<close> if it
  has to wait for a lock.  A returned call leaves the point \<open>None\<close>.
\<close>

type_synonym 'e factory = "job_result \<Rightarrow> 'e \<Rightarrow> job list \<times> 'e"

fun OnMessage_step :: "'e factory \<Rightarrow> int \<Rightarrow> sender \<Rightarrow> msg_point \<Rightarrow> 'e dispatcher \<Rightarrow>
    (msg_point option \<times> 'e dispatcher) option" where
  "OnMessage_step fac err src (MP_Check r) d =
     Some (Some (if d_shutdownPending d then MP_Leave else MP_Move r), d)"
| "OnMessage_step fac err src (MP_Move r) d =
     (if holds_active (bg d) \<or> holds_dispose (bg d) then None
      else Some (Some (MP_Create r), move_finished src d))"
| "OnMessage_step fac err src (MP_Create r) d =
     (let (jobs, e) = fac r (d_env d) in Some (Some (MP_Assign jobs), d\<lparr>d_env := e\<rparr>))"
| "OnMessage_step fac err src (MP_Assign []) d = Some (Some MP_Leave, d)"
| "OnMessage_step fac err src (MP_Assign (j # js)) d =
     (if holds_free (bg d) \<or> holds_active (bg d) then None
      else let (ok, d1) = assign_job err j d in Some (Some (if ok then MP_Assign js else MP_Leave), d1))"
| "OnMessage_step fac err src MP_Leave d = Some (None, d\<lparr>msgProcCount := msgProcCount d - 1\<rparr>)"

definition OnMessage_enter :: "sender \<Rightarrow> job_result \<Rightarrow> 'e dispatcher \<Rightarrow> 'e dispatcher" where
  "OnMessage_enter src r d =
     d\<lparr>msgProcCount := msgProcCount d + 1, inflight := inflight d @ [(src, MP_Check r)]\<rparr>"

section \<open>The background thread\<close>

text \<open>One step of \<open>JobDispatcher::Worker\<close>; \<open>None\<close> if it has ended or waits.\<close>

fun Worker_step :: "config \<Rightarrow> int \<Rightarrow> 'e dispatcher \<Rightarrow> bg_point \<Rightarrow> 'e dispatcher option" where
  "Worker_step cfg err d BG_Test = Some (d\<lparr>bg := (if d_shutdownPending d then BG_Pre else BG_Collect)\<rparr>)"
| "Worker_step cfg err d BG_Collect =
     Some (d\<lparr>finishedWorkers := [], bg := BG_Request (finishedWorkers d) (finishedWorkers d)\<rparr>)"
| "Worker_step cfg err d (BG_Request (i # is) tmp) = Some ((upd_worker i jw_Request d)\<lparr>bg := BG_Request is tmp\<rparr>)"
| "Worker_step cfg err d (BG_Request [] tmp) = Some (d\<lparr>bg := BG_Join tmp\<rparr>)"
| "Worker_step cfg err d (BG_Join (i # is)) =
     map_option (\<lambda>(b, w). (upd_worker i (\<lambda>_. w) d)\<lparr>bg := BG_Join is\<rparr>) (jw_Shutdown (workers d ! i))"
| "Worker_step cfg err d (BG_Join []) = Some (d\<lparr>bg := BG_Populate\<rparr>)"
| "Worker_step cfg err d BG_Populate =
     (let limit = nat (GetWorkersCount cfg); spawnLimit = nat (GetWorkersSpawnCount cfg)
      in if length (freeWorkers d) < limit
      then
        let spawnCount = limit - length (freeWorkers d);
            spawnCount = (if spawnCount > spawnLimit then spawnLimit else spawnCount);
            (ok, d1) = SpawnWorkers spawnCount d
        in if \<not> ok then Some ((dispatcher_HandleError err d1)\<lparr>bg := BG_Failed\<rparr>)
           else Some (d1\<lparr>bg := BG_Sleep\<rparr>)
      else Some (d\<lparr>bg := BG_Sleep\<rparr>))"
| "Worker_step cfg err d BG_Sleep = Some (d\<lparr>bg := BG_Test\<rparr>)"
| "Worker_step cfg err d BG_Pre =
     (if msgProcCount d > 0 then None else Some (d\<lparr>bg := BG_FreeReq (freeWorkers d)\<rparr>))"
| "Worker_step cfg err d (BG_FreeReq (i # is)) =
     Some ((upd_worker i (\<lambda>w. jw_Request (snd (SetJob None w))) d)\<lparr>bg := BG_FreeReq is\<rparr>)"
| "Worker_step cfg err d (BG_FreeReq []) = Some (d\<lparr>bg := BG_FreeJoin (freeWorkers d)\<rparr>)"
| "Worker_step cfg err d (BG_FreeJoin (i # is)) =
     map_option (\<lambda>(b, w). (upd_worker i (\<lambda>_. w) d)\<lparr>bg := BG_FreeJoin is\<rparr>) (jw_Shutdown (workers d ! i))"
| "Worker_step cfg err d (BG_FreeJoin []) =
     Some (d\<lparr>freeWorkers := [], bg := BG_ActReq (activeWorkers d)\<rparr>)"
| "Worker_step cfg err d (BG_ActReq (i # is)) = Some ((upd_worker i jw_Request d)\<lparr>bg := BG_ActReq is\<rparr>)"
| "Worker_step cfg err d (BG_ActReq []) = Some (d\<lparr>bg := BG_ActJoin (activeWorkers d)\<rparr>)"
| "Worker_step cfg err d (BG_ActJoin (i # is)) =
     map_option (\<lambda>(b, w). (upd_worker i (\<lambda>_. w) d)\<lparr>bg := BG_ActJoin is\<rparr>) (jw_Shutdown (workers d ! i))"
| "Worker_step cfg err d (BG_ActJoin []) =
     Some (d\<lparr>activeWorkers := [], bg := BG_FinReq (finishedWorkers d)\<rparr>)"
| "Worker_step cfg err d (BG_FinReq (i # is)) = Some ((upd_worker i jw_Request d)\<lparr>bg := BG_FinReq is\<rparr>)"
| "Worker_step cfg err d (BG_FinReq []) = Some (d\<lparr>bg := BG_FinJoin (finishedWorkers d)\<rparr>)"
| "Worker_step cfg err d (BG_FinJoin (i # is)) =
     map_option (\<lambda>(b, w). (upd_worker i (\<lambda>_. w) d)\<lparr>bg := BG_FinJoin is\<rparr>) (jw_Shutdown (workers d ! i))"
| "Worker_step cfg err d (BG_FinJoin []) = Some (d\<lparr>finishedWorkers := [], bg := BG_Post\<rparr>)"
| "Worker_step cfg err d BG_Post = (if msgProcCount d > 0 then None else Some (d\<lparr>bg := BG_Done\<rparr>))"
| "Worker_step cfg err d BG_Done = None"
| "Worker_step cfg err d BG_Failed = None"

section \<open>All threads together\<close>

text \<open>
  The steps of the dispatcher's background thread, of a call in progress and of a worker's thread
  (\<open>internal\<close> steps), and what comes from outside: a message of another object, the shutdown request,
  and changes of the factory's state by running jobs.
\<close>

inductive internal :: "'e factory \<Rightarrow> config \<Rightarrow> 'e dispatcher \<Rightarrow> 'e dispatcher \<Rightarrow> bool" for fac cfg where
  bg_step: "Worker_step cfg err d (bg d) = Some d' \<Longrightarrow> internal fac cfg d d'"
| msg_step: "inflight d = xs @ (src, p) # ys \<Longrightarrow> OnMessage_step fac err src p d = Some (Some p', d') \<Longrightarrow>
    internal fac cfg d (d'\<lparr>inflight := xs @ (src, p') # ys\<rparr>)"
| msg_return: "inflight d = xs @ (src, p) # ys \<Longrightarrow> OnMessage_step fac err src p d = Some (None, d') \<Longrightarrow>
    internal fac cfg d ((case src of SOther q \<Rightarrow> d' | SWorker i \<Rightarrow> upd_worker i (\<lambda>w. case worker_sent w of None \<Rightarrow> w | Some w' \<Rightarrow> w') d')
      \<lparr>inflight := xs @ ys\<rparr>)"
| wake: "i < length (workers d) \<Longrightarrow> worker_wake (workers d ! i) = Some w \<Longrightarrow>
    internal fac cfg d (upd_worker i (\<lambda>_. w) d)"
| executed: "i < length (workers d) \<Longrightarrow> worker_executed r (workers d ! i) = Some w \<Longrightarrow>
    internal fac cfg d (upd_worker i (\<lambda>_. w) d)"
| report: "i < length (workers d) \<Longrightarrow> jw_phase (workers d ! i) = Sending r \<Longrightarrow> SWorker i \<notin> fst ` set (inflight d) \<Longrightarrow>
    internal fac cfg d (OnMessage_enter (SWorker i) r d)"

inductive dstep :: "'e factory \<Rightarrow> config \<Rightarrow> 'e dispatcher \<Rightarrow> 'e dispatcher \<Rightarrow> bool" for fac cfg where
  by_threads: "internal fac cfg d d' \<Longrightarrow> dstep fac cfg d d'"
| other_message: "dstep fac cfg d (OnMessage_enter (SOther p) r d)"
| shutdown_request: "dstep fac cfg d (dispatcher_OnShutdown d)"
| jobs_run: "dstep fac cfg d (d\<lparr>d_env := e\<rparr>)"

end
