(* ===== verification/Dispatcher_Invariant.thy ===== *)
theory Dispatcher_Invariant
  imports Job_Dispatcher
begin

text \<open>
  The invariant of the dispatcher (theory \<open>Job_Dispatcher\<close>), over every interleaving of its threads:
  the pools are disjoint, each worker is in the state its pool says, the counter counts the calls in
  progress, and from the first wait of the shutdown on the calls in progress do nothing.
\<close>

section \<open>The invariant\<close>

fun tmp_of :: "bg_point \<Rightarrow> nat list" where
  "tmp_of (BG_Request is tmp) = tmp" | "tmp_of (BG_Join is) = is" | "tmp_of p = []"

definition pools :: "'e dispatcher \<Rightarrow> nat list" where
  "pools d = freeWorkers d @ activeWorkers d @ finishedWorkers d @ tmp_of (bg d)"

text \<open>What is known of worker \<open>i\<close>, by the pool it is in and the progress of the background thread.\<close>

fun free_class :: "bg_point \<Rightarrow> nat \<Rightarrow> worker_class" where
  "free_class (BG_FreeReq is) i = (if i \<in> set is then Fresh else Dismissed)"
| "free_class (BG_FreeJoin is) i = (if i \<in> set is then Dismissed else Collected)"
| "free_class p i = Fresh"

fun active_class :: "bg_point \<Rightarrow> nat \<Rightarrow> worker_class" where
  "active_class (BG_ActJoin is) i = (if i \<in> set is then Busy else Collected)"
| "active_class p i = Busy"

fun finished_class :: "bg_point \<Rightarrow> nat \<Rightarrow> worker_class" where
  "finished_class (BG_FinJoin is) i = (if i \<in> set is then Leaving else Collected)"
| "finished_class p i = Leaving"

definition class_of :: "'e dispatcher \<Rightarrow> nat \<Rightarrow> worker_class" where
  "class_of d i =
     (if i \<in> set (freeWorkers d) then free_class (bg d) i
      else if i \<in> set (activeWorkers d) then active_class (bg d) i
      else if i \<in> set (finishedWorkers d) then finished_class (bg d) i
      else if i \<in> set (tmp_of (bg d)) then Leaving
      else Collected)"

text \<open>Progress of the loops of the background thread, and what the shutdown has emptied.\<close>

fun bg_ok :: "bg_point \<Rightarrow> nat list \<Rightarrow> nat list \<Rightarrow> nat list \<Rightarrow> bool" where
  "bg_ok (BG_Request is tmp) free act fin \<longleftrightarrow> set is \<subseteq> set tmp"
| "bg_ok (BG_FreeReq is) free act fin \<longleftrightarrow> set is \<subseteq> set free \<and> distinct is"
| "bg_ok (BG_FreeJoin is) free act fin \<longleftrightarrow> set is \<subseteq> set free \<and> distinct is"
| "bg_ok (BG_ActReq is) free act fin \<longleftrightarrow> free = [] \<and> set is \<subseteq> set act \<and> distinct is"
| "bg_ok (BG_ActJoin is) free act fin \<longleftrightarrow> free = [] \<and> set is \<subseteq> set act \<and> distinct is"
| "bg_ok (BG_FinReq is) free act fin \<longleftrightarrow> free = [] \<and> act = [] \<and> set is \<subseteq> set fin \<and> distinct is"
| "bg_ok (BG_FinJoin is) free act fin \<longleftrightarrow> free = [] \<and> act = [] \<and> set is \<subseteq> set fin \<and> distinct is"
| "bg_ok BG_Post free act fin \<longleftrightarrow> free = [] \<and> act = [] \<and> fin = []"
| "bg_ok BG_Done free act fin \<longleftrightarrow> free = [] \<and> act = [] \<and> fin = []"
| "bg_ok p free act fin \<longleftrightarrow> True"

fun past_pre :: "bg_point \<Rightarrow> bool" where
  "past_pre (BG_FreeReq is) = True" | "past_pre (BG_FreeJoin is) = True"
| "past_pre (BG_ActReq is) = True" | "past_pre (BG_ActJoin is) = True"
| "past_pre (BG_FinReq is) = True" | "past_pre (BG_FinJoin is) = True"
| "past_pre BG_Post = True" | "past_pre BG_Done = True" | "past_pre p = False"

definition harmless :: "msg_point \<Rightarrow> bool" where
  "harmless p \<longleftrightarrow> (case p of MP_Check r \<Rightarrow> True | MP_Leave \<Rightarrow> True | _ \<Rightarrow> False)"

definition senders_of :: "(sender \<times> msg_point) list \<Rightarrow> nat list" where
  "senders_of fs = concat (map (\<lambda>(src, p). case src of SWorker i \<Rightarrow> [i] | SOther q \<Rightarrow> []) fs)"

definition inv_pools :: "'e dispatcher \<Rightarrow> bool" where
  "inv_pools d \<longleftrightarrow> distinct (pools d) \<and> set (pools d) \<subseteq> {..<length (workers d)} \<and>
     bg_ok (bg d) (freeWorkers d) (activeWorkers d) (finishedWorkers d)"

definition inv_class :: "'e dispatcher \<Rightarrow> bool" where
  "inv_class d \<longleftrightarrow> (\<forall>i < length (workers d). has_class (class_of d i) (workers d ! i))"

definition inv_msgs :: "'e dispatcher \<Rightarrow> bool" where
  "inv_msgs d \<longleftrightarrow> msgProcCount d = int (length (inflight d)) \<and> distinct (senders_of (inflight d)) \<and>
     (\<forall>i \<in> set (senders_of (inflight d)). i < length (workers d) \<and> (\<exists>r. jw_phase (workers d ! i) = Sending r))"

definition inv_stage :: "'e dispatcher \<Rightarrow> bool" where
  "inv_stage d \<longleftrightarrow> (bg d = BG_Pre \<longrightarrow> d_shutdownPending d) \<and>
     (past_pre (bg d) \<longrightarrow> d_shutdownPending d \<and> (\<forall>(src, p) \<in> set (inflight d). harmless p))"

definition d_inv :: "'e dispatcher \<Rightarrow> bool" where
  "d_inv d \<longleftrightarrow> inv_pools d \<and> inv_class d \<and> inv_msgs d \<and> inv_stage d"

lemma d_inv_new: "d_inv (JobDispatcher e)"
  by (simp add: d_inv_def inv_pools_def inv_class_def inv_msgs_def inv_stage_def JobDispatcher_def pools_def
      senders_of_def)

lemma senders_of_simps [simp]:
  "senders_of [] = []" "senders_of (xs @ ys) = senders_of xs @ senders_of ys"
  "senders_of ((src, p) # xs) = (case src of SWorker i \<Rightarrow> [i] | SOther q \<Rightarrow> []) @ senders_of xs"
  by (simp_all add: senders_of_def)

lemma senders_of_iff: "i \<in> set (senders_of fs) \<longleftrightarrow> SWorker i \<in> fst ` set fs"
  by (induction fs) (auto split: sender.splits)

section \<open>Spawning\<close>

definition fresh_worker :: job_worker where
  "fresh_worker = snd (jw_Startup CreateWorker)"

lemma fresh_worker_class: "has_class Fresh fresh_worker"
  using class_new by (metis fresh_worker_def prod.collapse)

text \<open>A new worker is never started yet, so spawning cannot fail.\<close>

lemma SpawnWorkers_eq:
  "SpawnWorkers n d = (True, d\<lparr>workerID := workerID d + of_nat n, workers := workers d @ replicate n fresh_worker,
     freeWorkers := freeWorkers d @ [length (workers d)..<length (workers d) + n]\<rparr>)"
proof (induction n arbitrary: d)
  case (Suc n)
  have new: "jw_Startup CreateWorker = (True, fresh_worker)"
    using class_new(2) by (metis fresh_worker_def prod.collapse)
  show ?case
    unfolding SpawnWorkers.simps(2) new
    by (simp add: Suc.IH Let_def replicate_append_same upt_conv_Cons add.commute add.left_commute)
qed simp

text \<open>So the round of the background thread adds what is missing, up to the limit of one round.\<close>

lemma Populate_eq:
  "Worker_step cfg err d BG_Populate =
     Some ((snd (SpawnWorkers (min (nat (GetWorkersCount cfg) - length (freeWorkers d))
       (nat (GetWorkersSpawnCount cfg))) d))\<lparr>bg := BG_Sleep\<rparr>)"
  unfolding Worker_step.simps Let_def SpawnWorkers_eq by (simp add: min_def)

lemma CreateWorkerInstance_eq:
  "CreateWorkerInstance err d =
     (if freeWorkers d = []
      then (Some (length (workers d)), d\<lparr>workerID := workerID d + 1, workers := workers d @ [fresh_worker]\<rparr>)
      else (Some (last (freeWorkers d)), d\<lparr>freeWorkers := butlast (freeWorkers d)\<rparr>))"
  unfolding CreateWorkerInstance_def Let_def SpawnWorkers_eq by simp

section \<open>Steps of the background thread\<close>

lemma phase_ops [simp]:
  "jw_phase (jw_Request w) = jw_phase w" "jw_phase (snd (SetJob j w)) = jw_phase w"
  by (simp_all add: worker_RequestShutdown_def worker_OnShutdown_def SetJob_def)

lemma jw_Shutdown_phase: "jw_Shutdown w = Some (b, w') \<Longrightarrow> jw_phase w' = jw_phase w"
  by (auto simp: worker_Shutdown_def worker_OnShutdown_def Let_def split: if_splits)

lemma nth_list_update_if: "j < length xs \<Longrightarrow> xs[i := x] ! j = (if i = j then x else xs ! j)"
  by auto

lemma Worker_step_frame:
  assumes "Worker_step cfg err d p = Some d'"
  shows "inflight d' = inflight d \<and> msgProcCount d' = msgProcCount d \<and> d_shutdownPending d' = d_shutdownPending d \<and>
    length (workers d) \<le> length (workers d') \<and> (\<forall>i < length (workers d). jw_phase (workers d' ! i) = jw_phase (workers d ! i))"
  using assms
  by (induction cfg err d p rule: Worker_step.induct)
    (auto simp: upd_worker_def SpawnWorkers_eq nth_append nth_list_update_if Let_def dest: jw_Shutdown_phase split: if_splits)

lemma Worker_step_msgs: "Worker_step cfg err d (bg d) = Some d' \<Longrightarrow> inv_msgs d \<Longrightarrow> inv_msgs d'"
  using Worker_step_frame [of cfg err d "bg d" d'] by (fastforce simp: inv_msgs_def)

lemma Worker_step_points:
  assumes "Worker_step cfg err d p = Some d'"
  shows "bg d' = BG_Pre \<longrightarrow> p = BG_Test \<and> d_shutdownPending d"
    and "past_pre (bg d') \<longrightarrow> past_pre p \<or> p = BG_Pre \<and> \<not> msgProcCount d > 0"
  using assms
  by (induction cfg err d p rule: Worker_step.induct) (auto simp: SpawnWorkers_eq Let_def split: if_splits)

lemma Worker_step_stage:
  assumes "Worker_step cfg err d (bg d) = Some d'" and "inv_stage d" and "inv_msgs d"
  shows "inv_stage d'"
proof -
  have "inflight d = []" if "\<not> msgProcCount d > 0" using assms(3) that by (simp add: inv_msgs_def)
  moreover have "bg d' = BG_Pre \<longrightarrow> bg d = BG_Test \<and> d_shutdownPending d"
    using assms(1) by (rule Worker_step_points)
  moreover have "past_pre (bg d') \<longrightarrow> past_pre (bg d) \<or> bg d = BG_Pre \<and> \<not> msgProcCount d > 0"
    using assms(1) by (rule Worker_step_points)
  ultimately show ?thesis
    using Worker_step_frame [OF assms(1)] assms(2) by (auto simp: inv_stage_def)
qed

lemma distinct_mset_subset:
  assumes "distinct xs" and "mset ys \<subseteq># mset xs"
  shows "distinct ys"
proof -
  have "count (mset ys) a \<le> 1" for a
    using assms by (metis distinct_count_atmost_1 dual_order.trans mset_subset_eq_count order_refl zero_le_one)
  then show ?thesis
    by (auto simp: distinct_count_atmost_1 intro: antisym)
qed

lemma Worker_step_pools_mset:
  assumes "Worker_step cfg err d p = Some d'" and "bg d = p"
  shows "mset (pools d') \<subseteq># mset (pools d) + mset [length (workers d)..<length (workers d')]"
  using assms
  by (induction cfg err d p rule: Worker_step.induct)
    (auto simp: pools_def upd_worker_def SpawnWorkers_eq Let_def simp del: mset_upt split: if_splits)

lemma Worker_step_bg_ok:
  assumes "Worker_step cfg err d p = Some d'" and "bg d = p" and "distinct (pools d)"
    and "bg_ok p (freeWorkers d) (activeWorkers d) (finishedWorkers d)"
  shows "bg_ok (bg d') (freeWorkers d') (activeWorkers d') (finishedWorkers d')"
  using assms
  by (induction cfg err d p rule: Worker_step.induct)
    (auto simp: pools_def upd_worker_def SpawnWorkers_eq Let_def split: if_splits)

lemma Worker_step_pools:
  assumes "Worker_step cfg err d (bg d) = Some d'" and "inv_pools d"
  shows "inv_pools d'"
proof -
  let ?all = "pools d @ [length (workers d)..<length (workers d')]"
  have sub: "mset (pools d') \<subseteq># mset ?all"
    using Worker_step_pools_mset [OF assms(1) refl] by simp
  have "distinct ?all" using assms(2) by (auto simp: inv_pools_def)
  then have "distinct (pools d')" using sub by (rule distinct_mset_subset)
  moreover have "set (pools d') \<subseteq> {..<length (workers d')}"
  proof -
    have "length (workers d) \<le> length (workers d')" using Worker_step_frame [OF assms(1)] by simp
    then show ?thesis using set_mset_mono [OF sub] assms(2) by (force simp: inv_pools_def)
  qed
  ultimately show ?thesis
    using Worker_step_bg_ok [OF assms(1) refl] assms(2) by (simp add: inv_pools_def)
qed

lemma inv_class_upd:
  assumes "inv_class d" and "workers d' = (workers d)[i := w]"
    and "\<And>j. j \<noteq> i \<Longrightarrow> class_of d' j = class_of d j"
    and "i < length (workers d) \<Longrightarrow> has_class (class_of d' i) w"
  shows "inv_class d'"
  using assms by (auto simp: inv_class_def nth_list_update_if)

lemma inv_class_same:
  assumes "inv_class d" and "workers d' = workers d"
    and "\<And>j. j < length (workers d) \<Longrightarrow> class_of d' j = class_of d j"
  shows "inv_class d'"
  using assms by (simp add: inv_class_def)

lemma inv_classD: "inv_class d \<Longrightarrow> class_of d i = c \<Longrightarrow> i < length (workers d) \<Longrightarrow> has_class c (workers d ! i)"
  by (auto simp: inv_class_def)

text \<open>A worker that \<open>Shutdown\<close> has returned for is collected.\<close>

lemma jw_Shutdown_collects:
  assumes "jw_Shutdown w = Some (b, w')" and "has_class c w" and "c \<in> {Dismissed, Busy, Leaving}"
  shows "has_class Collected w'"
proof -
  have "worker_ended (worker_OnShutdown w)"
    using assms by (auto simp: worker_Shutdown_def Let_def has_class.simps split: if_splits)
  then have "worker_ended w" by (auto simp: worker_ended_def worker_OnShutdown_def split: if_splits)
  then show ?thesis using class_collected [OF assms(3,2)] assms(1) by auto
qed

text \<open>The classes as a function of the pools, so that they can be computed without the records.\<close>

definition cls :: "nat list \<Rightarrow> nat list \<Rightarrow> nat list \<Rightarrow> bg_point \<Rightarrow> nat \<Rightarrow> worker_class" where
  "cls free act fin p i =
     (if i \<in> set free then free_class p i else if i \<in> set act then active_class p i
      else if i \<in> set fin then finished_class p i else if i \<in> set (tmp_of p) then Leaving else Collected)"

lemma class_of_cls: "class_of d i = cls (freeWorkers d) (activeWorkers d) (finishedWorkers d) (bg d) i"
  by (simp add: class_of_def cls_def)

definition pools_ok :: "nat list \<Rightarrow> nat list \<Rightarrow> nat list \<Rightarrow> bg_point \<Rightarrow> bool" where
  "pools_ok free act fin p \<longleftrightarrow> distinct (free @ act @ fin @ tmp_of p) \<and> bg_ok p free act fin"

lemma inv_pools_ok: "inv_pools d \<Longrightarrow> pools_ok (freeWorkers d) (activeWorkers d) (finishedWorkers d) (bg d)"
  by (simp add: inv_pools_def pools_def pools_ok_def)

text \<open>The points at which the thread turns to worker \<open>i\<close>, with the class it finds and leaves it in.\<close>

fun turns_to :: "bg_point \<Rightarrow> (nat \<times> bg_point \<times> worker_class \<times> worker_class) option" where
  "turns_to (BG_Request (i # is) tmp) = Some (i, BG_Request is tmp, Leaving, Leaving)"
| "turns_to (BG_Join (i # is)) = Some (i, BG_Join is, Leaving, Collected)"
| "turns_to (BG_FreeReq (i # is)) = Some (i, BG_FreeReq is, Fresh, Dismissed)"
| "turns_to (BG_FreeJoin (i # is)) = Some (i, BG_FreeJoin is, Dismissed, Collected)"
| "turns_to (BG_ActReq (i # is)) = Some (i, BG_ActReq is, Busy, Busy)"
| "turns_to (BG_ActJoin (i # is)) = Some (i, BG_ActJoin is, Busy, Collected)"
| "turns_to (BG_FinReq (i # is)) = Some (i, BG_FinReq is, Leaving, Leaving)"
| "turns_to (BG_FinJoin (i # is)) = Some (i, BG_FinJoin is, Leaving, Collected)"
| "turns_to p = None"

lemma turns_to_class:
  assumes "turns_to p = Some (i, q, c, c')" and "pools_ok free act fin p"
  shows "cls free act fin p i = c" "cls free act fin q i = c'"
    "j \<noteq> i \<Longrightarrow> cls free act fin q j = cls free act fin p j" "i \<in> set (free @ act @ fin @ tmp_of p)"
  using assms by (induction p rule: turns_to.induct; auto simp: cls_def pools_ok_def)+

lemma turns_to_step:
  assumes "turns_to p = Some (i, q, c, c')" and "Worker_step cfg err d p = Some d'"
  shows "\<exists>w. d' = (upd_worker i (\<lambda>_. w) d)\<lparr>bg := q\<rparr> \<and> (has_class c (workers d ! i) \<longrightarrow> has_class c' w)"
proof -
  have dismissed: "has_class Dismissed (jw_Request (snd (SetJob None w)))" if "has_class Fresh w" for w
    using that class_request class_SetJob(3) by blast
  show ?thesis
    using assms
    by (induction p rule: turns_to.induct)
      (auto simp: upd_worker_def class_request dismissed intro: jw_Shutdown_collects)
qed

text \<open>At the other points the thread only moves, and empties a pool whose workers are collected.\<close>

lemma other_step_workers:
  assumes "turns_to p = None" and "p \<noteq> BG_Populate" and "Worker_step cfg err d p = Some d'"
  shows "workers d' = workers d"
  using assms by (induction cfg err d p rule: Worker_step.induct) (auto split: if_splits)

text \<open>The point and the pools after such a step.\<close>

fun moves_to :: "bool \<Rightarrow> bg_point \<Rightarrow> nat list \<Rightarrow> nat list \<Rightarrow> nat list \<Rightarrow> bg_point \<times> nat list \<times> nat list \<times> nat list" where
  "moves_to pend BG_Test free act fin = (if pend then BG_Pre else BG_Collect, free, act, fin)"
| "moves_to pend BG_Collect free act fin = (BG_Request fin fin, free, act, [])"
| "moves_to pend (BG_Request [] tmp) free act fin = (BG_Join tmp, free, act, fin)"
| "moves_to pend (BG_Join []) free act fin = (BG_Populate, free, act, fin)"
| "moves_to pend BG_Sleep free act fin = (BG_Test, free, act, fin)"
| "moves_to pend BG_Pre free act fin = (BG_FreeReq free, free, act, fin)"
| "moves_to pend (BG_FreeReq []) free act fin = (BG_FreeJoin free, free, act, fin)"
| "moves_to pend (BG_FreeJoin []) free act fin = (BG_ActReq act, [], act, fin)"
| "moves_to pend (BG_ActReq []) free act fin = (BG_ActJoin act, free, act, fin)"
| "moves_to pend (BG_ActJoin []) free act fin = (BG_FinReq fin, free, [], fin)"
| "moves_to pend (BG_FinReq []) free act fin = (BG_FinJoin fin, free, act, fin)"
| "moves_to pend (BG_FinJoin []) free act fin = (BG_Post, free, act, [])"
| "moves_to pend BG_Post free act fin = (BG_Done, free, act, fin)"
| "moves_to pend p free act fin = (p, free, act, fin)"

lemma moves_to_class:
  assumes "moves_to pend p free act fin = (q, free', act', fin')" and "pools_ok free act fin p" and "turns_to p = None"
  shows "cls free' act' fin' q j = cls free act fin p j"
  using assms
  by (induction pend p free act fin rule: moves_to.induct) (auto simp: cls_def pools_ok_def split: if_split_asm)

lemma other_step:
  assumes "turns_to p = None" and "p \<noteq> BG_Populate" and "Worker_step cfg err d p = Some d'"
  shows "moves_to (d_shutdownPending d) p (freeWorkers d) (activeWorkers d) (finishedWorkers d) =
    (bg d', freeWorkers d', activeWorkers d', finishedWorkers d')"
  using assms by (induction cfg err d p rule: Worker_step.induct) (auto split: if_split_asm)

lemma populate_class:
  assumes "Worker_step cfg err d BG_Populate = Some d'" and "bg d = BG_Populate" and "inv_class d"
  shows "inv_class d'"
proof -
  obtain n where d': "d' = d\<lparr>workerID := workerID d + of_nat n, workers := workers d @ replicate n fresh_worker,
      freeWorkers := freeWorkers d @ [length (workers d)..<length (workers d) + n], bg := BG_Sleep\<rparr>"
    using assms(1) unfolding Populate_eq SpawnWorkers_eq by auto
  have old: "class_of d' i = class_of d i" if "i < length (workers d)" for i
    using that assms(2) by (simp add: d' class_of_def)
  have new: "class_of d' i = Fresh" if "length (workers d) \<le> i" "i < length (workers d) + n" for i
    using that by (simp add: d' class_of_def)
  show ?thesis
    unfolding inv_class_def
  proof (intro allI impI)
    fix i assume "i < length (workers d')"
    then show "has_class (class_of d' i) (workers d' ! i)"
      using old [of i] new [of i] assms(3) fresh_worker_class
      by (cases "i < length (workers d)") (simp_all add: d' nth_append inv_class_def)
  qed
qed

lemma Worker_step_class:
  assumes "Worker_step cfg err d p = Some d'" and "bg d = p" and "inv_pools d" and "inv_class d"
  shows "inv_class d'"
proof (cases "turns_to p")
  case None
  show ?thesis
  proof (cases "p = BG_Populate")
    case True
    then show ?thesis using populate_class assms by blast
  next
    case False
    have "class_of d' j = class_of d j" for j
      using moves_to_class [OF other_step [OF None False assms(1)]] inv_pools_ok [OF assms(3)] None assms(2)
      by (simp add: class_of_cls)
    then show ?thesis
      using other_step_workers [OF None False assms(1)] assms(4) by (simp add: inv_class_def)
  qed
next
  case (Some t)
  obtain i q c c' where t: "turns_to p = Some (i, q, c, c')" using Some by (cases t) auto
  obtain w where w: "d' = (upd_worker i (\<lambda>_. w) d)\<lparr>bg := q\<rparr>" "has_class c (workers d ! i) \<longrightarrow> has_class c' w"
    using turns_to_step [OF t assms(1)] by blast
  note cl = turns_to_class [OF t inv_pools_ok [OF assms(3), unfolded assms(2)]]
  have "i < length (workers d)"
    using cl(4) assms(2,3) unfolding inv_pools_def pools_def by blast
  moreover have "class_of d' j = cls (freeWorkers d) (activeWorkers d) (finishedWorkers d) q j" for j
    by (simp add: w(1) upd_worker_def class_of_cls)
  ultimately show ?thesis
    using cl w assms(2,4) by (intro inv_class_upd [OF assms(4), where i = i and w = w])
      (auto simp: class_of_cls upd_worker_def inv_class_def)
qed

section \<open>Steps of a call of OnMessage\<close>

text \<open>Before the shutdown has passed its first wait, the classes depend on the pools only.\<close>

lemma early_classes:
  assumes "\<not> past_pre p"
  shows "free_class p i = Fresh" "active_class p i = Busy" "finished_class p i = Leaving"
    "bg_ok p free act fin = bg_ok p free' act' fin'" "\<not> holds_free p" "\<not> holds_active p" "\<not> holds_dispose p"
  using assms by (cases p; simp)+

lemma move_finished_inv:
  assumes "d_inv d" and "\<not> past_pre (bg d)" and "src \<in> fst ` set (inflight d)"
  shows "inv_pools (move_finished src d) \<and> inv_class (move_finished src d)"
proof (cases "\<exists>i. src = SWorker i \<and> i \<in> set (activeWorkers d)")
  case False
  then have "move_finished src d = d" by (auto simp: move_finished_def split: sender.splits)
  then show ?thesis using assms(1) by (simp add: d_inv_def)
next
  case True
  then obtain i where i: "src = SWorker i" "i \<in> set (activeWorkers d)" by blast
  note e = early_classes [OF assms(2)]
  let ?d = "d\<lparr>finishedWorkers := finishedWorkers d @ [i], activeWorkers := remove1 i (activeWorkers d)\<rparr>"
  have pools: "distinct (pools d)" "set (pools d) \<subseteq> {..<length (workers d)}"
      "bg_ok (bg d) (freeWorkers d) (activeWorkers d) (finishedWorkers d)"
    using assms(1) by (simp_all add: d_inv_def inv_pools_def)
  have "mset (pools ?d) = mset (pools d)" using i(2) by (simp add: pools_def)
  then have perm: "distinct (pools ?d)" "set (pools ?d) = set (pools d)"
    using pools(1) by (metis mset_eq_imp_distinct_iff, metis mset_eq_setD)
  then have "inv_pools ?d" using pools e(4) by (simp add: inv_pools_def) metis
  moreover have "inv_class ?d"
  proof -
    have "i \<in> set (senders_of (inflight d))" using assms(3) i(1) by (simp add: senders_of_iff)
    then obtain r where "jw_phase (workers d ! i) = Sending r"
      using assms(1) unfolding d_inv_def inv_msgs_def by blast
    moreover have "class_of d i = Busy" "i < length (workers d)" "i \<notin> set (freeWorkers d)"
      using i(2) pools e(2) by (auto simp: class_of_def pools_def)
    ultimately have leaving: "has_class Leaving (workers d ! i)"
      using assms(1) by (metis class_leaving d_inv_def inv_classD)
    have act: "set (remove1 i (activeWorkers d)) = set (activeWorkers d) - {i}"
      using pools(1) by (simp add: pools_def)
    have same: "class_of ?d j = class_of d j" if "j \<noteq> i" for j
      using that act e by (simp add: class_of_def)
    have new: "class_of ?d i = Leaving"
      using act e \<open>i \<notin> set (freeWorkers d)\<close> by (simp add: class_of_def)
    show ?thesis
      unfolding inv_class_def
    proof (intro allI impI)
      fix j assume "j < length (workers ?d)"
      then show "has_class (class_of ?d j) (workers ?d ! j)"
        using same new leaving assms(1) by (cases "j = i") (simp_all add: d_inv_def inv_class_def)
    qed
  qed
  ultimately show ?thesis using i by (simp add: move_finished_def)
qed

lemma assign_job_eq:
  "assign_job err j d =
     (let i = (if freeWorkers d = [] then length (workers d) else last (freeWorkers d));
          ws = (if freeWorkers d = [] then workers d @ [fresh_worker] else workers d)
      in (True, d\<lparr>workerID := (if freeWorkers d = [] then workerID d + 1 else workerID d),
            freeWorkers := butlast (freeWorkers d), activeWorkers := List.insert i (activeWorkers d),
            workers := ws[i := snd (SetJob (Some j) (ws ! i))]\<rparr>))"
  unfolding assign_job_def CreateWorkerInstance_eq by (simp add: upd_worker_def Let_def)

lemma assign_job_inv:
  assumes "inv_pools d" and "inv_class d" and "\<not> past_pre (bg d)" and "assign_job err j d = (ok, d')"
  shows "ok \<and> inv_pools d' \<and> inv_class d'"
proof -
  note e = early_classes [OF assms(3)]
  define ws where "ws = (if freeWorkers d = [] then workers d @ [fresh_worker] else workers d)"
  define free where "free = (if freeWorkers d = [] then [length (workers d)] else freeWorkers d)"
  define i where "i = last free"
  \<comment> \<open>the state after spawning, if that was needed\<close>
  define d0 where "d0 = d\<lparr>freeWorkers := free, workers := ws\<rparr>"
  have pools: "distinct (pools d)" "set (pools d) \<subseteq> {..<length (workers d)}"
    using assms(1) by (simp_all add: inv_pools_def)
  have ne: "free \<noteq> []" "free = butlast free @ [i]"
    by (auto simp: free_def i_def)
  have pools0: "distinct (pools d0)" "set (pools d0) \<subseteq> {..<length ws}"
    using pools by (auto simp: d0_def pools_def free_def ws_def)
  have class0: "inv_class d0"
  proof (cases "freeWorkers d = []")
    case True
    have old: "class_of d0 k = class_of d k" if "k < length (workers d)" for k
      using that True by (simp add: d0_def free_def class_of_def)
    have new: "class_of d0 (length (workers d)) = Fresh" using True e by (simp add: d0_def free_def class_of_def)
    show ?thesis
      unfolding inv_class_def
    proof (intro allI impI)
      fix k assume "k < length (workers d0)"
      then show "has_class (class_of d0 k) (workers d0 ! k)"
        using old new assms(2) fresh_worker_class True
        by (cases "k = length (workers d)") (auto simp: inv_class_def nth_append d0_def ws_def)
    qed
  next
    case False
    then have "d0 = d" by (simp add: d0_def free_def ws_def)
    then show ?thesis using assms(2) by simp
  qed
  define n where "n = (if freeWorkers d = [] then workerID d + 1 else workerID d)"
  have d': "d' = d0\<lparr>workerID := n, freeWorkers := butlast free, activeWorkers := List.insert i (activeWorkers d),
      workers := ws[i := snd (SetJob (Some j) (ws ! i))]\<rparr>"
    using assms(4) by (cases "freeWorkers d = []") (auto simp: assign_job_eq Let_def d0_def free_def ws_def i_def n_def)
  have ok: ok using assms(4) by (auto simp: assign_job_eq Let_def)
  have fr: "distinct free" "set free \<inter> set (activeWorkers d) = {}" "set free \<subseteq> {..<length ws}"
    using pools0 by (auto simp: d0_def pools_def)
  have "distinct (butlast free @ [i])" using fr(1) ne(2) by metis
  moreover have "i \<in> set free" using ne(1) by (simp add: i_def)
  ultimately have i: "i \<in> set free" "i \<notin> set (butlast free)" "i \<notin> set (activeWorkers d)" "i < length ws"
    using fr(2,3) by auto
  have "mset free = add_mset i (mset (butlast free))"
    using ne(2) by (metis add.right_neutral add_mset_add_single mset.simps mset_append union_mset_add_mset_right)
  then have "mset (pools d') = mset (pools d0)"
    unfolding d' using i(3) by (simp add: pools_def d0_def)
  then have perm: "distinct (pools d')" "set (pools d') = set (pools d0)"
    using pools0(1) by (metis mset_eq_imp_distinct_iff, metis mset_eq_setD)
  have len: "length (workers d') = length ws" "bg d' = bg d" by (simp_all add: d' d0_def)
  have "inv_pools d'"
    using perm pools0(2) len assms(1) e(4) by (simp add: inv_pools_def) metis
  moreover have "inv_class d'"
  proof (rule inv_class_upd [OF class0])
    show "workers d' = (workers d0)[i := snd (SetJob (Some j) (ws ! i))]" by (simp add: d' d0_def)
    have setfree: "set free = insert i (set (butlast free))" using arg_cong [OF ne(2), of set] by simp
    show "class_of d' k = class_of d0 k" if "k \<noteq> i" for k
      using that setfree by (auto simp: d' d0_def class_of_def)
    have "has_class Fresh (ws ! i)"
      using class0 i e by (auto simp: inv_class_def d0_def class_of_def)
    then show "has_class (class_of d' i) (snd (SetJob (Some j) (ws ! i)))"
      using i e class_SetJob(2) by (auto simp: d' d0_def class_of_def)
  qed
  ultimately show ?thesis using ok by simp
qed

lemma OnMessage_step_frame:
  assumes "OnMessage_step fac err src p d = Some (q, d')"
  shows "bg d' = bg d" "inflight d' = inflight d" "d_shutdownPending d' = d_shutdownPending d"
    "length (workers d) \<le> length (workers d')"
    "\<And>i. i < length (workers d) \<Longrightarrow> jw_phase (workers d' ! i) = jw_phase (workers d ! i)"
    "msgProcCount d' = (if q = None then msgProcCount d - 1 else msgProcCount d)"
    "q = None \<Longrightarrow> workers d' = workers d"
  using assms
  by (cases "(fac, err, src, p, d)" rule: OnMessage_step.cases;
      auto simp: move_finished_def assign_job_eq Let_def nth_list_update_if nth_append
        split: if_splits sender.splits prod.splits)+

lemma OnMessage_step_inv:
  assumes inv: "d_inv d" and run: "OnMessage_step fac err src p d = Some (q, d')" and src: "(src, p) \<in> set (inflight d)"
  shows "inv_pools d' \<and> inv_class d' \<and> (past_pre (bg d) \<longrightarrow> q = None \<or> (\<exists>p'. q = Some p' \<and> harmless p'))"
proof -
  have parts: "inv_pools d" "inv_class d" using inv by (simp_all add: d_inv_def)
  have stage: "\<not> past_pre (bg d)" if "\<not> harmless p"
    using inv src that by (auto simp: d_inv_def inv_stage_def)
  have pend: "d_shutdownPending d" if "past_pre (bg d)" using inv that by (simp add: d_inv_def inv_stage_def)
  have "inv_class (d\<lparr>d_env := e\<rparr>)" "inv_class (d\<lparr>msgProcCount := c\<rparr>)" for e c
    by (rule inv_class_same [OF parts(2)]; simp add: class_of_def)+
  then have same: "inv_pools (d\<lparr>d_env := e\<rparr>) \<and> inv_class (d\<lparr>d_env := e\<rparr>)"
    "inv_pools (d\<lparr>msgProcCount := c\<rparr>) \<and> inv_class (d\<lparr>msgProcCount := c\<rparr>)" for e c
    using parts(1) by (simp_all add: inv_pools_def pools_def)
  show ?thesis
  proof (cases "(fac, err, src, p, d)" rule: OnMessage_step.cases)
    case (2 fac' err' src' r d0)
    have "src \<in> fst ` set (inflight d)" using src by force
    then show ?thesis
      using 2 run stage move_finished_inv [OF inv] by (auto simp: harmless_def split: if_splits)
  next
    case (5 fac' err' src' j js d0)
    then show ?thesis
      using run stage assign_job_inv [OF parts] by (auto simp: harmless_def split: if_splits prod.splits)
  qed (use run stage pend parts same in \<open>auto simp: harmless_def split: prod.splits\<close>)
qed

section \<open>The invariant holds\<close>

lemma senders_of_replace: "senders_of (xs @ (src, p') # ys) = senders_of (xs @ (src, p) # ys)"
  by simp

text \<open>A change of the phase of one worker that is not reporting, within its class.\<close>

lemma worker_step_inv:
  assumes "d_inv d" and "i < length (workers d)" and "\<And>c. has_class c (workers d ! i) \<Longrightarrow> has_class c w"
    and "i \<notin> set (senders_of (inflight d))"
  shows "d_inv (upd_worker i (\<lambda>_. w) d)"
proof -
  let ?d = "upd_worker i (\<lambda>_. w) d"
  have frame: "bg ?d = bg d" "inflight ?d = inflight d" "d_shutdownPending ?d = d_shutdownPending d"
      "msgProcCount ?d = msgProcCount d" "pools ?d = pools d" "class_of ?d j = class_of d j"
      "freeWorkers ?d = freeWorkers d" "activeWorkers ?d = activeWorkers d" "finishedWorkers ?d = finishedWorkers d"
      "workers ?d = (workers d)[i := w]" for j
    by (simp_all add: upd_worker_def pools_def class_of_def)
  have "inv_class ?d"
    using assms(1,2,3) by (intro inv_class_upd [of d ?d i w]) (simp_all add: frame d_inv_def inv_class_def)
  moreover have "inv_pools ?d" "inv_stage ?d"
    using assms(1) by (simp_all add: d_inv_def inv_pools_def inv_stage_def frame)
  moreover have "inv_msgs ?d"
    using assms(1,4) by (auto simp: d_inv_def inv_msgs_def frame nth_list_update_if)
  ultimately show ?thesis by (simp add: d_inv_def)
qed


lemma msg_replace_inv:
  assumes "d_inv d" and "inflight d = xs @ (src, p) # ys" and "OnMessage_step fac err src p d = Some (Some p', d')"
  shows "d_inv (d'\<lparr>inflight := xs @ (src, p') # ys\<rparr>)"
proof -
  let ?d = "d'\<lparr>inflight := xs @ (src, p') # ys\<rparr>"
  note fr = OnMessage_step_frame [OF assms(3)]
  have mem: "(src, p) \<in> set (inflight d)" by (simp add: assms(2))
  note st = OnMessage_step_inv [OF assms(1,3) mem]
  have same: "pools ?d = pools d'" "class_of ?d j = class_of d' j" "workers ?d = workers d'" for j
    by (simp_all add: pools_def class_of_def)
  have msgs: "msgProcCount d = int (length (inflight d))" "distinct (senders_of (inflight d))"
      "\<And>i. i \<in> set (senders_of (inflight d)) \<Longrightarrow> i < length (workers d) \<and> (\<exists>r. jw_phase (workers d ! i) = Sending r)"
    using assms(1) by (simp_all add: d_inv_def inv_msgs_def)
  have "inv_msgs ?d"
    using msgs fr(4,5,6) unfolding inv_msgs_def assms(2) by fastforce
  moreover have "inv_pools ?d" "inv_class ?d"
    using st by (simp_all add: inv_pools_def inv_class_def same)
  moreover have "inv_stage ?d"
    using assms(1,2) st fr(1,3) by (auto simp: d_inv_def inv_stage_def)
  ultimately show ?thesis by (simp add: d_inv_def)
qed

text \<open>The end of a call: the sender, if it is a worker, goes on behind \<open>SendMessage\<close>.\<close>

definition resume :: "sender \<Rightarrow> 'e dispatcher \<Rightarrow> 'e dispatcher" where
  "resume src d =
     (case src of SOther q \<Rightarrow> d
      | SWorker i \<Rightarrow> upd_worker i (\<lambda>w. case worker_sent w of None \<Rightarrow> w | Some w' \<Rightarrow> w') d)"

lemma msg_return_inv:
  assumes "d_inv d" and "inflight d = xs @ (src, p) # ys" and "OnMessage_step fac err src p d = Some (None, d')"
  shows "d_inv ((resume src d')\<lparr>inflight := xs @ ys\<rparr>)"
proof -
  let ?d1 = "d'\<lparr>inflight := xs @ ys\<rparr>"
  note fr = OnMessage_step_frame [OF assms(3)]
  have mem: "(src, p) \<in> set (inflight d)" by (simp add: assms(2))
  note st = OnMessage_step_inv [OF assms(1,3) mem]
  have same: "pools ?d1 = pools d'" "class_of ?d1 j = class_of d' j" "workers ?d1 = workers d'" for j
    by (simp_all add: pools_def class_of_def)
  have msgs: "msgProcCount d = int (length (inflight d))" "distinct (senders_of (inflight d))"
      "\<And>i. i \<in> set (senders_of (inflight d)) \<Longrightarrow> i < length (workers d) \<and> (\<exists>r. jw_phase (workers d ! i) = Sending r)"
    using assms(1) by (simp_all add: d_inv_def inv_msgs_def)
  have sub: "i \<in> set (senders_of (inflight d))" if "i \<in> set (senders_of (xs @ ys))" for i
    using that by (auto simp: assms(2))
  have "distinct (senders_of (xs @ ys))" using msgs(2) by (auto simp: assms(2))
  then have "inv_msgs ?d1"
    using msgs(1,3) fr(6,7) sub by (auto simp: inv_msgs_def assms(2))
  moreover have "inv_pools ?d1" "inv_class ?d1"
    using st by (simp_all add: inv_pools_def inv_class_def same)
  moreover have "inv_stage ?d1"
    using assms(1,2) fr(1,3) by (auto simp: d_inv_def inv_stage_def)
  ultimately have d1: "d_inv ?d1" by (simp add: d_inv_def)
  show ?thesis
  proof (cases src)
    case (SOther q)
    then show ?thesis using d1 by (simp add: resume_def)
  next
    case (SWorker i)
    have i: "i < length (workers d)" "\<exists>r. jw_phase (workers d ! i) = Sending r"
      using msgs(3) [of i] SWorker by (auto simp: assms(2))
    then obtain w where w: "worker_sent (workers d ! i) = Some w" by (auto simp: worker_sent_def)
    have "i \<notin> set (senders_of (xs @ ys))" using msgs(2) SWorker by (auto simp: assms(2))
    then have "d_inv (upd_worker i (\<lambda>_. w) ?d1)"
      using i(1) class_sent [OF _ w] fr(7) by (intro worker_step_inv [OF d1]) simp_all
    moreover have "upd_worker i (\<lambda>_. w) ?d1 = (resume src d')\<lparr>inflight := xs @ ys\<rparr>"
      using SWorker w fr(7) by (simp add: upd_worker_def resume_def)
    ultimately show ?thesis by simp
  qed
qed

lemma enter_inv:
  assumes "d_inv d" and "case src of SOther q \<Rightarrow> True
    | SWorker i \<Rightarrow> i < length (workers d) \<and> jw_phase (workers d ! i) = Sending r \<and> SWorker i \<notin> fst ` set (inflight d)"
  shows "d_inv (OnMessage_enter src r d)"
proof -
  let ?d = "OnMessage_enter src r d"
  have same: "pools ?d = pools d" "class_of ?d j = class_of d j" "workers ?d = workers d" "bg ?d = bg d"
      "freeWorkers ?d = freeWorkers d" "activeWorkers ?d = activeWorkers d" "finishedWorkers ?d = finishedWorkers d" for j
    by (simp_all add: OnMessage_enter_def pools_def class_of_def)
  have "inv_msgs ?d"
    using assms by (auto simp: d_inv_def inv_msgs_def OnMessage_enter_def simp flip: senders_of_iff split: sender.splits)
  moreover have "inv_stage ?d"
    using assms(1) by (auto simp: d_inv_def inv_stage_def OnMessage_enter_def harmless_def)
  ultimately show ?thesis
    using assms(1) by (simp add: d_inv_def inv_pools_def inv_class_def same)
qed

lemma sending_senders:
  "d_inv d \<Longrightarrow> (\<And>r. jw_phase (workers d ! i) \<noteq> Sending r) \<Longrightarrow> i \<notin> set (senders_of (inflight d))"
  by (auto simp: d_inv_def inv_msgs_def)

lemma internal_inv:
  assumes "internal fac cfg d d'" and "d_inv d"
  shows "d_inv d'"
  using assms
proof (cases rule: internal.cases)
  case (bg_step err)
  then show ?thesis
    using assms(2) Worker_step_pools Worker_step_class [OF bg_step refl] Worker_step_msgs Worker_step_stage
    unfolding d_inv_def by blast
next
  case (msg_step xs src p ys err p' d1)
  then show ?thesis using msg_replace_inv [OF assms(2)] by simp
next
  case (msg_return xs src p ys err d1)
  then show ?thesis using msg_return_inv [OF assms(2) msg_return(2,3)] by (simp add: resume_def split: sender.splits)
next
  case (wake i w)
  have "i \<notin> set (senders_of (inflight d))"
    using wake(3) by (intro sending_senders [OF assms(2)]) (auto simp: worker_wake_def)
  then show ?thesis using wake class_wake worker_step_inv [OF assms(2)] by blast
next
  case (executed i r w)
  have "i \<notin> set (senders_of (inflight d))"
    using executed(3) by (intro sending_senders [OF assms(2)]) (auto simp: worker_executed_def)
  then show ?thesis using executed class_executed worker_step_inv [OF assms(2)] by blast
next
  case (report i r)
  then show ?thesis using enter_inv [OF assms(2), of r "SWorker i"] by simp
qed

lemma dstep_inv:
  assumes "dstep fac cfg d d'" and "d_inv d"
  shows "d_inv d'"
  using assms
proof (cases rule: dstep.cases)
  case by_threads
  then show ?thesis using internal_inv assms(2) by blast
next
  case (other_message p r)
  then show ?thesis using enter_inv [OF assms(2), of r "SOther p"] by simp
next
  case shutdown_request
  have "class_of (dispatcher_OnShutdown d) j = class_of d j" for j by (simp add: dispatcher_OnShutdown_def class_of_def)
  then show ?thesis
    using shutdown_request assms(2)
    by (auto simp: dispatcher_OnShutdown_def d_inv_def inv_pools_def inv_class_def inv_msgs_def inv_stage_def pools_def)
next
  case (jobs_run e)
  have "class_of (d\<lparr>d_env := e\<rparr>) j = class_of d j" for j by (simp add: class_of_def)
  then show ?thesis
    using jobs_run assms(2)
    by (auto simp: d_inv_def inv_pools_def inv_class_def inv_msgs_def inv_stage_def pools_def)
qed

definition reachable :: "'e factory \<Rightarrow> config \<Rightarrow> 'e \<Rightarrow> 'e dispatcher \<Rightarrow> bool" where
  "reachable fac cfg e d \<longleftrightarrow> (dstep fac cfg)\<^sup>*\<^sup>* (JobDispatcher e) d"

lemma reachable_inv: "reachable fac cfg e d \<Longrightarrow> d_inv d"
  unfolding reachable_def by (induction rule: rtranclp_induct) (auto intro: d_inv_new dstep_inv)

end
