(* ===== verification/Dispatcher_Shutdown.thy ===== *)
theory Dispatcher_Shutdown
  imports Dispatcher_Invariant
begin

text \<open>
  What the dispatcher guarantees: its threads never deadlock, no job is assigned after the first wait
  of the shutdown, and the shutdown ends with every thread collected.
\<close>

section \<open>No deadlock\<close>

text \<open>A call in progress can always go on: the locks are only held while the calls do nothing.\<close>

lemma msg_enabled:
  assumes "d_inv d" and "(src, p) \<in> set (inflight d)"
  shows "\<exists>d'. internal fac cfg d d'"
proof -
  obtain xs ys where split: "inflight d = xs @ (src, p) # ys" using assms(2) by (meson split_list)
  have "\<not> harmless p \<Longrightarrow> \<not> past_pre (bg d)"
    using assms by (auto simp: d_inv_def inv_stage_def)
  then have free: "\<not> harmless p \<Longrightarrow> \<not> holds_free (bg d) \<and> \<not> holds_active (bg d) \<and> \<not> holds_dispose (bg d)"
    using early_classes by blast
  have "OnMessage_step fac 0 src p d \<noteq> None"
    using free by (cases "(fac, 0 :: int, src, p, d)" rule: OnMessage_step.cases) (auto simp: harmless_def split: prod.splits)
  then obtain q d' where "OnMessage_step fac 0 src p d = Some (q, d')" by auto
  then show ?thesis using internal.msg_step [OF split] internal.msg_return [OF split] by (cases q) blast+
qed

text \<open>A thread that the background thread joins can go on or has ended.\<close>

lemma join_enabled:
  assumes "d_inv d" and "i < length (workers d)" and "class_of d i = c" and "c \<in> {Dismissed, Busy, Leaving}"
    and "\<not> worker_ended (workers d ! i)"
  shows "\<exists>d'. internal fac cfg d d'"
proof -
  have cl: "has_class c (workers d ! i)" using assms(1-3) by (auto simp: d_inv_def inv_class_def)
  show ?thesis
  proof (cases "jw_phase (workers d ! i)")
    case NoThread
    then show ?thesis using cl assms(4) by (auto simp: has_class.simps)
  next
    case Waiting
    then have "jobSet (workers d ! i)" using cl assms(4) by (auto simp: has_class.simps)
    then show ?thesis using internal.wake [OF assms(2)] Waiting by (auto simp: worker_wake_def)
  next
    case (Executing j)
    then have "worker_executed (JR_NEW_CLIENT 0) (workers d ! i) \<noteq> None" by (simp add: worker_executed_def)
    then show ?thesis using internal.executed [OF assms(2)] by blast
  next
    case (Sending r)
    show ?thesis
    proof (cases "SWorker i \<in> fst ` set (inflight d)")
      case True
      then show ?thesis using msg_enabled [OF assms(1)] by force
    next
      case False
      then show ?thesis using internal.report [OF assms(2) Sending] by blast
    qed
  next
    case Ended
    then show ?thesis using assms(5) by (simp add: worker_ended_def)
  qed
qed

lemma turns_to_join: "turns_to p = Some (i, q, c, c') \<Longrightarrow> Worker_step cfg err d p = None \<Longrightarrow>
    c \<in> {Dismissed, Busy, Leaving} \<and> jw_Shutdown (workers d ! i) = None"
  by (induction p rule: turns_to.induct) auto

lemma other_blocked: "turns_to p = None \<Longrightarrow> Worker_step cfg err d p = None \<Longrightarrow>
    p \<in> {BG_Pre, BG_Post} \<and> msgProcCount d > 0 \<or> p \<in> {BG_Done, BG_Failed}"
  by (induction cfg err d p rule: Worker_step.induct) (auto simp: Let_def SpawnWorkers_eq split: if_split_asm)

lemma progress:
  assumes "d_inv d" and "bg d \<notin> {BG_Done, BG_Failed}"
  shows "\<exists>d'. internal fac cfg d d'"
proof (cases "Worker_step cfg 0 d (bg d)")
  case (Some d')
  then show ?thesis using internal.bg_step by blast
next
  case None
  show ?thesis
  proof (cases "turns_to (bg d)")
    case no: None
    then have "msgProcCount d > 0" using other_blocked [OF no None] assms(2) by blast
    then have "inflight d \<noteq> []" using assms(1) by (auto simp: d_inv_def inv_msgs_def)
    then obtain src p where "(src, p) \<in> set (inflight d)" by (cases "inflight d") auto
    then show ?thesis using msg_enabled [OF assms(1)] by blast
  next
    case (Some t)
    then obtain i q c c' where t: "turns_to (bg d) = Some (i, q, c, c')" by (cases t) auto
    have "pools_ok (freeWorkers d) (activeWorkers d) (finishedWorkers d) (bg d)"
      using assms(1) by (simp add: d_inv_def inv_pools_ok)
    note cl = turns_to_class [OF t this]
    have i: "i < length (workers d)" using cl(4) assms(1) unfolding d_inv_def inv_pools_def pools_def by blast
    have "class_of d i = c" using cl(1) by (simp add: class_of_cls)
    moreover have "\<not> worker_ended (workers d ! i)"
      using turns_to_join [OF t None] class_collected inv_classD [of d i c] calculation i assms(1)
      unfolding d_inv_def by fastforce
    ultimately show ?thesis using join_enabled [OF assms(1) i] turns_to_join [OF t None] by blast
  qed
qed

lemma never_failed:
  assumes "reachable fac cfg e d"
  shows "bg d \<noteq> BG_Failed"
proof -
  have bg: "Worker_step cfg err d p = Some d' \<Longrightarrow> bg d' \<noteq> BG_Failed" for err p and d d' :: "'e dispatcher"
    by (induction cfg err d p rule: Worker_step.induct) (auto simp: Let_def SpawnWorkers_eq split: if_split_asm)
  have "dstep fac cfg d d' \<Longrightarrow> bg d \<noteq> BG_Failed \<Longrightarrow> bg d' \<noteq> BG_Failed" for d d'
    by (auto simp: upd_worker_def OnMessage_enter_def dispatcher_OnShutdown_def elim!: dstep.cases internal.cases
        dest: bg OnMessage_step_frame(1) split: sender.splits)
  from assms [unfolded reachable_def] this show ?thesis
    by (induction rule: rtranclp_induct) (simp_all add: JobDispatcher_def)
qed

section \<open>The shutdown\<close>

lemma Worker_step_past:
  assumes "Worker_step cfg err d p = Some d'" and "past_pre p"
  shows "past_pre (bg d') \<and> length (workers d') = length (workers d) \<and>
    (\<forall>i < length (workers d). jw_job (workers d' ! i) \<in> {None, jw_job (workers d ! i)})"
proof -
  have "jw_job (jw_Request w) = jw_job w" "jw_job (snd (SetJob None w)) = (if jobSet w then jw_job w else None)"
    "jw_Shutdown w = Some (b, w') \<Longrightarrow> jw_job w' = jw_job w" for w b w'
    by (auto simp: worker_RequestShutdown_def worker_OnShutdown_def SetJob_def worker_Shutdown_def Let_def split: if_splits)
  then show ?thesis
    using assms
    by (induction cfg err d p rule: Worker_step.induct) (auto simp: upd_worker_def nth_list_update_if split: if_split_asm)
qed

text \<open>Nothing is assigned or created any more once the first wait of the shutdown is over.\<close>

definition no_new_jobs :: "'e dispatcher \<Rightarrow> 'e dispatcher \<Rightarrow> bool" where
  "no_new_jobs d d' \<longleftrightarrow> length (workers d') = length (workers d) \<and>
     (\<forall>i < length (workers d). jw_job (workers d' ! i) \<in> {None, jw_job (workers d ! i)})"

lemma no_new_jobs_trans:
  assumes "no_new_jobs d d'" and "no_new_jobs d' d''"
  shows "no_new_jobs d d''"
  using assms unfolding no_new_jobs_def by (metis empty_iff insert_iff)

lemma no_new_jobs_upd:
  "jw_job w \<in> {None, jw_job (workers d ! i)} \<Longrightarrow> no_new_jobs d (upd_worker i (\<lambda>_. w) d)"
  by (auto simp: no_new_jobs_def upd_worker_def nth_list_update_if)

lemma past_harmless:
  "d_inv d \<Longrightarrow> past_pre (bg d) \<Longrightarrow> (src, p) \<in> set (inflight d) \<Longrightarrow> harmless p"
  by (auto simp: d_inv_def inv_stage_def)

lemma past_internal:
  assumes "internal fac cfg d d'" and "d_inv d" and "past_pre (bg d)"
  shows "past_pre (bg d') \<and> no_new_jobs d d'"
  using assms(1)
proof (cases rule: internal.cases)
  case (bg_step err)
  then show ?thesis using Worker_step_past assms(3) by (simp add: no_new_jobs_def)
next
  case (msg_step xs src p ys err p' d1)
  have "harmless p" using past_harmless [OF assms(2,3), of src p] msg_step(2) by simp
  then show ?thesis using msg_step assms(3) by (cases p) (auto simp: harmless_def no_new_jobs_def)
next
  case (msg_return xs src p ys err d1)
  have "harmless p" using past_harmless [OF assms(2,3), of src p] msg_return(2) by simp
  then have d1: "bg d1 = bg d" "workers d1 = workers d"
    using msg_return(3) by (cases p; auto simp: harmless_def)+
  have "jw_job (case worker_sent w of None \<Rightarrow> w | Some w' \<Rightarrow> w') = jw_job w" for w
    by (auto simp: worker_sent_def split: worker_phase.splits)
  then show ?thesis
    using msg_return(1) d1 assms(3)
    by (auto simp: no_new_jobs_def upd_worker_def nth_list_update_if cong: option.case_cong split: sender.splits)
next
  case (wake i w)
  then show ?thesis
    using assms(3) no_new_jobs_upd [of w d i] by (auto simp: upd_worker_def worker_wake_def split: if_splits)
next
  case (executed i r w)
  then show ?thesis
    using assms(3) no_new_jobs_upd [of w d i]
    by (auto simp: upd_worker_def worker_executed_def split: worker_phase.splits)
next
  case (report i r)
  then show ?thesis using assms(3) by (simp add: OnMessage_enter_def no_new_jobs_def)
qed

lemma past_dstep:
  assumes "dstep fac cfg d d'" and "d_inv d" and "past_pre (bg d)"
  shows "past_pre (bg d') \<and> no_new_jobs d d'"
  using assms(1) past_internal [OF _ assms(2,3)] assms(3)
  by (auto simp: OnMessage_enter_def dispatcher_OnShutdown_def no_new_jobs_def elim!: dstep.cases)

lemma past_run:
  assumes "(dstep fac cfg)\<^sup>*\<^sup>* d d'" and "d_inv d" and "past_pre (bg d)"
  shows "d_inv d' \<and> past_pre (bg d') \<and> no_new_jobs d d'"
  using assms(1)
proof (induction rule: rtranclp_induct)
  case base
  then show ?case using assms(2,3) by (simp add: no_new_jobs_def)
next
  case (step y z)
  then have "past_pre (bg z) \<and> no_new_jobs y z" "d_inv z" using past_dstep dstep_inv by blast+
  then show ?case using step.IH no_new_jobs_trans by blast
qed

section \<open>The shutdown takes boundedly many steps\<close>

text \<open>
  How many steps are left, at most, once the shutdown has been requested: of the background thread,
  which may still be anywhere in its loop and create workers once more, of the calls in progress,
  which may still create jobs (at most \<open>K\<close> for each result) and a worker for each, and of the workers'
  threads (a worker that has yet to report counts the call it will make).  A pool entry counts twice,
  for the request and the join; a worker's thread at most six times.
\<close>

fun bg_rank :: "nat \<Rightarrow> bg_point \<Rightarrow> nat list \<Rightarrow> nat list \<Rightarrow> nat list \<Rightarrow> nat" where
  "bg_rank S BG_Collect free act fin = 15 + 8 * S + 2 * length free + 2 * length act + 2 * length fin"
| "bg_rank S (BG_Request is tmp) free act fin =
     14 + 8 * S + length is + length tmp + 2 * length free + 2 * length act + 2 * length fin"
| "bg_rank S (BG_Join is) free act fin = 13 + 8 * S + length is + 2 * length free + 2 * length act + 2 * length fin"
| "bg_rank S BG_Populate free act fin = 12 + 8 * S + 2 * length free + 2 * length act + 2 * length fin"
| "bg_rank S BG_Sleep free act fin = 11 + 2 * length free + 2 * length act + 2 * length fin"
| "bg_rank S BG_Test free act fin = 10 + 2 * length free + 2 * length act + 2 * length fin"
| "bg_rank S BG_Pre free act fin = 9 + 2 * length free + 2 * length act + 2 * length fin"
| "bg_rank S (BG_FreeReq is) free act fin = 8 + length is + length free + 2 * length act + 2 * length fin"
| "bg_rank S (BG_FreeJoin is) free act fin = 7 + length is + 2 * length act + 2 * length fin"
| "bg_rank S (BG_ActReq is) free act fin = 6 + length is + length act + 2 * length fin"
| "bg_rank S (BG_ActJoin is) free act fin = 5 + length is + 2 * length fin"
| "bg_rank S (BG_FinReq is) free act fin = 4 + length is + length fin"
| "bg_rank S (BG_FinJoin is) free act fin = 3 + length is"
| "bg_rank S BG_Post free act fin = 1"
| "bg_rank S p free act fin = 0"

definition msg_rank :: "nat \<Rightarrow> msg_point \<Rightarrow> nat" where
  "msg_rank K p = (case p of MP_Check r \<Rightarrow> 2 | MP_Move r \<Rightarrow> 4 + 9 * K | MP_Create r \<Rightarrow> 3 + 9 * K
     | MP_Assign js \<Rightarrow> 2 + 9 * length js | MP_Leave \<Rightarrow> 1)"

definition worker_rank :: "nat set \<Rightarrow> job_worker list \<Rightarrow> nat \<Rightarrow> nat" where
  "worker_rank S ws i = (case jw_phase (ws ! i) of
     NoThread \<Rightarrow> 0 | Waiting \<Rightarrow> 6 | Executing j \<Rightarrow> 5 | Sending r \<Rightarrow> (if i \<in> S then 1 else 4) | Ended \<Rightarrow> 0)"

definition d_rank :: "config \<Rightarrow> 'e dispatcher \<Rightarrow> nat" where
  "d_rank cfg d = bg_rank (nat (GetWorkersSpawnCount cfg)) (bg d) (freeWorkers d) (activeWorkers d) (finishedWorkers d)"

definition ws_rank :: "nat set \<Rightarrow> job_worker list \<Rightarrow> nat" where
  "ws_rank S ws = (\<Sum>i < length ws. worker_rank S ws i)"

definition shutdown_bound :: "nat \<Rightarrow> config \<Rightarrow> 'e dispatcher \<Rightarrow> nat" where
  "shutdown_bound K cfg d = d_rank cfg d + sum_list (map (msg_rank K \<circ> snd) (inflight d)) +
     ws_rank (set (senders_of (inflight d))) (workers d)"

lemma sum_change:
  fixes f g :: "nat \<Rightarrow> nat"
  assumes "i < n" and "\<And>j. j < n \<Longrightarrow> j \<noteq> i \<Longrightarrow> g j = f j"
  shows "(\<Sum>j < n. g j) + f i = (\<Sum>j < n. f j) + g i"
proof -
  have "sum g {..<n} = g i + sum g ({..<n} - {i})" "sum f {..<n} = f i + sum f ({..<n} - {i})"
    using assms(1) by (simp_all add: sum.remove)
  moreover have "sum g ({..<n} - {i}) = sum f ({..<n} - {i})" using assms(2) by (intro sum.cong) auto
  ultimately show ?thesis by simp
qed

text \<open>New workers, and those whose phase stays.\<close>

lemma ws_rank_grows:
  assumes "length ws \<le> length ws'" and "\<And>i. i < length ws \<Longrightarrow> jw_phase (ws' ! i) = jw_phase (ws ! i)"
  shows "ws_rank S ws' \<le> ws_rank S ws + 6 * (length ws' - length ws)"
proof -
  have le: "worker_rank S ws' i \<le> 6" for i by (simp add: worker_rank_def split: worker_phase.splits)
  have "(\<Sum>i < length ws + m. worker_rank S ws' i) \<le> (\<Sum>i < length ws. worker_rank S ws' i) + 6 * m" for m
    by (induction m) (use le in \<open>auto simp: add_increasing intro: order_trans [OF add_mono]\<close>)
  from this [of "length ws' - length ws"] have "ws_rank S ws' \<le> (\<Sum>i < length ws. worker_rank S ws' i) + 6 * (length ws' - length ws)"
    using assms(1) by (simp add: ws_rank_def)
  also have "(\<Sum>i < length ws. worker_rank S ws' i) = ws_rank S ws"
    unfolding ws_rank_def by (rule sum.cong) (simp_all add: worker_rank_def assms(2))
  finally show ?thesis .
qed

text \<open>A step of the background thread pays for the workers it creates.\<close>

lemma d_rank_step:
  assumes "Worker_step cfg err d (bg d) = Some d'" and "d_shutdownPending d"
  shows "d_rank cfg d' + 6 * (length (workers d') - length (workers d)) < d_rank cfg d"
proof -
  have "Worker_step cfg err d p = Some d' \<Longrightarrow> d_shutdownPending d \<Longrightarrow> p \<noteq> BG_Populate \<Longrightarrow>
      d_rank cfg d' + 6 * (length (workers d') - length (workers d)) <
      bg_rank (nat (GetWorkersSpawnCount cfg)) p (freeWorkers d) (activeWorkers d) (finishedWorkers d)" for p
    by (induction cfg err d p rule: Worker_step.induct) (auto simp: d_rank_def upd_worker_def split: if_split_asm)
  moreover have "Worker_step cfg err d BG_Populate = Some d' \<Longrightarrow>
      d_rank cfg d' + 6 * (length (workers d') - length (workers d)) <
      bg_rank (nat (GetWorkersSpawnCount cfg)) BG_Populate (freeWorkers d) (activeWorkers d) (finishedWorkers d)"
    unfolding Populate_eq SpawnWorkers_eq by (auto simp: d_rank_def)
  ultimately show ?thesis
    using assms by (cases "bg d = BG_Populate") (simp_all add: d_rank_def [of cfg d])
qed

text \<open>A step of a call in progress pays for the jobs it creates and assigns.\<close>

lemma early_rank: "\<not> past_pre p \<Longrightarrow> p \<noteq> BG_Failed \<Longrightarrow>
    \<exists>b. \<forall>free act fin. bg_rank S p free act fin = b + 2 * (length free + length act + length fin)"
  by (cases p) (force simp: algebra_simps intro: exI [of _ "bg_rank S p [] [] []"])+

lemma msg_rank_step:
  assumes "OnMessage_step fac err src p d = Some (q, d')" and "d_shutdownPending d" and "past_pre (bg d) \<Longrightarrow> harmless p"
    and "bg d \<noteq> BG_Failed" and "\<And>r e. length (fst (fac r e)) \<le> K"
  shows "d_rank cfg d' + 6 * (length (workers d') - length (workers d)) +
    (case q of None \<Rightarrow> 0 | Some p' \<Rightarrow> msg_rank K p') < d_rank cfg d + msg_rank K p"
proof (cases "harmless p")
  case True
  then show ?thesis
    using assms(1,2) by (cases p) (auto simp: harmless_def msg_rank_def d_rank_def)
next
  case False
  then have "\<not> past_pre (bg d)" using assms(3) by blast
  from early_rank [OF this assms(4)] obtain b where rank:
    "bg_rank (nat (GetWorkersSpawnCount cfg)) (bg d) free act fin = b + 2 * (length free + length act + length fin)" for free act fin
    by blast
  have jobs: "fac r e = (js, e') \<Longrightarrow> length js \<le> K" for r e js e' using assms(5) [of r e] by simp
  show ?thesis
  proof (cases "(fac, err, src, p, d)" rule: OnMessage_step.cases)
    case (2 fac' err' src' r d0)
    then have step: "q = Some (MP_Create r)" "d' = move_finished src d" "p = MP_Move r" using assms(1) by (simp_all split: if_splits)
    have "length (activeWorkers d') + length (finishedWorkers d') = length (activeWorkers d) + length (finishedWorkers d)"
      unfolding step(2) by (cases "\<exists>i. src = SWorker i \<and> i \<in> set (activeWorkers d)")
        (auto simp: move_finished_def length_remove1 dest!: length_pos_if_in_set split: sender.splits)
    moreover have "freeWorkers d' = freeWorkers d" "workers d' = workers d" "bg d' = bg d"
      unfolding step(2) by (simp_all add: move_finished_def split: sender.splits)
    ultimately show ?thesis using rank by (simp add: step(1,3) msg_rank_def d_rank_def)
  next
    case (3 fac' err' src' r d0)
    obtain js e' where "fac r (d_env d) = (js, e')" by fastforce
    then show ?thesis using 3 assms(1) jobs [of r "d_env d" js e'] by (auto simp: msg_rank_def d_rank_def)
  next
    case (5 fac' err' src' j js d0)
    then show ?thesis
      using assms(1) rank by (auto simp: msg_rank_def d_rank_def assign_job_eq Let_def List.insert_def split: if_splits)
  qed (use assms(1) False in \<open>auto simp: harmless_def msg_rank_def d_rank_def\<close>)
qed

text \<open>A worker's thread that moves on.\<close>

lemma ws_rank_upd:
  assumes "i < length (workers d)" and "worker_rank (set (senders_of (inflight d))) ((workers d)[i := w]) i <
      worker_rank (set (senders_of (inflight d))) (workers d) i"
  shows "shutdown_bound K cfg (upd_worker i (\<lambda>_. w) d) < shutdown_bound K cfg d"
proof -
  let ?r = "worker_rank (set (senders_of (inflight d)))"
  have "(\<Sum>j < length (workers d). ?r ((workers d)[i := w]) j) + ?r (workers d) i =
      (\<Sum>j < length (workers d). ?r (workers d) j) + ?r ((workers d)[i := w]) i"
    using assms(1) by (intro sum_change) (simp_all add: worker_rank_def)
  then show ?thesis using assms(2) by (simp add: shutdown_bound_def d_rank_def ws_rank_def upd_worker_def)
qed

lemma bound_step:
  assumes "internal fac cfg d d'" and inv: "d_inv d" and pending: "d_shutdownPending d" and "bg d \<noteq> BG_Failed"
    and "\<And>r e. length (fst (fac r e)) \<le> K"
  shows "shutdown_bound K cfg d' < shutdown_bound K cfg d"
  using assms(1)
proof (cases rule: internal.cases)
  case (bg_step err)
  have fr: "inflight d' = inflight d" and ws: "ws_rank S (workers d') \<le> ws_rank S (workers d) +
      6 * (length (workers d') - length (workers d))" for S
    using Worker_step_frame [OF bg_step] by (simp_all add: ws_rank_grows)
  show ?thesis using d_rank_step [OF bg_step pending] ws [of "set (senders_of (inflight d))"] by (simp add: shutdown_bound_def fr)
next
  case (msg_step xs src p ys err p' d1)
  have "past_pre (bg d) \<Longrightarrow> harmless p" using past_harmless [OF inv, of src p] msg_step(2) by simp
  note rank = msg_rank_step [OF msg_step(3) pending this assms(4,5), of cfg]
  have fr: "inflight d1 = inflight d" and ws: "ws_rank S (workers d1) \<le> ws_rank S (workers d) +
      6 * (length (workers d1) - length (workers d))" for S
    using OnMessage_step_frame [OF msg_step(3)] by (simp_all add: ws_rank_grows)
  have "d_rank cfg d' = d_rank cfg d1" using msg_step(1) by (simp add: d_rank_def)
  then show ?thesis
    using rank ws [of "set (senders_of (inflight d))"] msg_step(1,2)
    by (simp add: shutdown_bound_def senders_of_replace [of xs src p' ys p])
next
  case (msg_return xs src p ys err d1)
  have "past_pre (bg d) \<Longrightarrow> harmless p" using past_harmless [OF inv, of src p] msg_return(2) by simp
  note rank = msg_rank_step [OF msg_return(3) pending this assms(4,5), of cfg]
  have d1: "workers d1 = workers d" "inflight d1 = inflight d" using OnMessage_step_frame [OF msg_return(3)] by simp_all
  show ?thesis
  proof (cases src)
    case (SOther q)
    then show ?thesis using msg_return(1,2) rank d1 by (simp add: shutdown_bound_def d_rank_def)
  next
    case (SWorker i)
    have msgs: "distinct (senders_of (inflight d))" "i < length (workers d)" "\<exists>r. jw_phase (workers d ! i) = Sending r"
      using inv SWorker by (auto simp: d_inv_def inv_msgs_def msg_return(2))
    then obtain r where ph: "jw_phase (workers d ! i) = Sending r" by blast
    define w where "w = (workers d ! i)\<lparr>jw_phase := Ended\<rparr>"
    have d': "workers d' = (workers d)[i := w]" "inflight d' = xs @ ys" "d_rank cfg d' = d_rank cfg d1"
      using msg_return(1) d1 SWorker ph by (simp_all add: upd_worker_def worker_sent_def w_def d_rank_def)
    have sub: "j \<in> set (senders_of (xs @ ys)) \<longleftrightarrow> j \<in> set (senders_of (inflight d))" if "j \<noteq> i" for j
      using that SWorker by (auto simp: msg_return(2))
    have "(\<Sum>j < length (workers d). worker_rank (set (senders_of (xs @ ys))) ((workers d)[i := w]) j) +
        worker_rank (set (senders_of (inflight d))) (workers d) i =
        (\<Sum>j < length (workers d). worker_rank (set (senders_of (inflight d))) (workers d) j) +
        worker_rank (set (senders_of (xs @ ys))) ((workers d)[i := w]) i"
      using msgs(2) sub by (intro sum_change) (simp_all add: worker_rank_def cong: worker_phase.case_cong)
    moreover have "worker_rank (set (senders_of (xs @ ys))) ((workers d)[i := w]) i = 0"
      using msgs(2) by (simp add: worker_rank_def w_def)
    ultimately have "ws_rank (set (senders_of (xs @ ys))) ((workers d)[i := w]) \<le> ws_rank (set (senders_of (inflight d))) (workers d)"
      by (simp add: ws_rank_def)
    then show ?thesis
      using rank d1 unfolding shutdown_bound_def d' by (simp add: msg_return(2))
  qed
next
  case (wake i w)
  then show ?thesis
    by (auto simp: worker_wake_def worker_rank_def split: if_splits option.splits intro!: ws_rank_upd)
next
  case (executed i r w)
  have "i \<notin> set (senders_of (inflight d))"
    using executed(3) by (intro sending_senders [OF inv]) (auto simp: worker_executed_def)
  then show ?thesis
    using executed by (auto simp: worker_executed_def worker_rank_def split: worker_phase.splits intro!: ws_rank_upd)
next
  case (report i r)
  have i: "i \<notin> set (senders_of (inflight d))" using report(4) by (simp add: senders_of_iff)
  let ?S = "set (senders_of (inflight d))"
  have "(\<Sum>j < length (workers d). worker_rank (insert i ?S) (workers d) j) + worker_rank ?S (workers d) i =
      (\<Sum>j < length (workers d). worker_rank ?S (workers d) j) + worker_rank (insert i ?S) (workers d) i"
    using report(2) by (intro sum_change) (simp_all add: worker_rank_def)
  then show ?thesis
    using report(1,3) i
    by (simp add: shutdown_bound_def d_rank_def ws_rank_def OnMessage_enter_def worker_rank_def msg_rank_def)
qed

text \<open>
  Any interleaving of the dispatcher's own threads with what comes from outside, counting the steps
  of the former and the messages among the latter.
\<close>

inductive runs_for :: "'e factory \<Rightarrow> config \<Rightarrow> nat \<Rightarrow> nat \<Rightarrow> 'e dispatcher \<Rightarrow> 'e dispatcher \<Rightarrow> bool" for fac cfg where
  run_done: "runs_for fac cfg 0 0 d d"
| run_internal: "runs_for fac cfg n m d d1 \<Longrightarrow> internal fac cfg d1 d' \<Longrightarrow> runs_for fac cfg (Suc n) m d d'"
| run_message: "runs_for fac cfg n m d d1 \<Longrightarrow> runs_for fac cfg n (Suc m) d (OnMessage_enter (SOther p) r d1)"
| run_request: "runs_for fac cfg n m d d1 \<Longrightarrow> runs_for fac cfg n m d (dispatcher_OnShutdown d1)"
| run_jobs: "runs_for fac cfg n m d d1 \<Longrightarrow> runs_for fac cfg n m d (d1\<lparr>d_env := e\<rparr>)"

lemma reachable_step: "reachable fac cfg e d \<Longrightarrow> dstep fac cfg d d' \<Longrightarrow> reachable fac cfg e d'"
  unfolding reachable_def by (rule rtranclp.rtrancl_into_rtrancl)

lemma runs_for_dsteps: "runs_for fac cfg n m d d' \<Longrightarrow> (dstep fac cfg)\<^sup>*\<^sup>* d d'"
  by (induction rule: runs_for.induct) (auto intro: rtranclp.rtrancl_into_rtrancl dstep.intros)

lemma internal_pending: "internal fac cfg d d' \<Longrightarrow> d_shutdownPending d' = d_shutdownPending d"
  by (auto simp: upd_worker_def OnMessage_enter_def elim!: internal.cases
      dest: Worker_step_frame OnMessage_step_frame(3) split: sender.splits)

lemma bound_run:
  assumes "runs_for fac cfg n m d d'" and "reachable fac cfg e d" and "d_shutdownPending d"
    and "\<And>r e. length (fst (fac r e)) \<le> K"
  shows "n + shutdown_bound K cfg d' \<le> shutdown_bound K cfg d + 2 * m \<and> reachable fac cfg e d' \<and> d_shutdownPending d'"
  using assms(1-3)
proof (induction rule: runs_for.induct)
  case (run_internal n m d d1 d')
  then have IH: "n + shutdown_bound K cfg d1 \<le> shutdown_bound K cfg d + 2 * m" "reachable fac cfg e d1" "d_shutdownPending d1"
    by simp_all
  then have "shutdown_bound K cfg d' < shutdown_bound K cfg d1"
    by (intro bound_step [OF run_internal.hyps(2)] reachable_inv assms(4)) (auto dest: never_failed)
  moreover have "reachable fac cfg e d'"
    using reachable_step [OF IH(2) by_threads [OF run_internal.hyps(2)]] .
  ultimately show ?case using IH internal_pending [OF run_internal.hyps(2)] by simp
next
  case (run_message n m d d1 p r)
  then have "reachable fac cfg e (OnMessage_enter (SOther p) r d1)"
    by (intro reachable_step [OF _ other_message]) simp
  then show ?case
    using run_message by (simp add: shutdown_bound_def d_rank_def OnMessage_enter_def msg_rank_def)
next
  case (run_request n m d d1)
  then have "dispatcher_OnShutdown d1 = d1" by (simp add: dispatcher_OnShutdown_def)
  then show ?case using run_request by simp
next
  case (run_jobs n m d d1 e')
  then have "reachable fac cfg e (d1\<lparr>d_env := e'\<rparr>)"
    by (intro reachable_step [OF _ jobs_run]) simp
  then show ?case using run_jobs by (simp add: shutdown_bound_def d_rank_def)
qed simp

section \<open>The stock of free workers\<close>

lemma move_finished_free [simp]: "freeWorkers (move_finished src d) = freeWorkers d"
  by (simp add: move_finished_def split: sender.splits)

lemma OnMessage_step_free:
  "OnMessage_step fac err src p d = Some (q, d') \<Longrightarrow> length (freeWorkers d') \<le> length (freeWorkers d)"
  by (cases "(fac, err, src, p, d)" rule: OnMessage_step.cases)
    (auto simp: assign_job_eq Let_def split: if_splits prod.splits)

lemma Worker_step_free:
  "Worker_step cfg err d p = Some d' \<Longrightarrow> length (freeWorkers d) \<le> nat (GetWorkersCount cfg) \<Longrightarrow>
     length (freeWorkers d') \<le> nat (GetWorkersCount cfg)"
proof (cases "p = BG_Populate")
  case True
  assume "Worker_step cfg err d p = Some d'" "length (freeWorkers d) \<le> nat (GetWorkersCount cfg)"
  then show ?thesis unfolding True Populate_eq SpawnWorkers_eq by auto
next
  case False
  then show "Worker_step cfg err d p = Some d' \<Longrightarrow> length (freeWorkers d) \<le> nat (GetWorkersCount cfg) \<Longrightarrow> ?thesis"
    by (induction cfg err d p rule: Worker_step.induct) (auto simp: upd_worker_def split: if_split_asm)
qed

lemma dstep_free:
  assumes "dstep fac cfg d d'" and "length (freeWorkers d) \<le> nat (GetWorkersCount cfg)"
  shows "length (freeWorkers d') \<le> nat (GetWorkersCount cfg)"
  using assms
  by (auto simp: upd_worker_def OnMessage_enter_def dispatcher_OnShutdown_def elim!: dstep.cases internal.cases
      dest: Worker_step_free OnMessage_step_free split: sender.splits)

lemma reachable_free: "reachable fac cfg e d \<Longrightarrow> length (freeWorkers d) \<le> nat (GetWorkersCount cfg)"
  unfolding reachable_def by (induction rule: rtranclp_induct) (auto simp: JobDispatcher_def dest: dstep_free)

section \<open>Concrete runs\<close>

text \<open>Who makes the next step; of the calls in progress it is the oldest one.\<close>

datatype actor = Background | OldestCall | Wake nat | Execute nat job_result | Report nat | Other ptr job_result | Shutdown_request

fun perform :: "'e factory \<Rightarrow> config \<Rightarrow> actor \<Rightarrow> 'e dispatcher \<Rightarrow> 'e dispatcher option" where
  "perform fac cfg Background d = Worker_step cfg 0 d (bg d)"
| "perform fac cfg OldestCall d =
     (case inflight d of [] \<Rightarrow> None
      | (src, p) # ys \<Rightarrow>
         (case OnMessage_step fac 0 src p d of None \<Rightarrow> None
          | Some (Some p', d') \<Rightarrow> Some (d'\<lparr>inflight := (src, p') # ys\<rparr>)
          | Some (None, d') \<Rightarrow> Some ((resume src d')\<lparr>inflight := ys\<rparr>)))"
| "perform fac cfg (Wake i) d =
     (if i < length (workers d) then map_option (\<lambda>w. upd_worker i (\<lambda>_. w) d) (worker_wake (workers d ! i)) else None)"
| "perform fac cfg (Execute i r) d =
     (if i < length (workers d) then map_option (\<lambda>w. upd_worker i (\<lambda>_. w) d) (worker_executed r (workers d ! i)) else None)"
| "perform fac cfg (Report i) d =
     (if i < length (workers d) \<and> SWorker i \<notin> fst ` set (inflight d)
      then (case jw_phase (workers d ! i) of Sending r \<Rightarrow> Some (OnMessage_enter (SWorker i) r d) | _ \<Rightarrow> None)
      else None)"
| "perform fac cfg (Other p r) d = Some (OnMessage_enter (SOther p) r d)"
| "perform fac cfg Shutdown_request d = Some (dispatcher_OnShutdown d)"

lemma perform_dstep: "perform fac cfg a d = Some d' \<Longrightarrow> dstep fac cfg d d'"
proof (cases a)
  case OldestCall
  assume "perform fac cfg a d = Some d'"
  then obtain src p ys q d1 where "inflight d = [] @ (src, p) # ys" "OnMessage_step fac 0 src p d = Some (q, d1)"
      "d' = (case q of Some p' \<Rightarrow> d1\<lparr>inflight := [] @ (src, p') # ys\<rparr> | None \<Rightarrow> (resume src d1)\<lparr>inflight := [] @ ys\<rparr>)"
    using OldestCall by (auto split: list.splits option.splits)
  then show ?thesis
    using msg_step [of d "[]" src p ys fac 0] msg_return [of d "[]" src p ys fac 0]
    by (cases q) (auto simp: resume_def intro: by_threads)
qed (auto split: if_splits worker_phase.splits intro: dstep.intros internal.intros)

fun run :: "'e factory \<Rightarrow> config \<Rightarrow> actor list \<Rightarrow> 'e dispatcher \<Rightarrow> 'e dispatcher option" where
  "run fac cfg [] d = Some d"
| "run fac cfg (a # as) d = Option.bind (perform fac cfg a d) (run fac cfg as)"

lemma run_dsteps: "run fac cfg as d = Some d' \<Longrightarrow> (dstep fac cfg)\<^sup>*\<^sup>* d d'"
  by (induction as arbitrary: d)
    (auto simp: bind_eq_Some_conv intro: converse_rtranclp_into_rtranclp dest: perform_dstep)

text \<open>One free worker; a client arrives, its handshake runs and ends the connection; then a shutdown.\<close>

definition demo_factory :: "nat factory" where
  "demo_factory r e = (case r of JR_NEW_CLIENT c \<Rightarrow> ([ClientHandshake State_empty], e + 1) | _ \<Rightarrow> ([], e))"

definition demo_dispatcher_config :: config where
  "demo_dispatcher_config = SetWorkersCount 1 (SetWorkersSpawnCount 1 sample_config)"

definition demo_arrival :: "actor list" where
  "demo_arrival = replicate 6 Background @ [Other 9 (JR_NEW_CLIENT 3)] @ replicate 6 OldestCall @ [Wake 0]"

definition demo_shutdown :: "actor list" where
  "demo_shutdown = replicate 6 Background @ [Shutdown_request, Background, Background]"

definition demo_end :: "actor list" where
  "demo_end = [Background, Background, Wake 1, Background, Background, Background, Background,
     Execute 0 (JR_TERMINAL State_empty), Report 0, OldestCall, OldestCall] @ replicate 5 Background"

definition demo_dispatch :: "actor list \<Rightarrow> nat dispatcher option" where
  "demo_dispatch as = run demo_factory demo_dispatcher_config as (JobDispatcher 0)"

text \<open>What the runs show; a run of the demo is a reachable state.\<close>

definition seen :: "nat dispatcher option \<Rightarrow> (bg_point \<times> nat list \<times> nat list \<times> nat) option" where
  "seen r = map_option (\<lambda>d. (bg d, freeWorkers d, activeWorkers d, length (workers d))) r"

lemma demo_seen:
  "seen (demo_dispatch demo_arrival) = Some (BG_Test, [], [0], 1)"
  "seen (demo_dispatch (demo_arrival @ demo_shutdown)) = Some (BG_FreeReq [1], [1], [0], 2)"
  "seen (demo_dispatch (demo_arrival @ demo_shutdown @ demo_end)) = Some (BG_Done, [], [], 2)"
  by code_simp+

lemma demo_reachable:
  assumes "seen (demo_dispatch as) = Some (p, free, act, n)"
  obtains d where "demo_dispatch as = Some d" and "reachable demo_factory demo_dispatcher_config 0 d" and "bg d = p"
    and "freeWorkers d = free" and "activeWorkers d = act" and "length (workers d) = n"
proof -
  obtain d where d: "demo_dispatch as = Some d" using assms by (auto simp: seen_def)
  then have "reachable demo_factory demo_dispatcher_config 0 d"
    unfolding reachable_def demo_dispatch_def by (rule run_dsteps)
  then show ?thesis using that d assms by (simp add: seen_def)
qed

lemma run_append: "run fac cfg (as @ bs) d = Option.bind (run fac cfg as d) (run fac cfg bs)"
proof (induction as arbitrary: d)
  case (Cons a as)
  then show ?case by (cases "perform fac cfg a d") simp_all
qed simp

section \<open>Properties\<close>

text \<open>
  C12.  In every reachable state, whatever the interleaving, each worker ever created is in exactly one
  pool or its thread has been joined; before a shutdown, free workers wait without a job, active ones
  have been given one; and the stock of free workers never exceeds the configured count.
\<close>

theorem dispatcher_pools_partition:
  assumes "reachable fac cfg e d"
  shows "distinct (pools d) \<and> set (pools d) \<subseteq> {..<length (workers d)} \<and>
    (\<forall>i < length (workers d). i \<notin> set (pools d) \<longrightarrow> \<not> workerStarted (workers d ! i) \<and> worker_ended (workers d ! i)) \<and>
    (\<not> past_pre (bg d) \<longrightarrow>
      (\<forall>i \<in> set (freeWorkers d). workerStarted (workers d ! i) \<and> jw_phase (workers d ! i) = Waiting \<and> \<not> jobSet (workers d ! i)) \<and>
      (\<forall>i \<in> set (activeWorkers d). workerStarted (workers d ! i) \<and> jobSet (workers d ! i))) \<and>
    length (freeWorkers d) \<le> nat (GetWorkersCount cfg)"
proof -
  have inv: "inv_pools d" "inv_class d" using reachable_inv [OF assms] by (simp_all add: d_inv_def)
  then have pools: "distinct (pools d)" "set (pools d) \<subseteq> {..<length (workers d)}" by (simp_all add: inv_pools_def)
  have out: "\<not> workerStarted (workers d ! i) \<and> worker_ended (workers d ! i)" if "i < length (workers d)" "i \<notin> set (pools d)" for i
    using inv_classD [OF inv(2), of i Collected] that by (simp add: class_of_def pools_def has_class.simps worker_ended_def)
  have free: "has_class Fresh (workers d ! i)" if "\<not> past_pre (bg d)" "i \<in> set (freeWorkers d)" for i
    using inv_classD [OF inv(2), of i Fresh] that pools(2) early_classes by (auto simp: class_of_def pools_def)
  have act: "has_class Busy (workers d ! i)" if "\<not> past_pre (bg d)" "i \<in> set (activeWorkers d)" for i
  proof -
    have "i \<notin> set (freeWorkers d)" "i < length (workers d)" using that(2) pools by (auto simp: pools_def)
    then show ?thesis
      using that early_classes(2) [OF that(1)] by (intro inv_classD [OF inv(2)]) (simp_all add: class_of_def)
  qed
  show ?thesis
    using pools out free act reachable_free [OF assms] by (auto simp: has_class.simps)
qed

theorem dispatcher_pools_partition_witness:
  "\<exists>d. demo_dispatch demo_arrival = Some d \<and> distinct (pools d) \<and> activeWorkers d = [0] \<and> jobSet (workers d ! 0)"
proof -
  obtain d where "demo_dispatch demo_arrival = Some d" "reachable demo_factory demo_dispatcher_config 0 d"
      "bg d = BG_Test" "activeWorkers d = [0]"
    using demo_reachable [OF demo_seen(1)] .
  then show ?thesis using dispatcher_pools_partition [of demo_factory demo_dispatcher_config 0 d] by auto
qed

text \<open>
  C10.  The dispatcher never deadlocks, although its shutdown waits for threads while it holds the locks
  that messages need: until the background thread has ended, some thread can make a step.
\<close>

theorem dispatcher_never_deadlocks:
  assumes "reachable fac cfg e d" and "bg d \<noteq> BG_Done"
  shows "\<exists>d'. internal fac cfg d d'"
  using progress [OF reachable_inv [OF assms(1)]] never_failed [OF assms(1)] assms(2) by blast

theorem dispatcher_never_deadlocks_witness:
  "\<exists>d d'. demo_dispatch (demo_arrival @ demo_shutdown) = Some d \<and> bg d = BG_FreeReq [1] \<and>
     internal demo_factory demo_dispatcher_config d d'"
proof -
  obtain d where "demo_dispatch (demo_arrival @ demo_shutdown) = Some d" "bg d = BG_FreeReq [1]"
      "reachable demo_factory demo_dispatcher_config 0 d"
    using demo_reachable [OF demo_seen(2)] .
  then show ?thesis using dispatcher_never_deadlocks [of demo_factory demo_dispatcher_config 0 d] by auto
qed

text \<open>
  C11.  The shutdown completes.  However the program got there, and wherever its threads are when the
  dispatcher is asked to stop: if the factory creates at most \<open>K\<close> jobs for a result, then, whatever
  messages still arrive, the dispatcher's threads make at most \<open>shutdown_bound\<close> more steps, and two
  for each message; and when they can make no more, the background thread has ended, the pools are
  empty and every worker's thread was joined.
\<close>

theorem dispatcher_shutdown_completes:
  assumes "reachable fac cfg e d" and "\<And>r e. length (fst (fac r e)) \<le> K"
    and "runs_for fac cfg n m (dispatcher_OnShutdown d) d'"
  shows "n \<le> shutdown_bound K cfg d + 2 * m \<and> ((\<nexists>d''. internal fac cfg d' d'') \<longrightarrow>
    bg d' = BG_Done \<and> freeWorkers d' = [] \<and> activeWorkers d' = [] \<and> finishedWorkers d' = [] \<and>
    (\<forall>i < length (workers d'). \<not> workerStarted (workers d' ! i) \<and> worker_ended (workers d' ! i)))"
proof -
  have "reachable fac cfg e (dispatcher_OnShutdown d)"
    by (rule reachable_step [OF assms(1) shutdown_request])
  from bound_run [OF assms(3) this _ assms(2)]
  have run: "n + shutdown_bound K cfg d' \<le> shutdown_bound K cfg (dispatcher_OnShutdown d) + 2 * m" "reachable fac cfg e d'"
    by (simp_all add: dispatcher_OnShutdown_def)
  moreover have "shutdown_bound K cfg (dispatcher_OnShutdown d) = shutdown_bound K cfg d"
    by (simp add: shutdown_bound_def d_rank_def dispatcher_OnShutdown_def)
  ultimately have "n \<le> shutdown_bound K cfg d + 2 * m" by simp
  moreover have inv: "d_inv d'" by (rule reachable_inv [OF run(2)])
  have "bg d' = BG_Done" if "\<nexists>d''. internal fac cfg d' d''"
    using progress [OF inv] that never_failed [OF run(2)] by blast
  moreover have "freeWorkers d' = [] \<and> activeWorkers d' = [] \<and> finishedWorkers d' = []" if "bg d' = BG_Done"
    using inv that by (simp add: d_inv_def inv_pools_def)
  moreover have "\<not> workerStarted (workers d' ! i) \<and> worker_ended (workers d' ! i)"
    if "bg d' = BG_Done" "i < length (workers d')" for i
    using inv_classD [of d' i Collected] inv that calculation(3) [OF that(1)]
    by (simp add: d_inv_def class_of_def has_class.simps worker_ended_def)
  ultimately show ?thesis by blast
qed

theorem dispatcher_shutdown_completes_witness:
  "\<exists>d. demo_dispatch demo_arrival = Some d \<and> bg d = BG_Test \<and> activeWorkers d = [0] \<and>
     (\<forall>n d'. runs_for demo_factory demo_dispatcher_config n 0 (dispatcher_OnShutdown d) d' \<longrightarrow>
        n \<le> shutdown_bound 1 demo_dispatcher_config d)"
proof -
  obtain d where "demo_dispatch demo_arrival = Some d" "bg d = BG_Test" "activeWorkers d = [0]"
      "reachable demo_factory demo_dispatcher_config 0 d"
    using demo_reachable [OF demo_seen(1)] .
  moreover have "length (fst (demo_factory r e)) \<le> 1" for r e
    by (simp add: demo_factory_def split: job_result.splits)
  ultimately show ?thesis
    using dispatcher_shutdown_completes [of demo_factory demo_dispatcher_config 0 d 1 _ 0] by auto
qed

text \<open>
  C13.  Once the first wait of the shutdown is over, no interleaving of the threads and of messages that
  still arrive creates a worker or gives one a job.
\<close>

theorem dispatcher_no_job_after_wait:
  assumes "reachable fac cfg e d" and "past_pre (bg d)" and "(dstep fac cfg)\<^sup>*\<^sup>* d d'"
  shows "past_pre (bg d') \<and> length (workers d') = length (workers d) \<and>
    (\<forall>i < length (workers d). jw_job (workers d' ! i) \<in> {None, jw_job (workers d ! i)})"
  using past_run [OF assms(3) reachable_inv [OF assms(1)] assms(2)] by (simp add: no_new_jobs_def)

theorem dispatcher_no_job_after_wait_witness:
  "\<exists>d d'. demo_dispatch (demo_arrival @ demo_shutdown) = Some d \<and>
     run demo_factory demo_dispatcher_config demo_end d = Some d' \<and> length (workers d') = 2 \<and>
     jw_job (workers d' ! 1) \<in> {None, jw_job (workers d ! 1)}"
proof -
  obtain d where d: "demo_dispatch (demo_arrival @ demo_shutdown) = Some d" "bg d = BG_FreeReq [1]" "length (workers d) = 2"
      "reachable demo_factory demo_dispatcher_config 0 d"
    using demo_reachable [OF demo_seen(2)] .
  obtain d' where "demo_dispatch ((demo_arrival @ demo_shutdown) @ demo_end) = Some d'"
    using demo_reachable [OF demo_seen(3)] by auto
  then have run: "run demo_factory demo_dispatcher_config demo_end d = Some d'"
    using d(1) by (simp add: demo_dispatch_def run_append [of _ _ "demo_arrival @ demo_shutdown"] del: append_assoc)
  show ?thesis
    using dispatcher_no_job_after_wait [OF d(4) _ run_dsteps [OF run]] d run by auto
qed

end
