(* ===== verification/Server_Listener.thy ===== *)
theory Server_Listener
  imports Comm_Service Message_Broker Job_Workers
begin

text \<open>
  \<open>src/Src/TCPServerListener.*\<close>: the thread that owns a listening socket.  It prepares the socket,
  reports that it is ready, waits for the permission to go on (the process may still drop its
  privileges), then accepts clients and hands each to the communication service and to the
  subscribers, until it is told to stop.

  The kernel is a parameter; the run keeps the calls the thread made with their results, the messages
  it sent and the service it shares with the other threads.
\<close>

section \<open>State\<close>

record listener =
  l_endpoint :: ip_endpoint
  l_shutdownPending :: bool
  l_startupAllowed :: bool

definition TCPServerListener :: "ip_endpoint \<Rightarrow> listener" where
  "TCPServerListener listenAt = \<lparr>l_endpoint = listenAt, l_shutdownPending = False, l_startupAllowed = False\<rparr>"

definition listener_OnShutdown :: "listener \<Rightarrow> listener" where
  "listener_OnShutdown l = l\<lparr>l_shutdownPending := True\<rparr>"

definition listener_ReadyForMessage :: "MsgType \<Rightarrow> bool" where
  "listener_ReadyForMessage ty \<longleftrightarrow> ty = MSG_STARTUP_CONTINUE"

definition listener_OnMessage :: "listener \<Rightarrow> listener" where
  "listener_OnMessage l = l\<lparr>l_startupAllowed := True\<rparr>"

text \<open>A run of the thread; \<open>lr_created\<close> records its calls of \<open>CreateHandlerFromSocket\<close> with their results.\<close>

record 's listener_run =
  lr_flags :: listener
  lr_calls :: "(os_call \<times> int) list"
  lr_created :: "(int \<times> u64) list"
  lr_sent :: "message list"
  lr_svc :: 's

type_synonym ('s, 'a) l_step = "('s listener_run, unit, 'a) step"

definition lsys :: "kernel \<Rightarrow> os_call \<Rightarrow> 's listener_run \<Rightarrow> (int \<times> int) \<times> 's listener_run" where
  "lsys k c s =
     (let (r, err) = k (map fst (lr_calls s)) c in ((r, err), s\<lparr>lr_calls := lr_calls s @ [(c, r)]\<rparr>))"

definition listener_send :: "message \<Rightarrow> 's listener_run \<Rightarrow> 's listener_run" where
  "listener_send m s = s\<lparr>lr_sent := lr_sent s @ [m]\<rparr>"

text \<open>\<open>HandleError\<close> in both forms; the one without an error number sends the code 1.\<close>

definition listener_HandleError :: "int \<Rightarrow> 's listener_run \<Rightarrow> 's listener_run" where
  "listener_HandleError ec s = listener_send (ShutdownMessage ec) s"

section \<open>Preparing the socket\<close>

text \<open>A call that ends the thread unless its result is 0.\<close>

definition lcheck :: "kernel \<Rightarrow> os_call \<Rightarrow> ('s, unit) l_step" where
  "lcheck k c s =
     (let ((r, err), s1) = lsys k c s
      in if r \<noteq> 0 then (Inl (), listener_HandleError err s1) else (Inr (), s1))"

definition listen_sa :: "endian \<Rightarrow> ip_endpoint \<Rightarrow> bytes" where
  "listen_sa e endpoint =
     (let zero = replicate (if isV6 (address endpoint) then 28 else 16) 0;
          fam = memcpy_at 0 (store16 e (if isV6 (address endpoint) then AF_INET6 else AF_INET)) zero;
          prt = memcpy_at 2 (store16 e (htons e (port endpoint))) fam
      in ToSA e (address endpoint) prt)"

text \<open>\<open>reuse_port\<close> tells whether the platform defines \<open>SO_REUSEPORT\<close>.\<close>

definition listener_configure :: "kernel \<Rightarrow> endian \<Rightarrow> bool \<Rightarrow> ip_endpoint \<Rightarrow> int \<Rightarrow> ('s, unit) l_step" where
  "listener_configure k e reuse_port endpoint lSockFd =
     bind_step (lcheck k (SysSetReuseAddr lSockFd)) (\<lambda>_.
     bind_step (if reuse_port then lcheck k (SysSetReusePort lSockFd) else ret_step ()) (\<lambda>_.
     bind_step (lcheck k (SysSetLinger lSockFd 1 0)) (\<lambda>_.
     bind_step (lcheck k (SysBind lSockFd (listen_sa e endpoint))) (\<lambda>_.
     lcheck k (SysListen lSockFd 1)))))"

definition listener_open :: "kernel \<Rightarrow> endian \<Rightarrow> bool \<Rightarrow> ip_endpoint \<Rightarrow> ('s, int) l_step" where
  "listener_open k e reuse_port endpoint s =
     (if \<not> isValid (address endpoint) then (Inl (), listener_HandleError 1 s)
      else
      let ((lSockFd, err), s1) = lsys k (SysSocket (isV6 (address endpoint))) s
      in if lSockFd = -1 then (Inl (), listener_HandleError err s1)
      else bind_step (listener_configure k e reuse_port endpoint lSockFd) (\<lambda>_. ret_step lSockFd) s1)"

section \<open>Accepting clients\<close>

datatype turn_end = T_Continue | T_Break | T_Return

text \<open>The body of the loop, after the test of \<open>shutdownPending\<close>.\<close>

definition accept_turn :: "kernel \<Rightarrow> (int \<Rightarrow> 's \<Rightarrow> u64 \<times> 's) \<Rightarrow> int \<Rightarrow> int \<Rightarrow> 's listener_run \<Rightarrow>
    turn_end \<times> 's listener_run" where
  "accept_turn k create interval lSockFd s =
     (let ((lrv, error), s1) = lsys k (SysPoll lSockFd interval) s
      in if lrv = 0 then (T_Continue, s1)
      else if lrv < 0
      then (if error = EINTR then (T_Break, s1) else (T_Return, listener_HandleError error s1))
      else
      let ((cSockFd, err), s2) = lsys k (SysAccept lSockFd) s1
      in if cSockFd < 1 then (T_Continue, s2)
      else
      let (handler, svc) = create cSockFd (lr_svc s2); s3 = s2\<lparr>lr_svc := svc, lr_created := lr_created s2 @ [(cSockFd, handler)]\<rparr>
      in if handler > HANDLER_ERROR then (T_Return, listener_HandleError 1 s3)
         else (T_Continue, listener_send (JobCompleteMessage (JR_NEW_CLIENT handler)) s3))"

definition listener_close :: "kernel \<Rightarrow> int \<Rightarrow> 's listener_run \<Rightarrow> 's listener_run" where
  "listener_close k lSockFd s =
     (let ((r, err), s1) = lsys k (SysClose lSockFd) s
      in if r \<noteq> 0 then listener_HandleError err s1 else s1)"

text \<open>
  The loop; before each test other threads may change the flags and the service (the flags are read
  nowhere else, and what others do to the service until it is used might as well happen then).  The
  first component tells whether the thread has ended.
\<close>

type_synonym 's others = "(listener \<Rightarrow> listener) \<times> ('s \<Rightarrow> 's)"

definition interfere :: "'s others \<Rightarrow> 's listener_run \<Rightarrow> 's listener_run" where
  "interfere oth s = s\<lparr>lr_flags := fst oth (lr_flags s), lr_svc := snd oth (lr_svc s)\<rparr>"

fun accept_loop :: "kernel \<Rightarrow> (int \<Rightarrow> 's \<Rightarrow> u64 \<times> 's) \<Rightarrow> int \<Rightarrow> int \<Rightarrow> 's others list \<Rightarrow> 's listener_run \<Rightarrow>
    bool \<times> 's listener_run" where
  "accept_loop k create interval lSockFd [] s =
     (if l_shutdownPending (lr_flags s) then (True, listener_close k lSockFd s) else (False, s))"
| "accept_loop k create interval lSockFd (oth # turns) s =
     (if l_shutdownPending (lr_flags s) then (True, listener_close k lSockFd s)
      else case accept_turn k create interval lSockFd s of
        (T_Continue, s1) \<Rightarrow> accept_loop k create interval lSockFd turns (interfere oth s1)
      | (T_Break, s1) \<Rightarrow> (True, listener_close k lSockFd s1)
      | (T_Return, s1) \<Rightarrow> (True, s1))"

text \<open>The busy wait for \<open>startupAllowed\<close>.\<close>

fun wait_startup :: "'s others list \<Rightarrow> 's listener_run \<Rightarrow> bool \<times> 's others list \<times> 's listener_run" where
  "wait_startup [] s = (l_startupAllowed (lr_flags s), [], s)"
| "wait_startup (oth # turns) s =
     (if l_startupAllowed (lr_flags s) then (True, oth # turns, s) else wait_startup turns (interfere oth s))"

definition listener_Worker :: "kernel \<Rightarrow> (int \<Rightarrow> 's \<Rightarrow> u64 \<times> 's) \<Rightarrow> endian \<Rightarrow> bool \<Rightarrow> config \<Rightarrow> 's others list \<Rightarrow>
    's listener_run \<Rightarrow> bool \<times> 's listener_run" where
  "listener_Worker k create e reuse_port cfg turns s =
     (case listener_open k e reuse_port (l_endpoint (lr_flags s)) s of
        (Inl _, s1) \<Rightarrow> (True, s1)
      | (Inr lSockFd, s1) \<Rightarrow>
          let (allowed, turns', s2) = wait_startup turns (listener_send StartupReadyMessage s1)
          in if allowed then accept_loop k create (GetServiceIntervalMS cfg) lSockFd turns' s2 else (False, s2))"

definition listener_start :: "ip_endpoint \<Rightarrow> 's \<Rightarrow> 's listener_run" where
  "listener_start listenAt svc = \<lparr>lr_flags = TCPServerListener listenAt, lr_calls = [], lr_created = [], lr_sent = [], lr_svc = svc\<rparr>"

section \<open>What the thread announces\<close>

text \<open>The descriptors the thread accepted, and the clients it announced.\<close>

fun accepted :: "(os_call \<times> int) list \<Rightarrow> int list" where
  "accepted [] = []"
| "accepted ((SysAccept lSockFd, r) # cs) = (if r < 1 then accepted cs else r # accepted cs)"
| "accepted (c # cs) = accepted cs"

lemma accepted_append [simp]: "accepted (cs @ ds) = accepted cs @ accepted ds"
  by (induction cs rule: accepted.induct) simp_all

definition is_setup :: "os_call \<Rightarrow> bool" where
  "is_setup c \<longleftrightarrow> (case c of SysPoll lSockFd ms \<Rightarrow> False | SysAccept lSockFd \<Rightarrow> False | SysClose lSockFd \<Rightarrow> False | _ \<Rightarrow> True)"

lemma accepted_setup: "list_all (is_setup \<circ> fst) cs \<Longrightarrow> accepted cs = [] \<and> closed cs = []"
  by (induction cs rule: accepted.induct) (simp_all add: is_setup_def)

lemma lsys_frame:
  assumes "lsys k c s = ((r, err), s')"
  shows "lr_calls s' = lr_calls s @ [(c, r)]" "lr_sent s' = lr_sent s" "lr_svc s' = lr_svc s"
    "lr_flags s' = lr_flags s" "lr_created s' = lr_created s"
  using assms by (auto simp: lsys_def Let_def split: prod.splits)

lemma listener_send_simps [simp]:
  "lr_calls (listener_send m s) = lr_calls s" "lr_sent (listener_send m s) = lr_sent s @ [m]"
  "lr_svc (listener_send m s) = lr_svc s" "lr_flags (listener_send m s) = lr_flags s"
  "lr_created (listener_send m s) = lr_created s"
  by (simp_all add: listener_send_def)

lemma interfere_simps [simp]:
  "lr_calls (interfere oth s) = lr_calls s" "lr_sent (interfere oth s) = lr_sent s"
  "lr_svc (interfere oth s) = snd oth (lr_svc s)" "lr_flags (interfere oth s) = fst oth (lr_flags s)"
  "lr_created (interfere oth s) = lr_created s"
  by (simp_all add: interfere_def)

section \<open>The setup\<close>

text \<open>A part of the setup neither accepts nor closes; it sends one shutdown request if it fails.\<close>

definition setup_part :: "('s, 'a) l_step \<Rightarrow> bool" where
  "setup_part m \<longleftrightarrow> (\<forall>s x s'. m s = (x, s') \<longrightarrow>
     (\<exists>cs. lr_calls s' = lr_calls s @ cs \<and> list_all (is_setup \<circ> fst) cs) \<and> lr_svc s' = lr_svc s \<and>
     lr_flags s' = lr_flags s \<and> lr_created s' = lr_created s \<and>
     (case x of Inl u \<Rightarrow> \<exists>ec. lr_sent s' = lr_sent s @ [ShutdownMessage ec] | Inr a \<Rightarrow> lr_sent s' = lr_sent s))"

named_theorems setup_intros

lemma setup_part_ret [setup_intros]: "setup_part (ret_step a)"
  by (simp add: setup_part_def)

lemma setup_part_bind [setup_intros]:
  assumes "setup_part m" and "\<And>a. setup_part (f a)"
  shows "setup_part (bind_step m f)"
  unfolding setup_part_def
proof (intro allI impI)
  fix s x s' assume run: "bind_step m f s = (x, s')"
  then show "(\<exists>cs. lr_calls s' = lr_calls s @ cs \<and> list_all (is_setup \<circ> fst) cs) \<and> lr_svc s' = lr_svc s \<and>
     lr_flags s' = lr_flags s \<and> lr_created s' = lr_created s \<and>
     (case x of Inl u \<Rightarrow> \<exists>ec. lr_sent s' = lr_sent s @ [ShutdownMessage ec] | Inr a \<Rightarrow> lr_sent s' = lr_sent s)"
  proof (cases rule: bind_step_cases)
    case (fail u)
    then show ?thesis using assms(1) unfolding setup_part_def by fastforce
  next
    case (cont a s1)
    note one = assms(1) [unfolded setup_part_def, rule_format, OF cont(1)]
    note two = assms(2) [unfolded setup_part_def, rule_format, OF cont(2)]
    obtain cs1 cs2 where "lr_calls s1 = lr_calls s @ cs1" "list_all (is_setup \<circ> fst) cs1"
        "lr_calls s' = lr_calls s1 @ cs2" "list_all (is_setup \<circ> fst) cs2"
      using one two by blast
    then have "lr_calls s' = lr_calls s @ (cs1 @ cs2) \<and> list_all (is_setup \<circ> fst) (cs1 @ cs2)" by simp
    then show ?thesis using one two by (auto split: sum.splits)
  qed
qed

lemma setup_part_check [setup_intros]:
  assumes "is_setup c"
  shows "setup_part (lcheck k c)"
  unfolding setup_part_def
proof (intro allI impI)
  fix s :: "'s listener_run" and x s' assume run: "lcheck k c s = (x, s')"
  obtain r err s1 where call: "lsys k c s = ((r, err), s1)" by (metis prod.collapse)
  show "(\<exists>cs. lr_calls s' = lr_calls s @ cs \<and> list_all (is_setup \<circ> fst) cs) \<and> lr_svc s' = lr_svc s \<and>
     lr_flags s' = lr_flags s \<and> lr_created s' = lr_created s \<and>
     (case x of Inl u \<Rightarrow> \<exists>ec. lr_sent s' = lr_sent s @ [ShutdownMessage ec] | Inr a \<Rightarrow> lr_sent s' = lr_sent s)"
    using run call lsys_frame [OF call] assms
    by (auto simp: lcheck_def listener_HandleError_def split: if_splits)
qed

lemma listener_configure_setup: "setup_part (listener_configure k e reuse_port endpoint lSockFd)"
  unfolding listener_configure_def by (cases reuse_port) (auto intro!: setup_intros simp: is_setup_def)

lemma listener_open_setup: "setup_part (listener_open k e reuse_port endpoint)"
  unfolding setup_part_def
proof (intro allI impI)
  fix s :: "'s listener_run" and x s' assume run: "listener_open k e reuse_port endpoint s = (x, s')"
  obtain fd err s1 where so: "lsys k (SysSocket (isV6 (address endpoint))) s = ((fd, err), s1)"
    by (metis prod.collapse)
  note fr = lsys_frame [OF so]
  let ?m = "bind_step (listener_configure k e reuse_port endpoint fd) (\<lambda>_. ret_step fd)"
  have rest: "setup_part ?m" by (intro setup_intros listener_configure_setup)
  show "(\<exists>cs. lr_calls s' = lr_calls s @ cs \<and> list_all (is_setup \<circ> fst) cs) \<and> lr_svc s' = lr_svc s \<and>
     lr_flags s' = lr_flags s \<and> lr_created s' = lr_created s \<and>
     (case x of Inl u \<Rightarrow> \<exists>ec. lr_sent s' = lr_sent s @ [ShutdownMessage ec] | Inr a \<Rightarrow> lr_sent s' = lr_sent s)"
  proof (cases "isValid (address endpoint) \<and> fd \<noteq> -1")
    case False
    then show ?thesis
      using run so fr by (auto simp: listener_open_def listener_HandleError_def is_setup_def split: if_splits)
  next
    case True
    then have m: "?m s1 = (x, s')" using run so by (simp add: listener_open_def)
    from rest [unfolded setup_part_def, rule_format, OF this] obtain cs where
      "lr_calls s' = lr_calls s1 @ cs" "list_all (is_setup \<circ> fst) cs" by blast
    then have "lr_calls s' = lr_calls s @ ((SysSocket (isV6 (address endpoint)), fd) # cs)"
        "list_all (is_setup \<circ> fst) ((SysSocket (isV6 (address endpoint)), fd) # cs)"
      using fr(1) by (simp_all add: is_setup_def)
    then show ?thesis
      using rest [unfolded setup_part_def, rule_format, OF m] fr by (auto split: sum.splits)
  qed
qed

text \<open>What it returns is the descriptor that its first call created.\<close>

lemma listener_open_socket:
  assumes "listener_open k e reuse_port endpoint s = (Inr lSockFd, s')"
  shows "\<exists>cs. lr_calls s' = lr_calls s @ (SysSocket (isV6 (address endpoint)), lSockFd) # cs"
proof -
  obtain fd err s1 where so: "lsys k (SysSocket (isV6 (address endpoint))) s = ((fd, err), s1)"
    by (metis prod.collapse)
  then have "bind_step (listener_configure k e reuse_port endpoint fd) (\<lambda>_. ret_step fd) s1 = (Inr lSockFd, s')"
    using assms by (auto simp: listener_open_def split: if_splits)
  then have "listener_configure k e reuse_port endpoint fd s1 = (Inr (), s')" and "fd = lSockFd"
    by (auto simp: bind_step_Inr_iff)
  with listener_configure_setup [unfolded setup_part_def, rule_format, OF this(1)] lsys_frame(1) [OF so]
  show ?thesis by auto
qed

lemma listener_open_start:
  assumes "listener_open k e reuse_port listenAt (listener_start listenAt svc) = (x, s1)"
  shows "list_all (is_setup \<circ> fst) (lr_calls s1)" and "lr_svc s1 = svc" and "lr_created s1 = []"
    and "lr_flags s1 = TCPServerListener listenAt"
    and "case x of Inl u \<Rightarrow> \<exists>ec. lr_sent s1 = [ShutdownMessage ec] | Inr sock \<Rightarrow> lr_sent s1 = []"
  using listener_open_setup [unfolded setup_part_def, rule_format, OF assms]
  by (simp_all add: listener_start_def split: sum.splits)

lemma listener_start_simps [simp]:
  "lr_flags (listener_start listenAt svc) = TCPServerListener listenAt"
  "l_endpoint (TCPServerListener listenAt) = listenAt" "\<not> l_startupAllowed (TCPServerListener listenAt)"
  "\<not> l_shutdownPending (TCPServerListener listenAt)"
  by (simp_all add: listener_start_def TCPServerListener_def)

section \<open>The clients\<close>

text \<open>
  The listener relies on a service that, besides the contract of handlers, never hands out an
  identifier twice: \<open>used\<close> are the ones it has handed out.
\<close>

locale numbering_service = icomm_service get create connect dispose room
  for get :: "u64 \<Rightarrow> 's \<Rightarrow> 'h option" and create :: "int \<Rightarrow> 's \<Rightarrow> u64 \<times> 's"
    and connect :: "ip_endpoint \<Rightarrow> timeval \<Rightarrow> 's \<Rightarrow> u64 \<times> 's" and dispose :: "u64 \<Rightarrow> 's \<Rightarrow> 's"
    and room :: "nat \<Rightarrow> 's \<Rightarrow> bool" +
  fixes used :: "'s \<Rightarrow> u64 set"
  assumes create_unused: "room (Suc n) s \<Longrightarrow> create sock s = (hid, s') \<Longrightarrow>
    hid \<notin> used s \<and> insert hid (used s) \<subseteq> used s'"
begin

lemma create_in_range: "room (Suc n) s \<Longrightarrow> create sock s = (hid, s') \<Longrightarrow> hid \<le> HANDLER_ERROR \<and> room n s'"
  using create_new by blast

end

definition announce :: "(int \<times> u64) list \<Rightarrow> message list" where
  "announce created = map (\<lambda>(sock, handler). JobCompleteMessage (JR_NEW_CLIENT handler)) created"

lemma announce_simps [simp]:
  "announce [] = []" "announce (xs @ ys) = announce xs @ announce ys"
  "announce [(sock, handler)] = [JobCompleteMessage (JR_NEW_CLIENT handler)]"
  by (simp_all add: announce_def)

text \<open>
  From one state of a run to a later one: the clients it accepted in between all got new handlers
  and were announced in this order; \<open>extra\<close> was sent at the end.
\<close>

definition l_extends :: "('s \<Rightarrow> u64 set) \<Rightarrow> message list \<Rightarrow> 's listener_run \<Rightarrow> 's listener_run \<Rightarrow> bool" where
  "l_extends used extra s s' \<longleftrightarrow> (\<exists>new. lr_created s' = lr_created s @ new \<and>
     accepted (lr_calls s') = accepted (lr_calls s) @ map fst new \<and>
     lr_sent s' = lr_sent s @ announce new @ extra \<and> distinct (map snd new) \<and>
     set (map snd new) \<inter> used (lr_svc s) = {} \<and> used (lr_svc s) \<union> set (map snd new) \<subseteq> used (lr_svc s') \<and>
     (\<forall>hid \<in> set (map snd new). hid \<le> HANDLER_ERROR))"

named_theorems extend_intros

lemma l_extends_trans:
  assumes "l_extends used [] s s1" and "l_extends used extra s1 s2"
  shows "l_extends used extra s s2"
proof -
  obtain n1 where one:
    "lr_created s1 = lr_created s @ n1" "accepted (lr_calls s1) = accepted (lr_calls s) @ map fst n1"
    "lr_sent s1 = lr_sent s @ announce n1" "distinct (map snd n1)"
    "set (map snd n1) \<inter> used (lr_svc s) = {}" "used (lr_svc s) \<union> set (map snd n1) \<subseteq> used (lr_svc s1)"
    "\<forall>hid \<in> set (map snd n1). hid \<le> HANDLER_ERROR"
    using assms(1) unfolding l_extends_def by (metis append.right_neutral)
  obtain n2 where two:
    "lr_created s2 = lr_created s1 @ n2" "accepted (lr_calls s2) = accepted (lr_calls s1) @ map fst n2"
    "lr_sent s2 = lr_sent s1 @ announce n2 @ extra" "distinct (map snd n2)"
    "set (map snd n2) \<inter> used (lr_svc s1) = {}" "used (lr_svc s1) \<union> set (map snd n2) \<subseteq> used (lr_svc s2)"
    "\<forall>hid \<in> set (map snd n2). hid \<le> HANDLER_ERROR"
    using assms(2) unfolding l_extends_def by metis
  have ids: "set (map snd (n1 @ n2)) = set (map snd n1) \<union> set (map snd n2)" by simp
  show ?thesis
    unfolding l_extends_def
  proof (intro exI [of _ "n1 @ n2"] conjI)
    have "set (map snd n1) \<inter> set (map snd n2) = {}" using one(6) two(5) by blast
    then show "distinct (map snd (n1 @ n2))" using one(4) two(4) by simp
    show "set (map snd (n1 @ n2)) \<inter> used (lr_svc s) = {}" unfolding ids using one(5,6) two(5) by blast
    show "used (lr_svc s) \<union> set (map snd (n1 @ n2)) \<subseteq> used (lr_svc s2)" unfolding ids using one(6) two(6) by blast
    show "\<forall>hid \<in> set (map snd (n1 @ n2)). hid \<le> HANDLER_ERROR" unfolding ids using one(7) two(7) by blast
  qed (simp_all add: one(1-3) two(1-3))
qed

lemma l_extends_same [extend_intros]:
  assumes "lr_created s' = lr_created s" and "accepted (lr_calls s') = accepted (lr_calls s)"
    and "lr_sent s' = lr_sent s @ extra" and "used (lr_svc s) \<subseteq> used (lr_svc s')"
  shows "l_extends used extra s s'"
  using assms unfolding l_extends_def by (intro exI [of _ "[]"]) simp

lemma listener_close_extends:
  "\<exists>extra. l_extends used extra s (listener_close k lSockFd s) \<and> (extra = [] \<or> (\<exists>ec. extra = [ShutdownMessage ec]))"
proof -
  obtain r err s1 where cl: "lsys k (SysClose lSockFd) s = ((r, err), s1)" by (metis prod.collapse)
  note fr = lsys_frame [OF cl]
  show ?thesis
  proof (cases "r = 0")
    case True
    then show ?thesis using cl fr by (intro exI [of _ "[]"]) (auto simp: listener_close_def intro!: extend_intros)
  next
    case False
    then show ?thesis using cl fr
      by (intro exI [of _ "[ShutdownMessage err]"])
        (auto simp: listener_close_def listener_HandleError_def intro!: extend_intros)
  qed
qed

text \<open>The error message at the end of a run, if there is one.\<close>

definition at_most_shutdown :: "message list \<Rightarrow> bool" where
  "at_most_shutdown extra \<longleftrightarrow> extra = [] \<or> (\<exists>ec. extra = [ShutdownMessage ec])"

definition l_ends :: "('s \<Rightarrow> u64 set) \<Rightarrow> bool \<Rightarrow> 's listener_run \<Rightarrow> 's listener_run \<Rightarrow> bool" where
  "l_ends used ended s s' \<longleftrightarrow>
     (\<exists>extra. l_extends used extra s s' \<and> at_most_shutdown extra \<and> (extra \<noteq> [] \<longrightarrow> ended))"

lemma l_ends_after: "l_extends used [] s s1 \<Longrightarrow> l_ends used ended s1 s2 \<Longrightarrow> l_ends used ended s s2"
  unfolding l_ends_def by (blast intro: l_extends_trans)

lemma l_ends_close: "l_ends used True s (listener_close k lSockFd s)"
  using listener_close_extends [of used s k lSockFd] unfolding l_ends_def at_most_shutdown_def by blast

lemma l_ends_same: "l_ends used b s s"
  unfolding l_ends_def at_most_shutdown_def by (intro exI [of _ "[]"]) (simp add: extend_intros)

context numbering_service begin

lemma accept_turn_extends:
  assumes "room (Suc n) (lr_svc s)" and "accept_turn k create interval lSockFd s = (t, s')"
  shows "room n (lr_svc s') \<and> (case t of
      T_Return \<Rightarrow> \<exists>ec. l_extends used [ShutdownMessage ec] s s'
    | _ \<Rightarrow> l_extends used [] s s')"
proof -
  obtain lrv error s1 where po: "lsys k (SysPoll lSockFd interval) s = ((lrv, error), s1)" by (metis prod.collapse)
  obtain cSockFd err s2 where ac: "lsys k (SysAccept lSockFd) s1 = ((cSockFd, err), s2)" by (metis prod.collapse)
  obtain handler svc where cr: "create cSockFd (lr_svc s2) = (handler, svc)" by fastforce
  note fr = lsys_frame [OF po] lsys_frame [OF ac]
  note less = room_less [OF assms(1), of n]
  show ?thesis
  proof (cases "0 < lrv \<and> \<not> cSockFd < 1")
    case False
    then show ?thesis
      using assms(2) po ac fr less
      by (auto simp: accept_turn_def listener_HandleError_def intro!: extend_intros split: if_splits)
  next
    case True
    have new: "handler \<notin> used (lr_svc s)" "insert handler (used (lr_svc s)) \<subseteq> used svc"
        "handler \<le> HANDLER_ERROR" "room n svc"
      using create_unused [OF assms(1), of cSockFd handler svc] create_in_range [OF assms(1), of cSockFd handler svc]
        cr fr by simp_all
    then have "t = T_Continue" and s': "s' = listener_send (JobCompleteMessage (JR_NEW_CLIENT handler))
        (s2\<lparr>lr_svc := svc, lr_created := lr_created s2 @ [(cSockFd, handler)]\<rparr>)"
      using assms(2) po ac cr True by (auto simp: accept_turn_def Let_def split: if_splits)
    moreover have "l_extends used [] s s'"
      unfolding l_extends_def s' using new fr True by (intro exI [of _ "[(cSockFd, handler)]"]) simp
    ultimately show ?thesis using new by simp
  qed
qed

text \<open>
  What the other threads do in one turn may use up \<open>c\<close> identifiers, and takes none back.
\<close>

lemma accept_loop_ends:
  assumes "list_all2 (\<lambda>c oth. \<forall>m s. room (m + c) s \<longrightarrow> room m (snd oth s) \<and> used s \<subseteq> used (snd oth s)) costs turns"
    and "room (length turns + sum_list costs) (lr_svc s)"
    and "accept_loop k create interval lSockFd turns s = (ended, s')"
  shows "l_ends used ended s s'"
  using assms
proof (induction costs turns arbitrary: s rule: list_all2_induct)
  case Nil
  then show ?case by (auto simp: l_ends_close l_ends_same split: if_splits)
next
  case (Cons c costs oth turns)
  show ?case
  proof (cases "l_shutdownPending (lr_flags s)")
    case True
    then show ?thesis using Cons.prems by (auto simp: l_ends_close)
  next
    case False
    obtain t s1 where turn: "accept_turn k create interval lSockFd s = (t, s1)" by fastforce
    have "room (Suc (length turns + sum_list costs + c)) (lr_svc s)" using Cons.prems(1) by (simp add: ac_simps)
    note one = accept_turn_extends [OF this turn]
    show ?thesis
    proof (cases t)
      case T_Continue
      have next1: "l_extends used [] s s1" using one T_Continue by simp
      have room1: "room (length turns + sum_list costs + c) (lr_svc s1)" using one by simp
      then have oth: "room (length turns + sum_list costs) (lr_svc (interfere oth s1))"
          "used (lr_svc s1) \<subseteq> used (lr_svc (interfere oth s1))"
        using Cons.hyps(1) by simp_all
      have "l_extends used [] s1 (interfere oth s1)" using oth(2) by (intro extend_intros) simp_all
      moreover have "l_ends used ended (interfere oth s1) s'"
        using Cons.IH [OF oth(1)] Cons.prems(2) turn T_Continue False by simp
      ultimately show ?thesis using next1 by (blast intro: l_ends_after)
    next
      case T_Break
      then have "l_extends used [] s s1" using one by simp
      moreover have "ended" "s' = listener_close k lSockFd s1" using Cons.prems(2) turn T_Break False by simp_all
      ultimately show ?thesis using l_ends_after l_ends_close by fastforce
    next
      case T_Return
      then have "\<exists>ec. l_extends used [ShutdownMessage ec] s s1" using one by simp
      moreover have "ended" "s' = s1" using Cons.prems(2) turn T_Return False by simp_all
      ultimately show ?thesis by (auto simp: l_ends_def at_most_shutdown_def)
    qed
  qed
qed

lemma wait_startup_extends:
  assumes "list_all2 (\<lambda>c oth. \<forall>m s. room (m + c) s \<longrightarrow> room m (snd oth s) \<and> used s \<subseteq> used (snd oth s)) costs turns"
    and "room (length turns + sum_list costs) (lr_svc s)"
    and "wait_startup turns s = (allowed, turns', s')"
  shows "l_extends used [] s s' \<and> (\<exists>costs'. room (length turns' + sum_list costs') (lr_svc s') \<and>
    list_all2 (\<lambda>c oth. \<forall>m s. room (m + c) s \<longrightarrow> room m (snd oth s) \<and> used s \<subseteq> used (snd oth s)) costs' turns')"
  using assms
proof (induction costs turns arbitrary: s rule: list_all2_induct)
  case Nil
  then show ?case by (auto intro!: extend_intros exI [of _ "[]"])
next
  case (Cons c costs oth turns)
  show ?case
  proof (cases "l_startupAllowed (lr_flags s)")
    case True
    then have "turns' = oth # turns" "s' = s" using Cons.prems(2) by simp_all
    then show ?thesis using Cons.prems(1) Cons.hyps
      by (intro conjI exI [of _ "c # costs"]) (auto intro!: extend_intros)
  next
    case False
    have "room (length turns + sum_list costs + c) (lr_svc s)"
      using Cons.prems(1) by (rule room_less) simp
    then have oth: "room (length turns + sum_list costs) (lr_svc (interfere oth s))"
        "used (lr_svc s) \<subseteq> used (lr_svc (interfere oth s))"
      using Cons.hyps(1) by simp_all
    have "l_extends used [] s (interfere oth s)" using oth(2) by (intro extend_intros) simp_all
    then show ?thesis using Cons.IH [OF oth(1)] Cons.prems(2) False by (auto intro: l_extends_trans)
  qed
qed

text \<open>The whole thread: either the setup failed, or it reported ready and then announced its clients.\<close>

lemma listener_Worker_ends:
  assumes "list_all2 (\<lambda>c oth. \<forall>m s. room (m + c) s \<longrightarrow> room m (snd oth s) \<and> used s \<subseteq> used (snd oth s)) costs turns"
    and "room (length turns + sum_list costs) svc"
    and "listener_Worker k create e reuse_port cfg turns (listener_start listenAt svc) = (ended, r)"
  shows "(ended \<and> lr_created r = [] \<and> accepted (lr_calls r) = [] \<and> (\<exists>ec. lr_sent r = [ShutdownMessage ec])) \<or>
    (\<exists>extra. lr_sent r = StartupReadyMessage # announce (lr_created r) @ extra \<and> at_most_shutdown extra \<and>
      (extra \<noteq> [] \<longrightarrow> ended) \<and> map fst (lr_created r) = accepted (lr_calls r) \<and>
      distinct (map snd (lr_created r)) \<and> (\<forall>hid \<in> set (map snd (lr_created r)). hid \<le> HANDLER_ERROR))"
proof -
  obtain x s1 where op: "listener_open k e reuse_port listenAt (listener_start listenAt svc) = (x, s1)" by fastforce
  note s1 = listener_open_start [OF op]
  have none: "accepted (lr_calls s1) = []" using accepted_setup [OF s1(1)] by simp
  show ?thesis
  proof (cases x)
    case (Inl u)
    then have "ended" "r = s1" using assms(3) op by (simp_all add: listener_Worker_def)
    then show ?thesis using Inl none s1 by simp
  next
    case (Inr lSockFd)
    define s2 where "s2 = listener_send StartupReadyMessage s1"
    obtain allowed turns' s3 where wt: "wait_startup turns s2 = (allowed, turns', s3)" by (metis prod.collapse)
    from wait_startup_extends [OF assms(1) _ wt] assms(2) s1 obtain costs' where
      "l_extends used [] s2 s3" and room3: "room (length turns' + sum_list costs') (lr_svc s3)" and
      oth3: "list_all2 (\<lambda>c oth. \<forall>m s. room (m + c) s \<longrightarrow> room m (snd oth s) \<and> used s \<subseteq> used (snd oth s)) costs' turns'"
      by (auto simp: s2_def)
    moreover have "l_ends used ended s3 r"
    proof (cases allowed)
      case True
      then have "accept_loop k create (GetServiceIntervalMS cfg) lSockFd turns' s3 = (ended, r)"
        using assms(3) op Inr wt by (simp add: listener_Worker_def s2_def)
      from accept_loop_ends [OF oth3 room3 this] show ?thesis .
    next
      case False
      then have "r = s3" using assms(3) op Inr wt by (simp add: listener_Worker_def s2_def)
      then show ?thesis by (simp add: l_ends_same)
    qed
    ultimately obtain extra where ext: "l_extends used extra s2 r" "at_most_shutdown extra" "extra \<noteq> [] \<longrightarrow> ended"
      using l_ends_after unfolding l_ends_def by blast
    have s2: "lr_created s2 = []" "accepted (lr_calls s2) = []" "lr_sent s2 = [StartupReadyMessage]"
      using s1 none Inr by (simp_all add: s2_def)
    show ?thesis using ext s2 unfolding l_extends_def by auto
  qed
qed

end

text \<open>The program's service numbers its handlers with a counter.\<close>

lemma service_used_step:
  assumes "service_ok (Suc n) s"
  shows "service_ok n (svc_step k e cfg op s) \<and> handlerIdCounter s \<le> handlerIdCounter (svc_step k e cfg op s)"
proof (cases op)
  case (OpConnect target tv)
  obtain hid s' where run: "ConnectAndCreateHandler k e cfg target tv s = (hid, s')" by fastforce
  show ?thesis
    using ConnectAndCreateHandler_view [OF run service_ok_fresh [OF assms]] run OpConnect
      tcp_service.connect_new [OF assms run] service_ok_next(1) [OF assms]
    by (auto simp: svc_view_def)
next
  case (OpAccepted sock)
  obtain hid s' where run: "CreateHandlerFromSocket k cfg sock s = (hid, s')" by fastforce
  show ?thesis
    using CreateHandlerFromSocket_view [OF run service_ok_fresh [OF assms]] run OpAccepted
      tcp_service.create_new [OF assms run] service_ok_next(1) [OF assms]
    by (auto simp: svc_view_def)
next
  case (OpDispose hid)
  have "handlerIdCounter (DisposeHandler k hid s) = handlerIdCounter s"
    using DisposeHandler_view [of k hid s] by (cases "map_of (commHandlers s) hid") (auto simp: svc_view_def)
  then show ?thesis using OpDispose DisposeHandler_ok [OF service_ok_less [OF assms, of n]] by simp
next
  case (OpEvents evs)
  have "handlerIdCounter (dispatch_events evs s) = handlerIdCounter s"
    by (induction evs arbitrary: s)
      (simp_all add: dispatch_events_def dispatch_event_def split: option.splits)
  then show ?thesis using OpEvents dispatch_events_frame [of evs s n] service_ok_less [OF assms, of n] by simp
next
  case OpShutdown
  then show ?thesis using service_ok_less [OF assms, of n] by (simp add: OnShutdown_def service_ok_def)
qed

lemma service_used_run:
  "service_ok (m + length ops) s \<Longrightarrow> service_ok m (fold (svc_step k e cfg) ops s) \<and>
     handlerIdCounter s \<le> handlerIdCounter (fold (svc_step k e cfg) ops s)"
proof (induction ops arbitrary: s)
  case (Cons op ops)
  then have "service_ok (Suc (m + length ops)) s" by simp
  from service_used_step [OF this, of k e cfg op] Cons.IH [of "svc_step k e cfg op s"] show ?case by fastforce
qed simp

interpretation tcp_numbering: numbering_service GetHandler "CreateHandlerFromSocket k cfg"
    "ConnectAndCreateHandler k e cfg" "DisposeHandler k" service_ok "\<lambda>s. {..handlerIdCounter s}"
  for k e cfg
proof unfold_locales
  fix n s sock hid s'
  assume ok: "service_ok (Suc n) s" and run: "CreateHandlerFromSocket k cfg sock s = (hid, s')"
  from CreateHandlerFromSocket_view [OF run service_ok_fresh [OF ok]] service_ok_next(1) [OF ok]
  show "hid \<notin> {..handlerIdCounter s} \<and> insert hid {..handlerIdCounter s} \<subseteq> {..handlerIdCounter s'}"
    by (auto simp: svc_view_def)
qed

section \<open>Properties\<close>

text \<open>What the other threads do during a turn: to the flags, and to the service.\<close>

definition others_of :: "kernel \<Rightarrow> endian \<Rightarrow> config \<Rightarrow> (listener \<Rightarrow> listener) \<times> svc_op list \<Rightarrow> service others" where
  "others_of k e cfg = (\<lambda>(f, ops). (f, fold (svc_step k e cfg) ops))"

text \<open>
  C18.  What the listener tells the program is what happened.  With any kernel, and whatever the other
  threads do to the shared service, either the setup failed and the thread ended with one shutdown
  request, or it first reported ready and then announced one new client for each connection it
  accepted, in order, each under a handler of its own that is no error code; an error, if any, is
  reported once, at the end.
\<close>

theorem listener_announces_its_clients:
  assumes "length script + sum_list (map (length \<circ> snd) script) \<le> unat HANDLER_ERROR"
    and "listener_Worker k (CreateHandlerFromSocket ks cfg) e reuse_port cfg (map (others_of ks e cfg) script)
      (listener_start listenAt (TCPCommService ks cfg)) = (ended, r)"
  shows "(ended \<and> lr_created r = [] \<and> accepted (lr_calls r) = [] \<and> (\<exists>ec. lr_sent r = [ShutdownMessage ec])) \<or>
    (\<exists>extra. lr_sent r = StartupReadyMessage # announce (lr_created r) @ extra \<and> at_most_shutdown extra \<and>
      (extra \<noteq> [] \<longrightarrow> ended) \<and> map fst (lr_created r) = accepted (lr_calls r) \<and>
      distinct (map snd (lr_created r)) \<and> (\<forall>hid \<in> set (map snd (lr_created r)). hid \<le> HANDLER_ERROR))"
proof (rule tcp_numbering.listener_Worker_ends [OF _ _ assms(2)])
  show "list_all2 (\<lambda>c oth. \<forall>m s. service_ok (m + c) s \<longrightarrow> service_ok m (snd oth s) \<and>
      {..handlerIdCounter s} \<subseteq> {..handlerIdCounter (snd oth s)})
      (map (length \<circ> snd) script) (map (others_of ks e cfg) script)"
    using service_used_run by (auto simp: list_all2_conv_all_nth others_of_def split_beta)
  show "service_ok (length (map (others_of ks e cfg) script) + sum_list (map (length \<circ> snd) script))
      (TCPCommService ks cfg)"
    using assms(1) by (intro service_ok_new) simp
qed

text \<open>A kernel that lets every second poll report a client, on sockets 10 and up.\<close>

definition accept_kernel :: kernel where
  "accept_kernel tr c =
     (case c of SysSocket v6 \<Rightarrow> (3, 0)
      | SysPoll lSockFd interval \<Rightarrow> (if even (length tr) then 1 else 0, 0)
      | SysAccept lSockFd \<Rightarrow> (10 + int (length tr), 0)
      | _ \<Rightarrow> (0, 0))"

definition demo_script :: "((listener \<Rightarrow> listener) \<times> svc_op list) list" where
  "demo_script = [(listener_OnMessage, []), (\<lambda>l. l, []), (listener_OnShutdown, [])]"

definition demo_listener :: "bool \<times> service listener_run" where
  "demo_listener = listener_Worker accept_kernel (CreateHandlerFromSocket demo_kernel sample_config) LittleEndian True
     sample_config (map (others_of demo_kernel LittleEndian sample_config) demo_script)
     (listener_start (IPEndpoint (IPAddress_raw [127, 0, 0, 1]) 1080) (TCPCommService demo_kernel sample_config))"



lemmas listener_run_defs = listener_Worker_def listener_open_def listener_configure_def lcheck_def lsys_def bind_step_def Let_def
  listener_HandleError_def accept_turn_def listener_close_def interfere_def listener_send_def
  listener_start_def TCPServerListener_def listener_OnMessage_def listener_OnShutdown_def


lemma demo_listener_run:
  "\<exists>r. demo_listener = (True, r) \<and> closed (lr_calls r) = [3] \<and> lr_sent r = [StartupReadyMessage,
     JobCompleteMessage (JR_NEW_CLIENT 1), JobCompleteMessage (JR_NEW_CLIENT 2)]"
  by (simp add: demo_listener_def demo_script_def others_of_def listener_run_defs accept_kernel_def
      IPAddress_raw_def IPV4_ADDR_LEN_def IPV6_ADDR_LEN_def TCPCommService_def CreateHandlerFromSocket_def
      SetSocketNonBlocking_def SetSocketDefaultTimeouts_def TuneSocketBaseParams_def SetSocketCustomTimeouts_def
      sys_def demo_kernel_def HANDLER_ERROR_def HandleError_def)

theorem listener_announces_its_clients_witness:
  "\<exists>r. demo_listener = (True, r) \<and> map snd (lr_created r) = [1, 2] \<and>
     lr_sent r = StartupReadyMessage # announce (lr_created r) \<and>
     map fst (lr_created r) = accepted (lr_calls r) \<and> distinct (map snd (lr_created r))"
proof -
  obtain r where r: "demo_listener = (True, r)" and sent: "lr_sent r = [StartupReadyMessage,
     JobCompleteMessage (JR_NEW_CLIENT 1), JobCompleteMessage (JR_NEW_CLIENT 2)]"
    using demo_listener_run by blast
  have "length demo_script + sum_list (map (length \<circ> snd) demo_script) \<le> unat HANDLER_ERROR"
    by (simp add: demo_script_def HANDLER_ERROR_def)
  from listener_announces_its_clients [OF this r [unfolded demo_listener_def]] sent
  obtain extra where "[JobCompleteMessage (JR_NEW_CLIENT 1), JobCompleteMessage (JR_NEW_CLIENT 2)] =
      announce (lr_created r) @ extra" "at_most_shutdown extra"
    "map fst (lr_created r) = accepted (lr_calls r)" "distinct (map snd (lr_created r))" by auto
  moreover from this(1,2) have "extra = []"
    by (cases extra) (auto simp: at_most_shutdown_def append_eq_Cons_conv)
  moreover from calculation(1) \<open>extra = []\<close> have "map snd (lr_created r) = [1, 2]" by (auto simp: announce_def)
  ultimately show ?thesis using r sent by (intro exI [of _ r]) simp
qed

text \<open>Without permission the wait does not end, and changes only what others change.\<close>

lemma wait_startup_blocked:
  assumes "\<forall>oth \<in> set turns. \<forall>l. \<not> l_startupAllowed l \<longrightarrow> \<not> l_startupAllowed (fst oth l)"
    and "\<not> l_startupAllowed (lr_flags s)" and "wait_startup turns s = (allowed, turns', s')"
  shows "\<not> allowed \<and> lr_calls s' = lr_calls s \<and> lr_created s' = lr_created s \<and> lr_sent s' = lr_sent s"
  using assms
proof (induction turns arbitrary: s)
  case (Cons oth turns)
  have "\<not> l_startupAllowed (lr_flags (interfere oth s))" using Cons.prems(1,2) by simp
  with Cons.IH [OF _ this] Cons.prems show ?case by simp
qed simp

text \<open>
  C19.  No client before the permission.  As long as nobody delivers the start-up permission, the
  thread neither polls nor accepts: whatever the kernel does and whoever else runs, its calls are
  those of the setup, no handler is created, and all it has said is that it is ready or that it failed.
\<close>

theorem listener_waits_for_permission:
  assumes "\<forall>oth \<in> set turns. \<forall>l. \<not> l_startupAllowed l \<longrightarrow> \<not> l_startupAllowed (fst oth l)"
    and "listener_Worker k create e reuse_port cfg turns (listener_start listenAt svc) = (ended, r)"
  shows "list_all (is_setup \<circ> fst) (lr_calls r) \<and> lr_created r = [] \<and>
    (lr_sent r = [StartupReadyMessage] \<and> \<not> ended \<or> (\<exists>ec. lr_sent r = [ShutdownMessage ec]) \<and> ended)"
proof -
  obtain x s1 where op: "listener_open k e reuse_port listenAt (listener_start listenAt svc) = (x, s1)" by fastforce
  note s1 = listener_open_start [OF op]
  show ?thesis
  proof (cases x)
    case (Inl u)
    then have "ended" "r = s1" using assms(2) op by (simp_all add: listener_Worker_def)
    then show ?thesis using s1 Inl by simp
  next
    case (Inr lSockFd)
    obtain allowed turns' s2 where wt: "wait_startup turns (listener_send StartupReadyMessage s1) = (allowed, turns', s2)"
      by (metis prod.collapse)
    from wait_startup_blocked [OF assms(1) _ wt] s1(4)
    have blocked: "\<not> allowed" "lr_calls s2 = lr_calls s1" "lr_created s2 = []" "lr_sent s2 = [StartupReadyMessage]"
      using s1 Inr by simp_all
    then have "r = s2" "\<not> ended" using assms(2) op Inr wt by (simp_all add: listener_Worker_def)
    then show ?thesis using blocked s1(1) by simp
  qed
qed

theorem listener_waits_for_permission_witness:
  "\<exists>r. listener_Worker accept_kernel (CreateHandlerFromSocket demo_kernel sample_config) LittleEndian True
     sample_config [(listener_OnShutdown, \<lambda>s. s)]
     (listener_start (IPEndpoint (IPAddress_raw [127, 0, 0, 1]) 1080) (TCPCommService demo_kernel sample_config)) =
       (False, r) \<and> list_all (is_setup \<circ> fst) (lr_calls r) \<and> lr_created r = []"
proof -
  let ?run = "listener_Worker accept_kernel (CreateHandlerFromSocket demo_kernel sample_config) LittleEndian True
     sample_config [(listener_OnShutdown, \<lambda>s. s)]
     (listener_start (IPEndpoint (IPAddress_raw [127, 0, 0, 1]) 1080) (TCPCommService demo_kernel sample_config))"
  have open3: "\<exists>s'. listener_open accept_kernel LittleEndian True (IPEndpoint (IPAddress_raw [127, 0, 0, 1]) 1080) s = (Inr 3, s')"
    for s :: "service listener_run"
    by (simp add: listener_open_def listener_configure_def lcheck_def lsys_def bind_step_def accept_kernel_def IPAddress_raw_def
        IPV4_ADDR_LEN_def IPV6_ADDR_LEN_def)
  let ?s0 = "listener_start (IPEndpoint (IPAddress_raw [127, 0, 0, 1]) 1080) (TCPCommService demo_kernel sample_config)"
  obtain s1 where op: "listener_open accept_kernel LittleEndian True (IPEndpoint (IPAddress_raw [127, 0, 0, 1]) 1080) ?s0 =
      (Inr 3, s1)" using open3 by blast
  have "\<exists>r. ?run = (False, r)"
    using op listener_open_start(4) [OF op] by (simp add: listener_Worker_def listener_OnShutdown_def)
  then obtain r where run: "?run = (False, r)" ..
  from listener_waits_for_permission [OF _ run] run show ?thesis by (simp add: listener_OnShutdown_def)
qed

text \<open>The end of the loop: an error was reported, or the listening socket was closed.\<close>

lemma accept_turn_frame:
  assumes "accept_turn k create interval lSockFd s = (t, s')"
  shows "lr_flags s' = lr_flags s" and "closed (lr_calls s') = closed (lr_calls s)"
    and "\<exists>cs. lr_calls s' = lr_calls s @ cs"
    and "t = T_Return \<Longrightarrow> \<exists>ec. ShutdownMessage ec \<in> set (lr_sent s')"
proof -
  obtain lrv error s1 where po: "lsys k (SysPoll lSockFd interval) s = ((lrv, error), s1)" by (metis prod.collapse)
  obtain cSockFd err s2 where ac: "lsys k (SysAccept lSockFd) s1 = ((cSockFd, err), s2)" by (metis prod.collapse)
  note fr = lsys_frame [OF po] lsys_frame [OF ac]
  show "lr_flags s' = lr_flags s" "closed (lr_calls s') = closed (lr_calls s)"
    "\<exists>cs. lr_calls s' = lr_calls s @ cs" "t = T_Return \<Longrightarrow> \<exists>ec. ShutdownMessage ec \<in> set (lr_sent s')"
    using assms po ac fr
    by (auto simp: accept_turn_def listener_HandleError_def Let_def split: if_splits prod.splits)
qed

lemma listener_close_frame:
  "closed (lr_calls (listener_close k lSockFd s)) = closed (lr_calls s) @ [lSockFd]"
  "\<exists>cs. lr_calls (listener_close k lSockFd s) = lr_calls s @ cs"
proof -
  obtain r err s1 where cl: "lsys k (SysClose lSockFd) s = ((r, err), s1)" by (metis prod.collapse)
  then show "closed (lr_calls (listener_close k lSockFd s)) = closed (lr_calls s) @ [lSockFd]"
    "\<exists>cs. lr_calls (listener_close k lSockFd s) = lr_calls s @ cs"
    using lsys_frame [OF cl] by (auto simp: listener_close_def listener_HandleError_def)
qed

text \<open>Nobody takes a flag back.\<close>

definition flags_stay :: "'s others list \<Rightarrow> bool" where
  "flags_stay turns \<longleftrightarrow> (\<forall>oth \<in> set turns. \<forall>l.
     (l_startupAllowed l \<longrightarrow> l_startupAllowed (fst oth l)) \<and>
     (l_shutdownPending l \<longrightarrow> l_shutdownPending (fst oth l)))"

lemma flags_set: "l_shutdownPending (listener_OnShutdown l)" "l_startupAllowed (listener_OnMessage l)"
  by (simp_all add: listener_OnShutdown_def listener_OnMessage_def)

lemma accept_loop_stops:
  assumes "flags_stay turns" and "l_shutdownPending (lr_flags s) \<or> (\<exists>h. (listener_OnShutdown, h) \<in> set turns)"
    and "accept_loop k create interval lSockFd turns s = (ended, s')"
  shows "ended \<and> (\<exists>cs. lr_calls s' = lr_calls s @ cs) \<and>
    ((\<exists>ec. ShutdownMessage ec \<in> set (lr_sent s')) \<or> closed (lr_calls s') = closed (lr_calls s) @ [lSockFd])"
  using assms
proof (induction turns arbitrary: s)
  case Nil
  then show ?case by (auto simp: listener_close_frame)
next
  case (Cons oth turns)
  show ?case
  proof (cases "l_shutdownPending (lr_flags s)")
    case True
    then show ?thesis using Cons.prems(3) by (auto simp: listener_close_frame)
  next
    case False
    obtain t s1 where turn: "accept_turn k create interval lSockFd s = (t, s1)" by fastforce
    note fr = accept_turn_frame [OF turn]
    show ?thesis
    proof (cases t)
      case T_Continue
      have "flags_stay turns" using Cons.prems(1) by (simp add: flags_stay_def)
      moreover have "l_shutdownPending (lr_flags (interfere oth s1)) \<or> (\<exists>h. (listener_OnShutdown, h) \<in> set turns)"
        using Cons.prems(2) False by (auto simp: flags_set)
      moreover have "accept_loop k create interval lSockFd turns (interfere oth s1) = (ended, s')"
        using Cons.prems(3) False turn T_Continue by simp
      ultimately show ?thesis using Cons.IH [of "interfere oth s1"] fr by auto
    next
      case T_Break
      then show ?thesis using Cons.prems(3) False turn fr listener_close_frame [of k lSockFd s1] by auto
    next
      case T_Return
      then show ?thesis using Cons.prems(3) False turn fr by auto
    qed
  qed
qed

lemma wait_startup_allowed:
  assumes "flags_stay turns" and "l_startupAllowed (lr_flags s) \<or> (\<exists>g. (listener_OnMessage, g) \<in> set turns)"
    and "l_shutdownPending (lr_flags s) \<or> (\<exists>h. (listener_OnShutdown, h) \<in> set turns)"
    and "wait_startup turns s = (allowed, turns', s')"
  shows "allowed \<and> flags_stay turns' \<and> lr_calls s' = lr_calls s \<and>
    (l_shutdownPending (lr_flags s') \<or> (\<exists>h. (listener_OnShutdown, h) \<in> set turns'))"
  using assms
proof (induction turns arbitrary: s)
  case Nil
  then show ?case by simp
next
  case (Cons oth turns)
  show ?case
  proof (cases "l_startupAllowed (lr_flags s)")
    case True
    then have "allowed" "turns' = oth # turns" "s' = s" using Cons.prems(4) by simp_all
    then show ?thesis using Cons.prems(1,3) by simp
  next
    case False
    have "flags_stay turns" using Cons.prems(1) by (simp add: flags_stay_def)
    moreover have "l_startupAllowed (lr_flags (interfere oth s)) \<or> (\<exists>g. (listener_OnMessage, g) \<in> set turns)"
      using Cons.prems(2) False by (auto simp: flags_set)
    moreover have "l_shutdownPending (lr_flags (interfere oth s)) \<or> (\<exists>h. (listener_OnShutdown, h) \<in> set turns)"
      using Cons.prems(1,3) by (auto simp: flags_set flags_stay_def)
    ultimately show ?thesis using Cons.IH [of "interfere oth s"] Cons.prems(4) False by simp
  qed
qed

text \<open>
  C20.  The listener can be stopped.  Once the permission and the shutdown request have both been
  delivered, in whatever order and with anything in between that takes neither back, the thread has
  ended, and it has reported an error or closed its listening socket, exactly once and nothing else.
\<close>

theorem listener_stops:
  assumes "flags_stay turns" and "(listener_OnMessage, g) \<in> set turns" and "(listener_OnShutdown, h) \<in> set turns"
    and "listener_Worker k create e reuse_port cfg turns (listener_start listenAt svc) = (ended, r)"
  shows "ended \<and> ((\<exists>ec. ShutdownMessage ec \<in> set (lr_sent r)) \<or>
    (\<exists>lSockFd cs. lr_calls r = (SysSocket (isV6 (address listenAt)), lSockFd) # cs \<and> closed (lr_calls r) = [lSockFd]))"
proof -
  obtain x s1 where op: "listener_open k e reuse_port listenAt (listener_start listenAt svc) = (x, s1)" by fastforce
  note s1 = listener_open_start [OF op]
  show ?thesis
  proof (cases x)
    case (Inl u)
    then have "ended" "r = s1" using assms(4) op by (simp_all add: listener_Worker_def)
    then show ?thesis using s1(5) Inl by auto
  next
    case (Inr lSockFd)
    obtain cs where first: "lr_calls s1 = (SysSocket (isV6 (address listenAt)), lSockFd) # cs"
      using listener_open_socket op Inr by (fastforce simp: listener_start_def)
    obtain allowed turns' s2 where wt: "wait_startup turns (listener_send StartupReadyMessage s1) = (allowed, turns', s2)"
      by (metis prod.collapse)
    from wait_startup_allowed [OF assms(1) _ _ wt] assms(2,3)
    have go: "allowed" "flags_stay turns'" "lr_calls s2 = lr_calls s1"
        "l_shutdownPending (lr_flags s2) \<or> (\<exists>h. (listener_OnShutdown, h) \<in> set turns')" by auto
    then have "accept_loop k create (GetServiceIntervalMS cfg) lSockFd turns' s2 = (ended, r)"
      using assms(4) op Inr wt by (simp add: listener_Worker_def)
    from accept_loop_stops [OF go(2,4) this] show ?thesis
      using first go(3) accepted_setup [OF s1(1)] by auto
  qed
qed

theorem listener_stops_witness:
  "fst demo_listener \<and> ((\<exists>ec. ShutdownMessage ec \<in> set (lr_sent (snd demo_listener))) \<or>
    (\<exists>lSockFd cs. lr_calls (snd demo_listener) = (SysSocket False, lSockFd) # cs \<and>
      closed (lr_calls (snd demo_listener)) = [lSockFd]))"
proof -
  let ?turns = "map (others_of demo_kernel LittleEndian sample_config) demo_script"
  have "flags_stay ?turns" "(listener_OnMessage, \<lambda>s. s) \<in> set ?turns" "(listener_OnShutdown, \<lambda>s. s) \<in> set ?turns"
    by (auto simp: flags_stay_def demo_script_def others_of_def listener_OnMessage_def listener_OnShutdown_def id_def)
  from listener_stops [OF this prod.collapse [symmetric], of accept_kernel
      "CreateHandlerFromSocket demo_kernel sample_config" LittleEndian True sample_config
      "IPEndpoint (IPAddress_raw [127, 0, 0, 1]) 1080" "TCPCommService demo_kernel sample_config",
      folded demo_listener_def]
  show ?thesis by (simp add: IPAddress_raw_def IPV6_ADDR_LEN_def)
qed

text \<open>
  A listener that fails in its setup leaves the socket open: nothing it calls is \<open>close\<close>.
\<close>

lemma listener_setup_failure_leaks:
  assumes "listener_open k e reuse_port listenAt (listener_start listenAt svc) = (Inl (), s1)"
  shows "listener_Worker k create e reuse_port cfg turns (listener_start listenAt svc) = (True, s1) \<and>
    closed (lr_calls s1) = []"
  using assms listener_open_start(1) [OF assms] by (simp add: listener_Worker_def accepted_setup)

end
