(* ===== verification/Sox_System.thy ===== *)
theory Sox_System
  imports Lifecycle_Handlers Dispatcher_Shutdown Server_Listener
begin

text \<open>
  The parts of the program on one bus, as \<open>src/Src/Main.cpp\<close> puts them together: the two handlers of
  the main thread, the dispatcher and the listeners are subscribers of the message broker.  The
  subscribers are told apart by their addresses.
\<close>

section \<open>The subscribers\<close>

record layout =
  shutdown_at :: ptr
  startup_at :: ptr
  dispatcher_at :: ptr
  listeners_at :: "ptr list"

definition layout_ok :: "layout \<Rightarrow> bool" where
  "layout_ok L \<longleftrightarrow> distinct (shutdown_at L # startup_at L # dispatcher_at L # listeners_at L)"

record 'e program =
  shutdownHandler :: shutdown_handler
  startupHandler :: startup_handler
  jobDispatcher :: "'e dispatcher"
  serverListeners :: "(ptr \<times> listener) list"

text \<open>A whole call of \<open>JobDispatcher::OnMessage\<close> that no other thread disturbs.\<close>

primrec assign_jobs :: "int \<Rightarrow> job list \<Rightarrow> 'e dispatcher \<Rightarrow> 'e dispatcher" where
  "assign_jobs err [] d = d"
| "assign_jobs err (j # js) d =
     (let (ok, d1) = assign_job err j d in if \<not> ok then d1 else assign_jobs err js d1)"

definition OnMessageInternal :: "'e factory \<Rightarrow> int \<Rightarrow> sender \<Rightarrow> job_result \<Rightarrow> 'e dispatcher \<Rightarrow> 'e dispatcher" where
  "OnMessageInternal fac err src r d =
     (if d_shutdownPending d then d
      else
      let d1 = move_finished src d;
          (jobs, e) = fac r (d_env d1)
      in assign_jobs err jobs (d1\<lparr>d_env := e\<rparr>))"

definition dispatcher_OnMessage :: "'e factory \<Rightarrow> int \<Rightarrow> sender \<Rightarrow> job_result \<Rightarrow> 'e dispatcher \<Rightarrow> 'e dispatcher" where
  "dispatcher_OnMessage fac err src r d =
     (let d1 = OnMessageInternal fac err src r (d\<lparr>msgProcCount := msgProcCount d + 1\<rparr>)
      in d1\<lparr>msgProcCount := msgProcCount d1 - 1\<rparr>)"

text \<open>
  The interface the broker sees.  \<open>who\<close> tells which worker, if any, is at an address.  The dispatcher
  reports its errors on the bus.
\<close>

definition upd_listener :: "ptr \<Rightarrow> (listener \<Rightarrow> listener) \<Rightarrow> 'e program \<Rightarrow> 'e program" where
  "upd_listener p f s =
     s\<lparr>serverListeners := map (\<lambda>(q, l). (q, if q = p then f l else l)) (serverListeners s)\<rparr>"

definition program_ready :: "layout \<Rightarrow> ptr \<Rightarrow> MsgType \<Rightarrow> bool" where
  "program_ready L p ty =
     (if p = shutdown_at L then shutdown_ReadyForMessage ty
      else if p = startup_at L then startup_ReadyForMessage ty
      else if p = dispatcher_at L then dispatcher_ReadyForMessage ty
      else if p \<in> set (listeners_at L) then listener_ReadyForMessage ty
      else False)"

definition program_acts :: "layout \<Rightarrow> 'e factory \<Rightarrow> int \<Rightarrow> (ptr \<Rightarrow> sender) \<Rightarrow> ptr \<Rightarrow> ptr \<Rightarrow> message \<Rightarrow> 'e program \<Rightarrow>
    'e program act list" where
  "program_acts L fac err who p src m s =
     (if p = shutdown_at L then [Local (\<lambda>s. s\<lparr>shutdownHandler := shutdown_OnMessage m (shutdownHandler s)\<rparr>)]
      else if p = startup_at L then [Local (\<lambda>s. s\<lparr>startupHandler := startup_OnMessage src m (startupHandler s)\<rparr>)]
      else if p = dispatcher_at L
      then (case m of
              JobCompleteMessage r \<Rightarrow>
                (let d = jobDispatcher s; d1 = dispatcher_OnMessage fac err (who src) r d
                 in map (\<lambda>ec. Post p (ShutdownMessage ec)) (drop (length (d_sent d)) (d_sent d1)) @
                    [Local (\<lambda>s. s\<lparr>jobDispatcher := d1\<rparr>)])
            | _ \<Rightarrow> [])
      else [Local (upd_listener p listener_OnMessage)])"

definition program_subscribers :: "layout \<Rightarrow> 'e factory \<Rightarrow> int \<Rightarrow> (ptr \<Rightarrow> sender) \<Rightarrow> 'e program subscribers_iface" where
  "program_subscribers L fac err who =
     \<lparr>ReadyForMessage = program_ready L, OnMessage = program_acts L fac err who\<rparr>"

text \<open>The order of the registrations in \<open>main\<close>.\<close>

definition program_bus :: "layout \<Rightarrow> broker" where
  "program_bus L = fold AddSubscriber (shutdown_at L # startup_at L # dispatcher_at L # listeners_at L) MessageBroker"

section \<open>The bus ends\<close>

text \<open>Only a completed job makes a subscriber send, and then only shutdown requests.\<close>

definition message_rank :: "message \<Rightarrow> nat" where
  "message_rank m = (case m of JobCompleteMessage r \<Rightarrow> 1 | _ \<Rightarrow> 0)"

interpretation program_bus: ranked_subscribers "program_subscribers L fac err who" message_rank
  for L fac err who
proof unfold_locales
  fix p m src src' m' s
  assume "Post src' m' \<in> set (OnMessage (program_subscribers L fac err who) p src m s)"
  then show "message_rank m' < message_rank m"
    by (auto simp: program_subscribers_def program_acts_def message_rank_def Let_def split: if_splits message.splits)
qed

section \<open>What a message does\<close>

text \<open>The specification: each kind of message is a direct call of the components it is meant for.\<close>

definition react :: "'e factory \<Rightarrow> int \<Rightarrow> (ptr \<Rightarrow> sender) \<Rightarrow> ptr \<Rightarrow> message \<Rightarrow> 'e program \<Rightarrow> 'e program" where
  "react fac err who src m s =
     (case m of
        ShutdownMessage ec \<Rightarrow> s\<lparr>shutdownHandler := shutdown_OnMessage m (shutdownHandler s),
          startupHandler := startup_OnMessage src m (startupHandler s)\<rparr>
      | JobCompleteMessage r \<Rightarrow> s\<lparr>jobDispatcher := dispatcher_OnMessage fac err (who src) r (jobDispatcher s)\<rparr>
      | StartupReadyMessage \<Rightarrow> s\<lparr>startupHandler := startup_OnMessage src m (startupHandler s)\<rparr>
      | StartupContinueMessage \<Rightarrow> s\<lparr>serverListeners := map (\<lambda>(p, l). (p, listener_OnMessage l)) (serverListeners s)\<rparr>)"

lemma assign_job_sent: "d_sent (snd (assign_job err j d)) = d_sent d" "fst (assign_job err j d)"
  by (simp_all add: assign_job_def CreateWorkerInstance_eq upd_worker_def)

lemma assign_jobs_sent: "d_sent (assign_jobs err js d) = d_sent d"
proof (induction js arbitrary: d)
  case (Cons j js)
  then show ?case using assign_job_sent [of err j d] by (simp add: Let_def split_beta)
qed simp

lemma dispatcher_OnMessage_sent [simp]: "d_sent (dispatcher_OnMessage fac err src r d) = d_sent d"
  by (simp add: dispatcher_OnMessage_def OnMessageInternal_def assign_jobs_sent move_finished_def Let_def
      split: prod.splits sender.splits)

lemma ready_defs: "shutdown_ReadyForMessage ty \<longleftrightarrow> ty = MSG_SHUTDOWN"
  "startup_ReadyForMessage ty \<longleftrightarrow> ty = MSG_STARTUP_READY \<or> ty = MSG_SHUTDOWN"
  "dispatcher_ReadyForMessage ty \<longleftrightarrow> ty = MSG_JOB_COMPLETE" "listener_ReadyForMessage ty \<longleftrightarrow> ty = MSG_STARTUP_CONTINUE"
  by (simp_all add: shutdown_ReadyForMessage_def startup_ReadyForMessage_def dispatcher_ReadyForMessage_def
      listener_ReadyForMessage_def)

text \<open>What one subscriber does, ready or not.\<close>

definition one_reacts :: "layout \<Rightarrow> 'e factory \<Rightarrow> int \<Rightarrow> (ptr \<Rightarrow> sender) \<Rightarrow> ptr \<Rightarrow> message \<Rightarrow> ptr \<Rightarrow> 'e program \<Rightarrow> 'e program" where
  "one_reacts L fac err who src m p s =
     (if \<not> program_ready L p (msgType m) then s
      else if p = shutdown_at L then s\<lparr>shutdownHandler := shutdown_OnMessage m (shutdownHandler s)\<rparr>
      else if p = startup_at L then s\<lparr>startupHandler := startup_OnMessage src m (startupHandler s)\<rparr>
      else if p = dispatcher_at L
      then (case m of JobCompleteMessage r \<Rightarrow> s\<lparr>jobDispatcher := dispatcher_OnMessage fac err (who src) r (jobDispatcher s)\<rparr>
            | _ \<Rightarrow> s)
      else upd_listener p listener_OnMessage s)"

lemma acts_react:
  "program_ready L p (msgType m) \<Longrightarrow>
     run_acts post (program_acts L fac err who p src m s) (b, s) = Some (b, one_reacts L fac err who src m p s)"
  by (cases m) (simp_all add: program_acts_def one_reacts_def Let_def)

lemma notify_all_react:
  "notify_all post (program_subscribers L fac err who) src m ps (b, s) =
     Some (b, fold (one_reacts L fac err who src m) ps s)"
proof (induction ps arbitrary: s)
  case (Cons p ps)
  then show ?case
  proof (cases "program_ready L p (msgType m)")
    case True
    then show ?thesis using Cons by (simp add: program_subscribers_def acts_react)
  next
    case False
    then show ?thesis using Cons by (simp add: program_subscribers_def one_reacts_def)
  qed
qed simp

lemma fold_one_place:
  assumes "\<And>p s. g (h p s) = (if p = a then f (g s) else g s)"
  shows "distinct ps \<Longrightarrow> g (fold h ps s) = (if a \<in> set ps then f (g s) else g s)"
  by (induction ps arbitrary: s) (auto simp: assms)

text \<open>The reactions by component.\<close>

definition shutdown_reacts :: "message \<Rightarrow> shutdown_handler \<Rightarrow> shutdown_handler" where
  "shutdown_reacts m h = (if msgType m = MSG_SHUTDOWN then shutdown_OnMessage m h else h)"

definition startup_reacts :: "ptr \<Rightarrow> message \<Rightarrow> startup_handler \<Rightarrow> startup_handler" where
  "startup_reacts src m h =
     (if msgType m = MSG_STARTUP_READY \<or> msgType m = MSG_SHUTDOWN then startup_OnMessage src m h else h)"

definition dispatcher_reacts :: "'e factory \<Rightarrow> int \<Rightarrow> sender \<Rightarrow> message \<Rightarrow> 'e dispatcher \<Rightarrow> 'e dispatcher" where
  "dispatcher_reacts fac err src m d =
     (case m of JobCompleteMessage r \<Rightarrow> dispatcher_OnMessage fac err src r d | _ \<Rightarrow> d)"

definition listener_reacts :: "message \<Rightarrow> listener \<Rightarrow> listener" where
  "listener_reacts m l = (if msgType m = MSG_STARTUP_CONTINUE then listener_OnMessage l else l)"

lemma react_eq:
  "react fac err who src m s = \<lparr>shutdownHandler = shutdown_reacts m (shutdownHandler s),
     startupHandler = startup_reacts src m (startupHandler s),
     jobDispatcher = dispatcher_reacts fac err (who src) m (jobDispatcher s),
     serverListeners = map (\<lambda>(p, l). (p, listener_reacts m l)) (serverListeners s)\<rparr>"
  by (cases m) (simp_all add: react_def shutdown_reacts_def startup_reacts_def dispatcher_reacts_def listener_reacts_def)

lemma one_reacts_fields:
  assumes "layout_ok L"
  shows "shutdownHandler (one_reacts L fac err who src m p s) =
      (if p = shutdown_at L then shutdown_reacts m (shutdownHandler s) else shutdownHandler s)" (is ?sh)
    and "startupHandler (one_reacts L fac err who src m p s) =
      (if p = startup_at L then startup_reacts src m (startupHandler s) else startupHandler s)" (is ?st)
    and "jobDispatcher (one_reacts L fac err who src m p s) =
      (if p = dispatcher_at L then dispatcher_reacts fac err (who src) m (jobDispatcher s) else jobDispatcher s)" (is ?di)
    and "serverListeners (one_reacts L fac err who src m p s) =
      map (\<lambda>(q, l). (q, if q = p \<and> p \<in> set (listeners_at L) then listener_reacts m l else l)) (serverListeners s)" (is ?li)
proof -
  have "shutdown_at L \<noteq> startup_at L" "shutdown_at L \<noteq> dispatcher_at L" "startup_at L \<noteq> dispatcher_at L"
    "shutdown_at L \<notin> set (listeners_at L)" "startup_at L \<notin> set (listeners_at L)" "dispatcher_at L \<notin> set (listeners_at L)"
    using assms by (auto simp: layout_ok_def)
  note places = this
  note defs = one_reacts_def program_ready_def ready_defs upd_listener_def
  show ?sh using places by (cases m) (simp_all add: defs shutdown_reacts_def)
  show ?st using places by (cases m) (simp_all add: defs startup_reacts_def)
  show ?di using places by (cases m) (simp_all add: defs dispatcher_reacts_def)
  have same: "map (\<lambda>(q, l). (q, l)) xs = xs" for xs :: "(ptr \<times> listener) list" by (induction xs) auto
  show ?li
  proof (cases "p \<in> set (listeners_at L) \<and> msgType m = MSG_STARTUP_CONTINUE")
    case True
    then have "p \<noteq> shutdown_at L" "p \<noteq> startup_at L" "p \<noteq> dispatcher_at L" using places by auto
    then show ?thesis using True by (auto simp: defs listener_reacts_def)
  next
    case False
    then have "serverListeners (one_reacts L fac err who src m p s) = serverListeners s"
      by (cases m) (simp_all add: defs)
    moreover have "(if q = p \<and> p \<in> set (listeners_at L) then listener_reacts m l else l) = l" for q l
      using False by (simp add: listener_reacts_def)
    ultimately show ?thesis by (simp add: same)
  qed
qed

lemma fold_listeners:
  assumes "layout_ok L" and "distinct ps"
  shows "serverListeners (fold (one_reacts L fac err who src m) ps s) =
    map (\<lambda>(q, l). (q, if q \<in> set ps \<inter> set (listeners_at L) then listener_reacts m l else l)) (serverListeners s)"
  using assms(2)
proof (induction ps arbitrary: s)
  case (Cons p ps)
  then show ?case by (auto simp: one_reacts_fields(4) [OF assms(1)])
qed (simp add: case_prod_eta)

lemma messages_react:
  assumes "layout_ok L" and "map fst (serverListeners s) = listeners_at L"
  shows "SendMessage 2 (program_subscribers L fac err who) src m (program_bus L, s) =
    Some (program_bus L, react fac err who src m s)"
proof -
  let ?ps = "sorted_list_of_set (set (shutdown_at L # startup_at L # dispatcher_at L # listeners_at L))"
  let ?t = "fold (one_reacts L fac err who src m) ?ps s"
  have ps: "distinct ?ps" "set ?ps = set (shutdown_at L # startup_at L # dispatcher_at L # listeners_at L)"
    by (simp_all only: distinct_sorted_list_of_set set_sorted_list_of_set finite_set)
  have subs: "IS_Get (curSubs (program_bus L)) = ?ps"
    unfolding program_bus_def subscribers_of_registrations ..
  have run: "SendMessage 2 (program_subscribers L fac err who) src m (program_bus L, s) = Some (program_bus L, ?t)"
    unfolding numeral_2_eq_2 SendMessage.simps(2) fst_conv subs by (rule notify_all_react)
  note fields = one_reacts_fields [OF assms(1)]
  have "shutdownHandler ?t = shutdown_reacts m (shutdownHandler s)"
    using fold_one_place [where g = shutdownHandler and h = "one_reacts L fac err who src m", OF fields(1) ps(1)] ps(2) by simp
  moreover have "startupHandler ?t = startup_reacts src m (startupHandler s)"
    using fold_one_place [where g = startupHandler and h = "one_reacts L fac err who src m", OF fields(2) ps(1)] ps(2) by simp
  moreover have "jobDispatcher ?t = dispatcher_reacts fac err (who src) m (jobDispatcher s)"
    using fold_one_place [where g = jobDispatcher and h = "one_reacts L fac err who src m", OF fields(3) ps(1)] ps(2) by simp
  moreover have "serverListeners ?t = map (\<lambda>(p, l). (p, listener_reacts m l)) (serverListeners s)"
    unfolding fold_listeners [OF assms(1) ps(1)] ps(2)
  proof (intro map_cong refl)
    fix x assume "x \<in> set (serverListeners s)"
    then have "fst x \<in> set (listeners_at L)" using assms(2) by (metis image_eqI set_map)
    then show "(case x of (q, l) \<Rightarrow> (q, if q \<in> set (shutdown_at L # startup_at L # dispatcher_at L # listeners_at L) \<inter>
        set (listeners_at L) then listener_reacts m l else l)) = (case x of (p, l) \<Rightarrow> (p, listener_reacts m l))"
      by (cases x) simp
  qed
  ultimately show ?thesis unfolding run react_eq by simp
qed

text \<open>
  C14.  Every message reaches exactly the parts it is meant for.  Whatever the addresses of the
  objects are, and so the order in which the broker calls them, sending a message on the bus that
  \<open>main\<close> sets up returns, leaves the bus as it was and does what direct calls of the components do: a
  shutdown request reaches the two handlers of the main thread, a completed job the dispatcher, a
  ready listener the start-up handler, and the permission to go on all listeners.
\<close>

theorem messages_reach_their_subscribers:
  assumes "layout_ok L" and "map fst (serverListeners s) = listeners_at L"
  shows "SendMessage 2 (program_subscribers L fac err who) src m (program_bus L, s) =
    Some (program_bus L, react fac err who src m s)"
  by (rule messages_react [OF assms])

section \<open>The dispatcher's call, step by step\<close>

text \<open>
  A call that finds no lock held and is not disturbed is the composition of its steps.
\<close>

lemma assign_jobs_inflight:
  "(assign_jobs err js (e\<lparr>inflight := ys\<rparr>))\<lparr>inflight := zs\<rparr> = (assign_jobs err js e)\<lparr>inflight := zs\<rparr>"
proof (induction js arbitrary: e)
  case (Cons j js)
  have "assign_job err j (e\<lparr>inflight := ys\<rparr>) = (True, (snd (assign_job err j e))\<lparr>inflight := ys\<rparr>)"
    by (cases e) (simp add: assign_job_eq Let_def)
  then show ?case using Cons assign_job_sent(2) [of err j e] by (simp add: Let_def split_beta)
qed simp

lemma assign_jobs_keeps: "inflight (assign_jobs err js e) = inflight e"
  by (induction js arbitrary: e) (simp_all add: assign_job_eq Let_def)

lemma assign_jobs_steps:
  assumes "\<not> holds_free (bg d)" and "\<not> holds_active (bg d)" and "inflight d = xs @ [(SOther p, MP_Assign js)]"
  shows "(internal fac cfg)\<^sup>*\<^sup>* d ((assign_jobs err js d)\<lparr>inflight := xs @ [(SOther p, MP_Leave)]\<rparr>)"
  using assms
proof (induction js arbitrary: d)
  case Nil
  have "internal fac cfg d (d\<lparr>inflight := xs @ [(SOther p, MP_Leave)]\<rparr>)"
    using msg_step [of d xs "SOther p" "MP_Assign []" "[]" fac err MP_Leave d cfg] Nil by simp
  then show ?case by simp
next
  case (Cons j js)
  let ?d1 = "snd (assign_job err j d)"
  have fr: "bg ?d1 = bg d" "inflight ?d1 = inflight d" by (simp_all add: assign_job_eq Let_def)
  have "internal fac cfg d (?d1\<lparr>inflight := xs @ [(SOther p, MP_Assign js)]\<rparr>)"
    using msg_step [of d xs "SOther p" "MP_Assign (j # js)" "[]" fac err "MP_Assign js" ?d1 cfg]
      Cons.prems assign_job_sent(2) [of err j d] by (simp add: Let_def split_beta)
  moreover have "(internal fac cfg)\<^sup>*\<^sup>* (?d1\<lparr>inflight := xs @ [(SOther p, MP_Assign js)]\<rparr>)
      ((assign_jobs err js (?d1\<lparr>inflight := xs @ [(SOther p, MP_Assign js)]\<rparr>))\<lparr>inflight := xs @ [(SOther p, MP_Leave)]\<rparr>)"
    using Cons.prems fr by (intro Cons.IH) simp_all
  ultimately show ?case using assign_job_sent(2) [of err j d]
    by (simp add: Let_def split_beta assign_jobs_inflight)
qed

lemma keep_inflight:
  "inflight D = ys \<Longrightarrow> D\<lparr>msgProcCount := n, inflight := ys\<rparr> = D\<lparr>msgProcCount := n\<rparr>"
  by (cases D) simp

lemma OnMessage_undisturbed:
  assumes "\<not> holds_free (bg d)" and "\<not> holds_active (bg d)" and "\<not> holds_dispose (bg d)"
  shows "(internal fac cfg)\<^sup>*\<^sup>* (OnMessage_enter (SOther p) r d) (dispatcher_OnMessage fac err (SOther p) r d)"
proof -
  let ?src = "SOther p" and ?xs = "inflight d"
  define d0 where "d0 = d\<lparr>msgProcCount := msgProcCount d + 1\<rparr>"
  have enter: "OnMessage_enter ?src r d = d0\<lparr>inflight := ?xs @ [(?src, MP_Check r)]\<rparr>"
    by (simp add: OnMessage_enter_def d0_def)
  have leave: "internal fac cfg (e\<lparr>inflight := ?xs @ [(?src, MP_Leave)]\<rparr>)
      (e\<lparr>msgProcCount := msgProcCount e - 1, inflight := ?xs\<rparr>)" for e :: "'a dispatcher"
    using msg_return [of "e\<lparr>inflight := ?xs @ [(?src, MP_Leave)]\<rparr>" ?xs ?src MP_Leave "[]" fac err
        "e\<lparr>inflight := ?xs @ [(?src, MP_Leave)], msgProcCount := msgProcCount e - 1\<rparr>" cfg] by (cases e) simp
  show ?thesis
  proof (cases "d_shutdownPending d")
    case True
    have "internal fac cfg (d0\<lparr>inflight := ?xs @ [(?src, MP_Check r)]\<rparr>) (d0\<lparr>inflight := ?xs @ [(?src, MP_Leave)]\<rparr>)"
      using msg_step [of "d0\<lparr>inflight := ?xs @ [(?src, MP_Check r)]\<rparr>" ?xs ?src "MP_Check r" "[]" fac err MP_Leave
          "d0\<lparr>inflight := ?xs @ [(?src, MP_Check r)]\<rparr>" cfg] True by (simp add: d0_def)
    with leave [of d0] have "(internal fac cfg)\<^sup>*\<^sup>* (OnMessage_enter ?src r d) (d0\<lparr>msgProcCount := msgProcCount d0 - 1, inflight := ?xs\<rparr>)"
      unfolding enter by (meson converse_rtranclp_into_rtranclp rtranclp.rtrancl_refl)
    then show ?thesis using True by (simp add: dispatcher_OnMessage_def OnMessageInternal_def d0_def)
  next
    case False
    obtain jobs e where fac: "fac r (d_env d) = (jobs, e)" by fastforce
    let ?d1 = "d0\<lparr>d_env := e\<rparr>"
    have "internal fac cfg (d0\<lparr>inflight := ?xs @ [(?src, MP_Check r)]\<rparr>) (d0\<lparr>inflight := ?xs @ [(?src, MP_Move r)]\<rparr>)"
      using msg_step [of "d0\<lparr>inflight := ?xs @ [(?src, MP_Check r)]\<rparr>" ?xs ?src "MP_Check r" "[]" fac err "MP_Move r"
          "d0\<lparr>inflight := ?xs @ [(?src, MP_Check r)]\<rparr>" cfg] False by (simp add: d0_def)
    moreover have "internal fac cfg (d0\<lparr>inflight := ?xs @ [(?src, MP_Move r)]\<rparr>) (d0\<lparr>inflight := ?xs @ [(?src, MP_Create r)]\<rparr>)"
      using msg_step [of "d0\<lparr>inflight := ?xs @ [(?src, MP_Move r)]\<rparr>" ?xs ?src "MP_Move r" "[]" fac err "MP_Create r"
          "d0\<lparr>inflight := ?xs @ [(?src, MP_Move r)]\<rparr>" cfg] assms by (simp add: d0_def move_finished_def)
    moreover have "internal fac cfg (d0\<lparr>inflight := ?xs @ [(?src, MP_Create r)]\<rparr>) (?d1\<lparr>inflight := ?xs @ [(?src, MP_Assign jobs)]\<rparr>)"
      using msg_step [of "d0\<lparr>inflight := ?xs @ [(?src, MP_Create r)]\<rparr>" ?xs ?src "MP_Create r" "[]" fac err "MP_Assign jobs"
          "?d1\<lparr>inflight := ?xs @ [(?src, MP_Create r)]\<rparr>" cfg] fac by (simp add: d0_def)
    moreover have "(internal fac cfg)\<^sup>*\<^sup>* (?d1\<lparr>inflight := ?xs @ [(?src, MP_Assign jobs)]\<rparr>)
        ((assign_jobs err jobs ?d1)\<lparr>inflight := ?xs @ [(?src, MP_Leave)]\<rparr>)"
      using assign_jobs_steps [of "?d1\<lparr>inflight := ?xs @ [(?src, MP_Assign jobs)]\<rparr>" ?xs p jobs fac cfg err] assms
      by (simp add: d0_def assign_jobs_inflight)
    moreover note leave [of "assign_jobs err jobs ?d1"]
    ultimately have "(internal fac cfg)\<^sup>*\<^sup>* (OnMessage_enter ?src r d)
        ((assign_jobs err jobs ?d1)\<lparr>msgProcCount := msgProcCount (assign_jobs err jobs ?d1) - 1, inflight := ?xs\<rparr>)"
      unfolding enter by (meson converse_rtranclp_into_rtranclp rtranclp.rtrancl_into_rtrancl rtranclp_trans)
    moreover have "inflight (assign_jobs err jobs ?d1) = ?xs"
      using assign_jobs_keeps [of err jobs ?d1] by (simp add: d0_def)
    ultimately have "(internal fac cfg)\<^sup>*\<^sup>* (OnMessage_enter ?src r d)
        ((assign_jobs err jobs ?d1)\<lparr>msgProcCount := msgProcCount (assign_jobs err jobs ?d1) - 1\<rparr>)"
      using keep_inflight [of "assign_jobs err jobs ?d1" ?xs] by simp
    then show ?thesis
      using False fac by (simp add: dispatcher_OnMessage_def OnMessageInternal_def d0_def move_finished_def Let_def)
  qed
qed

section \<open>A new client\<close>

text \<open>The program's factory, on the claims and the service that the jobs share.\<close>

definition sox_factory :: "kernel \<Rightarrow> (claim_heap \<times> service) factory" where
  "sox_factory k r = (\<lambda>(heap, svc). let (jobs, heap', svc') = CreateJobsFromResult k r heap svc in (jobs, heap', svc'))"

definition handshake_state :: "u64 \<Rightarrow> claim_heap \<Rightarrow> job_state" where
  "handshake_state hid heap = \<lparr>handlerClaims = [length heap], handlerClaimStates = [\<lparr>cs_counter = 1, cs_handlerID = hid\<rparr>]\<rparr>"

lemma new_client_job:
  "sox_factory k (JR_NEW_CLIENT hid) (heap, svc) =
     ([ClientHandshake (handshake_state hid heap)], heap @ [\<lparr>counter = 1, handlerID = hid\<rparr>], svc)"
  by (simp add: sox_factory_def CreateJobsFromResult_def AddHandler_def HandlerClaim_def State_empty_def GetState_def
      Job_ClientHandshake_def ClaimAllHandlers_def Claim_def handshake_state_def Let_def nth_append)

text \<open>It creates at most the two tunnels of a connection, so the bound on the dispatcher's shutdown applies with 2.\<close>

lemma sox_factory_jobs: "length (fst (sox_factory k r e)) \<le> 2"
  by (simp add: sox_factory_def CreateJobsFromResult_def split: prod.splits job_result.splits)

lemmas sox_dispatcher_stops = bound_run [OF _ _ _ sox_factory_jobs]

lemma assigned_worker:
  assumes "d_inv d" and "\<not> d_shutdownPending d" and "snd (assign_job err j d) = d'"
  shows "\<exists>i w'. i \<in> set (activeWorkers d') \<and> i < length (workers d') \<and> worker_wake (workers d' ! i) = Some w' \<and>
    jw_phase w' = Executing j"
proof -
  have early: "\<not> past_pre (bg d)" using assms(1,2) by (auto simp: d_inv_def inv_stage_def)
  define i where "i = (if freeWorkers d = [] then length (workers d) else last (freeWorkers d))"
  define ws where "ws = (if freeWorkers d = [] then workers d @ [fresh_worker] else workers d)"
  have inv: "inv_pools d" "inv_class d" using assms(1) by (simp_all add: d_inv_def)
  have "has_class Fresh (ws ! i) \<and> i < length ws"
  proof (cases "freeWorkers d = []")
    case True
    then show ?thesis using fresh_worker_class by (simp add: i_def ws_def)
  next
    case False
    then have i: "i \<in> set (freeWorkers d)" by (simp add: i_def)
    then have "i < length (workers d)" using inv(1) by (auto simp: inv_pools_def pools_def)
    moreover have "class_of d i = Fresh" using i early by (cases "bg d") (simp_all add: class_of_def)
    ultimately have "has_class Fresh (workers d ! i)" "i < length (workers d)" using inv_classD [OF inv(2)] by blast+
    then show ?thesis using False by (simp add: i_def ws_def)
  qed
  then have fresh: "\<not> jobSet (ws ! i)" "jw_phase (ws ! i) = Waiting" "i < length ws"
    by (simp_all add: has_class.simps)
  have d': "activeWorkers d' = List.insert i (activeWorkers d)" "workers d' = ws[i := snd (SetJob (Some j) (ws ! i))]"
    using assms(3) by (auto simp: assign_job_eq Let_def i_def ws_def)
  then show ?thesis
    using fresh by (intro exI [of _ i]) (simp add: SetJob_def worker_wake_def)
qed

text \<open>
  C15.  A client that was accepted gets its handshake.  When a listener announces a new client while
  the program is not shutting down, the message returns and leaves an active worker whose thread goes
  on to execute a handshake job that holds exactly one claim, on the handler of that client; nothing
  else of the program has changed but the dispatcher and what is shared through it.
\<close>

theorem accepted_client_gets_a_handshake:
  assumes "layout_ok L" and "map fst (serverListeners s) = listeners_at L"
    and "reachable (sox_factory k) cfg e0 (jobDispatcher s)" and "\<not> d_shutdownPending (jobDispatcher s)"
    and "who src = SOther src"
  shows "\<exists>d' i w'. SendMessage 2 (program_subscribers L (sox_factory k) err who) src (JobCompleteMessage (JR_NEW_CLIENT hid))
      (program_bus L, s) = Some (program_bus L, s\<lparr>jobDispatcher := d'\<rparr>) \<and>
    i \<in> set (activeWorkers d') \<and> i < length (workers d') \<and> worker_wake (workers d' ! i) = Some w' \<and>
    jw_phase w' = Executing (ClientHandshake (handshake_state hid (fst (d_env (jobDispatcher s))))) \<and>
    d_env d' = (fst (d_env (jobDispatcher s)) @ [\<lparr>counter = 1, handlerID = hid\<rparr>], snd (d_env (jobDispatcher s)))"
proof -
  let ?d = "jobDispatcher s"
  obtain heap svc where env: "d_env ?d = (heap, svc)" by fastforce
  let ?job = "ClientHandshake (handshake_state hid heap)" and ?env = "(heap @ [\<lparr>counter = 1, handlerID = hid\<rparr>], svc)"
  define d1 where "d1 = ?d\<lparr>d_env := ?env\<rparr>"
  define d2 where "d2 = snd (assign_job err ?job d1)"
  have "d_inv d1"
    unfolding d1_def by (rule dstep_inv [OF jobs_run reachable_inv [OF assms(3)]])
  from assigned_worker [OF this, of err ?job d2] obtain i w' where
    w: "i \<in> set (activeWorkers d2)" "i < length (workers d2)" "worker_wake (workers d2 ! i) = Some w'"
      "jw_phase w' = Executing ?job"
    using assms(4) by (auto simp: d1_def d2_def)
  have "dispatcher_OnMessage (sox_factory k) err (SOther src) (JR_NEW_CLIENT hid) ?d = d2"
    using assms(4) env
    by (simp add: dispatcher_OnMessage_def OnMessageInternal_def move_finished_def new_client_job d2_def d1_def
        assign_job_eq Let_def split_beta)
  then have "SendMessage 2 (program_subscribers L (sox_factory k) err who) src (JobCompleteMessage (JR_NEW_CLIENT hid))
      (program_bus L, s) = Some (program_bus L, s\<lparr>jobDispatcher := d2\<rparr>)"
    using messages_react [OF assms(1,2)] assms(5) by (simp add: react_def)
  moreover have "d_env d2 = ?env" by (simp add: d2_def d1_def assign_job_eq Let_def)
  ultimately show ?thesis using w env by auto
qed

section \<open>The program at its start\<close>

text \<open>The objects that \<open>main\<close> creates; every listener is one the start-up handler waits for.\<close>

definition initial_program :: "layout \<Rightarrow> ip_endpoint list \<Rightarrow> 'e \<Rightarrow> 'e program" where
  "initial_program L addrs e =
     \<lparr>shutdownHandler = ShutdownHandler, startupHandler = fold AddTarget (listeners_at L) StartupHandler,
      jobDispatcher = JobDispatcher e, serverListeners = zip (listeners_at L) (map TCPServerListener addrs)\<rparr>"

definition demo_layout :: layout where
  "demo_layout = \<lparr>shutdown_at = 5, startup_at = 9, dispatcher_at = 7, listeners_at = [3]\<rparr>"

definition demo_program :: "(claim_heap \<times> service) program" where
  "demo_program = initial_program demo_layout [IPEndpoint (IPAddress_raw [127, 0, 0, 1]) 1080]
     ([], TCPCommService demo_kernel sample_config)"

lemma demo_program_ok: "layout_ok demo_layout" "map fst (serverListeners demo_program) = listeners_at demo_layout"
  by (simp_all add: layout_ok_def demo_layout_def demo_program_def initial_program_def)

theorem messages_reach_their_subscribers_witness:
  "\<exists>s'. SendMessage 2 (program_subscribers demo_layout (sox_factory demo_kernel) 0 SOther) 3 (ShutdownMessage 98)
      (program_bus demo_layout, demo_program) = Some (program_bus demo_layout, s') \<and>
    IsShutdownRequested (shutdownHandler s') \<and> GetEC (shutdownHandler s') = 98 \<and>
    fst (WaitForStartupReady [] (startupHandler s')) \<and> serverListeners s' = serverListeners demo_program"
  using messages_reach_their_subscribers [OF demo_program_ok, of "sox_factory demo_kernel" 0 SOther 3 "ShutdownMessage 98"]
  by (simp add: react_def shutdown_OnMessage_def startup_OnMessage_def IsShutdownRequested_def GetEC_def
      demo_program_def initial_program_def ShutdownHandler_def)

theorem accepted_client_gets_a_handshake_witness:
  "\<exists>d' i w'. SendMessage 2 (program_subscribers demo_layout (sox_factory demo_kernel) 0 SOther) 3
      (JobCompleteMessage (JR_NEW_CLIENT 1)) (program_bus demo_layout, demo_program) =
        Some (program_bus demo_layout, demo_program\<lparr>jobDispatcher := d'\<rparr>) \<and>
    i \<in> set (activeWorkers d') \<and> worker_wake (workers d' ! i) = Some w' \<and>
    jw_phase w' = Executing (ClientHandshake (handshake_state 1 []))"
proof -
  have "reachable (sox_factory demo_kernel) sample_config ([], TCPCommService demo_kernel sample_config) (jobDispatcher demo_program)"
    by (simp add: reachable_def demo_program_def initial_program_def)
  moreover have "\<not> d_shutdownPending (jobDispatcher demo_program)"
    by (simp add: demo_program_def initial_program_def JobDispatcher_def)
  ultimately have "\<exists>d' i w'. SendMessage 2 (program_subscribers demo_layout (sox_factory demo_kernel) 0 SOther) 3
      (JobCompleteMessage (JR_NEW_CLIENT 1)) (program_bus demo_layout, demo_program) =
        Some (program_bus demo_layout, demo_program\<lparr>jobDispatcher := d'\<rparr>) \<and>
    i \<in> set (activeWorkers d') \<and> i < length (workers d') \<and> worker_wake (workers d' ! i) = Some w' \<and>
    jw_phase w' = Executing (ClientHandshake (handshake_state 1 (fst (d_env (jobDispatcher demo_program))))) \<and>
    d_env d' = (fst (d_env (jobDispatcher demo_program)) @ [\<lparr>counter = 1, handlerID = 1\<rparr>], snd (d_env (jobDispatcher demo_program)))"
    by (rule accepted_client_gets_a_handshake [OF demo_program_ok]) simp
  moreover have "fst (d_env (jobDispatcher demo_program)) = []"
    by (simp add: demo_program_def initial_program_def JobDispatcher_def)
  ultimately show ?thesis by metis
qed

end
