(* ===== verification/Command_Line.thy ===== *)
theory Command_Line
  imports Sox_Config "HOL-Library.AList"
begin

text \<open>
  \<open>src/Src/Main.cpp\<close>, the first part of \<open>main\<close>: the loop over the arguments and the translation of
  the options into the configuration.  \<open>atoi\<close> is the function of the C library, whose result is
  undefined when the number does not fit into \<open>int\<close>; this is \<open>None\<close> here and the error
  \<open>AtoiOverflow\<close> of the translation.  \<open>inet_pton\<close> is a parameter.
\<close>

section \<open>Arguments\<close>

type_synonym args = "(string \<times> string) list"

text \<open>
  \<open>parse_args prev rest args\<close>: \<open>prev\<close> is the option whose value comes next (\<open>argv[i-1]\<close> when
  \<open>isArgValue\<close> is set).  The result \<open>None\<close> is the message about an invalid argument.
\<close>

fun parse_args :: "string option \<Rightarrow> string list \<Rightarrow> args \<Rightarrow> args option" where
  "parse_args prev [] args = Some args"
| "parse_args (Some key) (arg # rest) args = parse_args None rest (AList.update key arg args)"
| "parse_args None (arg # rest) args =
     (if length arg < 2 \<or> hd arg \<noteq> CHR ''-'' then None else parse_args (Some arg) rest args)"

definition has_arg :: "args \<Rightarrow> string \<Rightarrow> bool" where
  "has_arg args key \<longleftrightarrow> map_of args key \<noteq> None"

text \<open>\<open>args[key]\<close>: a missing key gives the empty string (and is inserted; nobody looks for it afterwards).\<close>

definition get_arg :: "args \<Rightarrow> string \<Rightarrow> string" where
  "get_arg args key = (case map_of args key of None \<Rightarrow> [] | Some val \<Rightarrow> val)"

section \<open>Numbers\<close>

definition is_space :: "char \<Rightarrow> bool" where
  "is_space c \<longleftrightarrow> (let n = of_char c :: nat in n = 32 \<or> 9 \<le> n \<and> n \<le> 13)"

definition is_digit :: "char \<Rightarrow> bool" where
  "is_digit c \<longleftrightarrow> (let n = of_char c :: nat in 48 \<le> n \<and> n \<le> 57)"

definition digits_value :: "string \<Rightarrow> nat" where
  "digits_value s = fold (\<lambda>c n. n * 10 + (of_char c - 48)) (takeWhile is_digit s) 0"

definition signed_value :: "string \<Rightarrow> int" where
  "signed_value s =
     (case s of
        [] \<Rightarrow> 0
      | c # cs \<Rightarrow> if c = CHR ''-'' then - int (digits_value cs)
                  else if c = CHR ''+'' then int (digits_value cs)
                  else int (digits_value s))"

definition atoi :: "string \<Rightarrow> int option" where
  "atoi s =
     (let v = signed_value (dropWhile is_space (c_str s))
      in if v < - 2147483648 \<or> v > 2147483647 then None else Some v)"

section \<open>Options\<close>

datatype cl_error = ParamError string | AtoiOverflow

definition and_then :: "'e + 'a \<Rightarrow> ('a \<Rightarrow> 'e + 'b) \<Rightarrow> 'e + 'b" where
  "and_then m f = (case m of Inl e \<Rightarrow> Inl e | Inr a \<Rightarrow> f a)"

text \<open>The form of most options: the value read from \<open>source\<close> must lie between two bounds.\<close>

definition int_option :: "args \<Rightarrow> string \<Rightarrow> string \<Rightarrow> int \<Rightarrow> int \<Rightarrow> string \<Rightarrow> (int \<Rightarrow> config \<Rightarrow> config) \<Rightarrow> config \<Rightarrow>
    cl_error + config" where
  "int_option args key source low high msg setter config =
     (if \<not> has_arg args key then Inr config
      else case atoi (get_arg args source) of
        None \<Rightarrow> Inl AtoiOverflow
      | Some val \<Rightarrow> if val < low \<or> val > high then Inl (ParamError msg) else Inr (setter val config))"

definition parse_port :: "args \<Rightarrow> cl_error + int" where
  "parse_port args =
     (if \<not> has_arg args ''-p'' then Inl (ParamError ''TCP port number is missing!'')
      else case atoi (get_arg args ''-p'') of
        None \<Rightarrow> Inl AtoiOverflow
      | Some p \<Rightarrow> if p < 1 \<or> p > 65535 then Inl (ParamError ''TCP port number is invalid!'') else Inr p)"

definition parse_listen :: "pton \<Rightarrow> args \<Rightarrow> int \<Rightarrow> config \<Rightarrow> cl_error + config" where
  "parse_listen pton args p config =
     (if has_arg args ''-l''
      then (let addr = IPAddress_str pton (get_arg args ''-l'')
            in if \<not> isValid addr \<or> isV6 addr then Inl (ParamError ''listen IP address is invalid!'')
               else Inr (AddListenAddr (IPEndpoint addr (word_of_int p)) config))
      else Inr (AddListenAddr (IPEndpoint (IPAddress_str pton ''127.0.0.1'') (word_of_int p)) config))"

definition parse_users :: "args \<Rightarrow> config \<Rightarrow> config" where
  "parse_users args config =
     (let pwd = (if \<not> has_arg args ''-pwd'' then [] else get_arg args ''-pwd'');
          config1 = (if \<not> has_arg args ''-usr'' then AddUser \<lparr>login = [], password = []\<rparr> config
                     else AddUser \<lparr>login = get_arg args ''-usr'', password = pwd\<rparr> config)
      in AddUser \<lparr>login = get_arg args ''-usr'', password = pwd\<rparr> config1)"

definition parse_dns :: "pton \<Rightarrow> dns_ctx \<Rightarrow> args \<Rightarrow> config \<Rightarrow> cl_error + config" where
  "parse_dns pton dns_defctx args config =
     (let config1 = SetUDNSSearchDomainIsSet False (SetBaseUDNSContext dns_defctx config)
      in if has_arg args ''-dns''
         then if \<not> isValid (IPAddress_str pton (get_arg args ''-dns'')) then Inl (ParamError ''DNS address is invalid'')
              else Inr (if has_arg args ''-src'' then SetUDNSSearchDomainIsSet True config1 else config1)
         else Inr config1)"

text \<open>The whole translation; \<open>config\<close> is the object as it was constructed, with uninitialised numbers.\<close>

definition parse_config :: "pton \<Rightarrow> dns_ctx \<Rightarrow> args \<Rightarrow> config \<Rightarrow> cl_error + config" where
  "parse_config pton dns_defctx args config =
     (if args = [] then Inl (ParamError ''Mandatory parameters are missing!'') else
      and_then (parse_port args) (\<lambda>p.
      and_then (parse_listen pton args p config) (\<lambda>config.
      and_then (int_option args ''-wc'' ''-wc'' 1 1000 ''workers count value is invalid!'' SetWorkersCount
        (SetWorkersCount 50 config)) (\<lambda>config.
      and_then (int_option args ''-ws'' ''-wc'' 1 (GetWorkersCount config) ''workers swawn count value is invalid!''
        SetWorkersSpawnCount (SetWorkersSpawnCount 10 config)) (\<lambda>config.
      and_then (int_option args ''-ac'' ''-ac'' 1 10000 ''max active workers count value is invalid!''
        SetActiveWorkersCount (SetActiveWorkersCount 250 config)) (\<lambda>config.
      and_then (int_option args ''-mt'' ''-mt'' 100 10000 ''workers management interval is invalid!''
        SetServiceIntervalMS (SetServiceIntervalMS 500 config)) (\<lambda>config.
      and_then (int_option args ''-st'' ''-st'' 100 60000 ''socket timeout is invalid!''
        SetSocketTimeoutMS (SetSocketTimeoutMS 5000 config)) (\<lambda>config.
      and_then (parse_dns pton dns_defctx args (parse_users args config)) (\<lambda>config.
      and_then (int_option args ''-bsz'' ''-bsz'' 128 524288 ''TCP buffer size is invalid''
        SetTCPBuffSz (SetTCPBuffSz 65536 config)) (\<lambda>config.
      and_then (int_option args ''-cf'' ''-cf'' (-1) 600 ''Flush timeout value is invalid''
        SetLingerSec (SetLingerSec 30 config)) (\<lambda>config.
      and_then (int_option args ''-cmin'' ''-cmin'' 1 60 ''Minimal connection timeout is invalid''
        SetMinCTimeSec (SetMinCTimeSec 5 config)) (\<lambda>config.
      and_then (int_option args ''-cmax'' ''-cmax'' (GetMinCTimeSec config sdiv 1000) 120
        ''Maximum connection timeout is invalid'' SetMaxCTimeSec (SetMaxCTimeSec 20 config)) (\<lambda>config.
      and_then (int_option args ''-dt'' ''-dt'' 1 7200 ''Data R|W timeout is invalid''
        SetRWTimeSec (SetRWTimeSec 60 config)) (\<lambda>config.
      and_then (int_option args ''-hc'' ''-hc'' 1 7200 ''Half-closed connection timeout is invalid''
        SetHalfCloseTimeoutSec (SetHalfCloseTimeoutSec 30 config)) (\<lambda>config.
      Inr (if has_arg args ''-ns'' then SetNetNS (get_arg args ''-ns'') (SetNetNS [] config)
           else SetNetNS [] config))))))))))))))))"

text \<open>The arguments after the program name, and what \<open>main\<close> makes of them.\<close>

definition command_line :: "pton \<Rightarrow> dns_ctx \<Rightarrow> config \<Rightarrow> string list \<Rightarrow> cl_error + args \<times> config" where
  "command_line pton dns_defctx config argv =
     (case parse_args None argv [] of
        None \<Rightarrow> Inl (ParamError ''Invalid cmdline argument: '')
      | Some args \<Rightarrow> and_then (parse_config pton dns_defctx args config) (\<lambda>config. Inr (args, config)))"

section \<open>The arguments\<close>

definition is_option :: "string \<Rightarrow> bool" where
  "is_option key \<longleftrightarrow> 2 \<le> length key \<and> hd key = CHR ''-''"

definition flatten :: "(string \<times> string) list \<Rightarrow> string list" where
  "flatten kvs = concat (map (\<lambda>(key, val). [key, val]) kvs)"

lemma parse_args_flatten:
  "list_all (is_option \<circ> fst) kvs \<Longrightarrow>
     parse_args None (flatten kvs @ rest) args = parse_args None rest (fold (\<lambda>(key, val). AList.update key val) kvs args)"
  by (induction kvs arbitrary: args) (auto simp: flatten_def is_option_def)

lemma map_of_updates:
  "map_of (fold (\<lambda>(key, val). AList.update key val) kvs args) = map_of args ++ map_of (rev kvs)"
proof (induction kvs arbitrary: args)
  case (Cons kv kvs)
  obtain key val where kv: "kv = (key, val)" by (cases kv)
  show ?case
    by (rule ext) (simp add: kv Cons.IH update_conv' map_add_def split: option.splits)
qed simp

text \<open>
  C24.  The options given are the options read.  A command line made of options, each followed by
  its value, is accepted, and each option has the last value given for it, whatever that value looks
  like; a last option without a value is ignored.
\<close>

theorem arguments_read_back:
  assumes "list_all (is_option \<circ> fst) kvs" and "trailing = [] \<or> (\<exists>key. trailing = [key] \<and> is_option key)"
  shows "\<exists>args. parse_args None (flatten kvs @ trailing) [] = Some args \<and> map_of args = map_of (rev kvs)"
proof -
  let ?args = "fold (\<lambda>(key, val). AList.update key val) kvs []"
  have "parse_args None (flatten kvs @ trailing) [] = Some ?args"
    using assms(2) parse_args_flatten [OF assms(1)] by (auto simp: is_option_def)
  then show ?thesis using map_of_updates [of kvs "[]"] by simp
qed

theorem arguments_read_back_witness:
  "\<exists>args. parse_args None [''-p'', ''1080'', ''-cf'', ''-1'', ''-p'', ''1081'', ''-wc''] [] = Some args \<and>
     map_of args ''-p'' = Some ''1081'' \<and> map_of args ''-cf'' = Some ''-1'' \<and> map_of args ''-wc'' = None"
  using arguments_read_back [of "[(''-p'', ''1080''), (''-cf'', ''-1''), (''-p'', ''1081'')]" "[''-wc'']"]
  by (auto simp: is_option_def flatten_def)

section \<open>Reading numbers\<close>

lemma atoi_range: "atoi s = Some v \<Longrightarrow> - 2147483648 \<le> v \<and> v \<le> 2147483647"
  by (auto simp: atoi_def Let_def split: if_splits)

lemma atoi_empty [simp]: "atoi [] = Some 0"
  by (simp add: atoi_def signed_value_def c_str_def)

text \<open>An option as a number: the value given or the default, or an error.\<close>

definition int_value :: "args \<Rightarrow> string \<Rightarrow> string \<Rightarrow> int \<Rightarrow> int \<Rightarrow> string \<Rightarrow> int \<Rightarrow> cl_error + int" where
  "int_value args key source low high msg dflt =
     (if \<not> has_arg args key then Inr dflt
      else case atoi (get_arg args source) of
        None \<Rightarrow> Inl AtoiOverflow
      | Some val \<Rightarrow> if val < low \<or> val > high then Inl (ParamError msg) else Inr val)"

lemma int_option_values:
  "int_option args key source low high msg SetWorkersCount (SetWorkersCount dflt c) =
     and_then (int_value args key source low high msg dflt) (\<lambda>v. Inr (c\<lparr>workersCount := v\<rparr>))"
  "int_option args key source low high msg SetWorkersSpawnCount (SetWorkersSpawnCount dflt c) =
     and_then (int_value args key source low high msg dflt) (\<lambda>v. Inr (c\<lparr>workersSpawnCount := v\<rparr>))"
  "int_option args key source low high msg SetActiveWorkersCount (SetActiveWorkersCount dflt c) =
     and_then (int_value args key source low high msg dflt) (\<lambda>v. Inr (c\<lparr>activeWorkersCount := v\<rparr>))"
  "int_option args key source low high msg SetServiceIntervalMS (SetServiceIntervalMS dflt c) =
     and_then (int_value args key source low high msg dflt) (\<lambda>v. Inr (c\<lparr>serviceInterval := v\<rparr>))"
  "int_option args key source low high msg SetSocketTimeoutMS (SetSocketTimeoutMS dflt c) =
     and_then (int_value args key source low high msg dflt) (\<lambda>v. Inr (c\<lparr>socketTimeout := v\<rparr>))"
  "int_option args key source low high msg SetTCPBuffSz (SetTCPBuffSz dflt c) =
     and_then (int_value args key source low high msg dflt) (\<lambda>v. Inr (c\<lparr>TCPBuffSz := v\<rparr>))"
  "int_option args key source low high msg SetLingerSec (SetLingerSec dflt c) =
     and_then (int_value args key source low high msg dflt) (\<lambda>v. Inr (c\<lparr>linger := v\<rparr>))"
  "int_option args key source low high msg SetMinCTimeSec (SetMinCTimeSec dflt c) =
     and_then (int_value args key source low high msg dflt) (\<lambda>v. Inr (c\<lparr>minCtSec := v\<rparr>))"
  "int_option args key source low high msg SetMaxCTimeSec (SetMaxCTimeSec dflt c) =
     and_then (int_value args key source low high msg dflt) (\<lambda>v. Inr (c\<lparr>maxCtSec := v\<rparr>))"
  "int_option args key source low high msg SetRWTimeSec (SetRWTimeSec dflt c) =
     and_then (int_value args key source low high msg dflt) (\<lambda>v. Inr (c\<lparr>rwTimeoutSec := v\<rparr>))"
  "int_option args key source low high msg SetHalfCloseTimeoutSec (SetHalfCloseTimeoutSec dflt c) =
     and_then (int_value args key source low high msg dflt) (\<lambda>v. Inr (c\<lparr>hcTimeoutSec := v\<rparr>))"
  by (simp_all add: int_option_def int_value_def and_then_def config_setters split: option.splits)

lemma int_value_range:
  "int_value args key source low high msg dflt = Inr v \<Longrightarrow> low \<le> dflt \<Longrightarrow> dflt \<le> high \<Longrightarrow> low \<le> v \<and> v \<le> high"
  by (auto simp: int_value_def split: if_splits option.splits)

lemma and_then_assoc: "and_then (and_then m f) g = and_then m (\<lambda>a. and_then (f a) g)"
  by (simp add: and_then_def split: sum.splits)

lemma and_then_Inr [simp]: "and_then (Inr a) f = f a"
  by (simp add: and_then_def)

lemma and_then_Inr_iff: "and_then m f = Inr b \<longleftrightarrow> (\<exists>a. m = Inr a \<and> f a = Inr b)"
  by (auto simp: and_then_def split: sum.splits)

section \<open>The configuration\<close>

text \<open>The values the options give, in the order of the source; the result is the configuration they make.\<close>

definition listen_value :: "pton \<Rightarrow> args \<Rightarrow> int \<Rightarrow> cl_error + ip_endpoint" where
  "listen_value pton args p =
     (if has_arg args ''-l''
      then (let addr = IPAddress_str pton (get_arg args ''-l'')
            in if \<not> isValid addr \<or> isV6 addr then Inl (ParamError ''listen IP address is invalid!'')
               else Inr (IPEndpoint addr (word_of_int p)))
      else Inr (IPEndpoint (IPAddress_str pton ''127.0.0.1'') (word_of_int p)))"

definition dns_value :: "pton \<Rightarrow> args \<Rightarrow> cl_error + bool" where
  "dns_value pton args =
     (if has_arg args ''-dns'' \<and> \<not> isValid (IPAddress_str pton (get_arg args ''-dns''))
      then Inl (ParamError ''DNS address is invalid'')
      else Inr (has_arg args ''-dns'' \<and> has_arg args ''-src''))"

definition option_values :: "pton \<Rightarrow> dns_ctx \<Rightarrow> args \<Rightarrow> cl_error + config" where
  "option_values pton dns_defctx args =
     (if args = [] then Inl (ParamError ''Mandatory parameters are missing!'') else
      and_then (parse_port args) (\<lambda>p.
      and_then (listen_value pton args p) (\<lambda>addr.
      and_then (int_value args ''-wc'' ''-wc'' 1 1000 ''workers count value is invalid!'' 50) (\<lambda>wc.
      and_then (int_value args ''-ws'' ''-wc'' 1 wc ''workers swawn count value is invalid!'' 10) (\<lambda>ws.
      and_then (int_value args ''-ac'' ''-ac'' 1 10000 ''max active workers count value is invalid!'' 250) (\<lambda>ac.
      and_then (int_value args ''-mt'' ''-mt'' 100 10000 ''workers management interval is invalid!'' 500) (\<lambda>mt.
      and_then (int_value args ''-st'' ''-st'' 100 60000 ''socket timeout is invalid!'' 5000) (\<lambda>st.
      and_then (dns_value pton args) (\<lambda>src.
      and_then (int_value args ''-bsz'' ''-bsz'' 128 524288 ''TCP buffer size is invalid'' 65536) (\<lambda>bsz.
      and_then (int_value args ''-cf'' ''-cf'' (-1) 600 ''Flush timeout value is invalid'' 30) (\<lambda>cf.
      and_then (int_value args ''-cmin'' ''-cmin'' 1 60 ''Minimal connection timeout is invalid'' 5) (\<lambda>cmin.
      and_then (int_value args ''-cmax'' ''-cmax'' (cmin sdiv 1000) 120 ''Maximum connection timeout is invalid'' 20) (\<lambda>cmax.
      and_then (int_value args ''-dt'' ''-dt'' 1 7200 ''Data R|W timeout is invalid'' 60) (\<lambda>dt.
      and_then (int_value args ''-hc'' ''-hc'' 1 7200 ''Half-closed connection timeout is invalid'' 30) (\<lambda>hc.
      Inr \<lparr>socketTimeout = st, serviceInterval = mt, workersCount = wc, workersSpawnCount = ws,
        activeWorkersCount = ac, dnsContext = dns_defctx, udnsSRCSet = src, TCPBuffSz = bsz, linger = cf,
        minCtSec = cmin, maxCtSec = cmax, rwTimeoutSec = dt, hcTimeoutSec = hc, listenAddrs = [addr],
        users = (let name = (if has_arg args ''-usr'' then get_arg args ''-usr'' else []);
                     pwd = (if has_arg args ''-usr'' \<and> has_arg args ''-pwd'' then get_arg args ''-pwd'' else [])
                 in [(name, \<lparr>login = name, password = pwd\<rparr>)]),
        netns = (if has_arg args ''-ns'' then get_arg args ''-ns'' else [])\<rparr>)))))))))))))))"

lemma parse_users_eq:
  assumes "users c = []"
  shows "parse_users args c = c\<lparr>users := (let name = (if has_arg args ''-usr'' then get_arg args ''-usr'' else []);
      pwd = (if has_arg args ''-usr'' \<and> has_arg args ''-pwd'' then get_arg args ''-pwd'' else [])
    in [(name, \<lparr>login = name, password = pwd\<rparr>)])\<rparr>"
proof (cases "has_arg args ''-usr''")
  case True
  then show ?thesis using assms by (simp add: parse_users_def AddUser_def Let_def)
next
  case False
  then have "get_arg args ''-usr'' = []" by (simp add: has_arg_def get_arg_def)
  then show ?thesis using assms False by (simp add: parse_users_def AddUser_def Let_def)
qed

lemma parse_dns_eq:
  "parse_dns pton dns_defctx args c =
     and_then (dns_value pton args) (\<lambda>src. Inr (c\<lparr>dnsContext := dns_defctx, udnsSRCSet := src\<rparr>))"
  by (simp add: parse_dns_def dns_value_def and_then_def config_setters Let_def)

lemma parse_listen_eq:
  "listenAddrs c = [] \<Longrightarrow> parse_listen pton args p c = and_then (listen_value pton args p) (\<lambda>addr. Inr (c\<lparr>listenAddrs := [addr]\<rparr>))"
  by (simp add: parse_listen_def listen_value_def and_then_def AddListenAddr_def Let_def)

lemma parse_config_values:
  assumes "listenAddrs c = []" and "users c = []"
  shows "parse_config pton dns_defctx args c = option_values pton dns_defctx args"
proof -
  obtain st mt wc ws ac ctx src bsz cf cmin cmax dt hc ns where c: "c = \<lparr>socketTimeout = st, serviceInterval = mt,
      workersCount = wc, workersSpawnCount = ws, activeWorkersCount = ac, dnsContext = ctx, udnsSRCSet = src,
      TCPBuffSz = bsz, linger = cf, minCtSec = cmin, maxCtSec = cmax, rwTimeoutSec = dt, hcTimeoutSec = hc,
      listenAddrs = [], users = [], netns = ns\<rparr>"
    using assms by (cases c) simp
  have ns: "(if b then SetNetNS path (SetNetNS [] d) else SetNetNS [] d) = d\<lparr>netns := if b then path else []\<rparr>" for b path d
    by (simp add: SetNetNS_def)
  show ?thesis
    unfolding parse_config_def option_values_def c ns
    by (cases "args = []", simp) (simp add: int_option_values and_then_assoc parse_listen_eq parse_users_eq parse_dns_eq split del: if_split)
qed

text \<open>A C library that reads one address.\<close>

definition local_pton :: pton where
  "local_pton v6 s = (if \<not> v6 \<and> s = ''127.0.0.1'' then Some [127, 0, 0, 1] else None)"

text \<open>
  C26.  No uninitialised memory reaches the program.  The configuration object is constructed with
  indeterminate numbers; what the command line makes of it, a configuration or an error, does not
  depend on them.
\<close>

theorem configuration_initialised:
  assumes "listenAddrs c = []" and "users c = []" and "listenAddrs c' = []" and "users c' = []"
  shows "command_line pton dns_defctx c argv = command_line pton dns_defctx c' argv"
  by (simp add: command_line_def parse_config_values assms cong: option.case_cong)

theorem configuration_initialised_witness:
  "command_line local_pton 0 (sample_config\<lparr>linger := 7, netns := ''garbage''\<rparr>) [''-p'', ''1080''] =
     command_line local_pton 0 sample_config [''-p'', ''1080'']"
  by (rule configuration_initialised) (simp_all add: sample_config_def)

text \<open>
  What an option promises of its field: given, it is the number read from the command line and lies
  within the limits; not given, it is the default.  The value of \<open>-ws\<close> is read from \<open>-wc\<close> and limited
  by the workers count; its default is not.
\<close>

definition as_given :: "args \<Rightarrow> string \<Rightarrow> string \<Rightarrow> int \<times> int \<Rightarrow> int \<Rightarrow> int \<Rightarrow> bool" where
  "as_given args key source limits dflt v \<longleftrightarrow>
     (if has_arg args key then atoi (get_arg args source) = Some v \<and> v \<in> {fst limits..snd limits} else v = dflt)"

definition in_bounds :: "args \<Rightarrow> config \<Rightarrow> bool" where
  "in_bounds args c \<longleftrightarrow>
     as_given args ''-wc'' ''-wc'' (1, 1000) 50 (workersCount c) \<and>
     as_given args ''-ws'' ''-wc'' (1, workersCount c) 10 (workersSpawnCount c) \<and>
     as_given args ''-ac'' ''-ac'' (1, 10000) 250 (activeWorkersCount c) \<and>
     as_given args ''-mt'' ''-mt'' (100, 10000) 500 (serviceInterval c) \<and>
     as_given args ''-st'' ''-st'' (100, 60000) 5000 (socketTimeout c) \<and>
     as_given args ''-bsz'' ''-bsz'' (128, 524288) 65536 (TCPBuffSz c) \<and>
     as_given args ''-cf'' ''-cf'' (-1, 600) 30 (linger c) \<and>
     as_given args ''-cmin'' ''-cmin'' (1, 60) 5 (minCtSec c) \<and>
     as_given args ''-cmax'' ''-cmax'' (0, 120) 20 (maxCtSec c) \<and>
     as_given args ''-dt'' ''-dt'' (1, 7200) 60 (rwTimeoutSec c) \<and>
     as_given args ''-hc'' ''-hc'' (1, 7200) 30 (hcTimeoutSec c)"

lemma int_value_as_given:
  "int_value args key source low high msg dflt = Inr v \<Longrightarrow> as_given args key source (low, high) dflt v"
  by (auto simp: int_value_def as_given_def split: if_splits option.splits)

lemma option_valuesD:
  assumes "option_values pton dns_defctx args = Inr c"
  shows "in_bounds args c"
    and "\<exists>p addr. parse_port args = Inr p \<and> listen_value pton args p = Inr addr \<and> listenAddrs c = [addr]"
    and "has_arg args ''-ws'' \<Longrightarrow> has_arg args ''-wc'' \<and> workersSpawnCount c = workersCount c"
    and "\<exists>name. map fst (users c) = [name]"
proof -
  obtain p addr wc ws ac mt st src bsz cf cmin cmax dt hc where
    p: "parse_port args = Inr p" "listen_value pton args p = Inr addr" and
    wc: "int_value args ''-wc'' ''-wc'' 1 1000 ''workers count value is invalid!'' 50 = Inr wc" and
    ws: "int_value args ''-ws'' ''-wc'' 1 wc ''workers swawn count value is invalid!'' 10 = Inr ws" and
    rest: "int_value args ''-ac'' ''-ac'' 1 10000 ''max active workers count value is invalid!'' 250 = Inr ac"
    "int_value args ''-mt'' ''-mt'' 100 10000 ''workers management interval is invalid!'' 500 = Inr mt"
    "int_value args ''-st'' ''-st'' 100 60000 ''socket timeout is invalid!'' 5000 = Inr st"
    "int_value args ''-bsz'' ''-bsz'' 128 524288 ''TCP buffer size is invalid'' 65536 = Inr bsz"
    "int_value args ''-cf'' ''-cf'' (-1) 600 ''Flush timeout value is invalid'' 30 = Inr cf"
    "int_value args ''-dt'' ''-dt'' 1 7200 ''Data R|W timeout is invalid'' 60 = Inr dt"
    "int_value args ''-hc'' ''-hc'' 1 7200 ''Half-closed connection timeout is invalid'' 30 = Inr hc" and
    cmin: "int_value args ''-cmin'' ''-cmin'' 1 60 ''Minimal connection timeout is invalid'' 5 = Inr cmin" and
    cmax: "int_value args ''-cmax'' ''-cmax'' (cmin sdiv 1000) 120 ''Maximum connection timeout is invalid'' 20 = Inr cmax" and
    fields: "workersCount c = wc" "workersSpawnCount c = ws" "activeWorkersCount c = ac" "serviceInterval c = mt"
      "socketTimeout c = st" "TCPBuffSz c = bsz" "linger c = cf" "minCtSec c = cmin" "maxCtSec c = cmax"
      "rwTimeoutSec c = dt" "hcTimeoutSec c = hc" "listenAddrs c = [addr]" "length (users c) = 1"
    using assms unfolding option_values_def by (auto simp: and_then_Inr_iff Let_def split: if_split_asm)
  have "1 \<le> cmin" "cmin \<le> 60" using int_value_range [OF cmin] by simp_all
  then have "cmin sdiv 1000 = 0" by (simp add: sdiv_pos)
  then show "in_bounds args c"
    using wc ws rest cmin cmax by (simp add: in_bounds_def fields int_value_as_given)
  show "\<exists>p addr. parse_port args = Inr p \<and> listen_value pton args p = Inr addr \<and> listenAddrs c = [addr]"
    using p fields by simp
  show "has_arg args ''-wc'' \<and> workersSpawnCount c = workersCount c" if "has_arg args ''-ws''"
    using ws wc that unfolding fields
    by (auto simp: int_value_def get_arg_def has_arg_def split: if_splits option.splits)
  show "\<exists>name. map fst (users c) = [name]" using fields(13) by (auto simp: length_Suc_conv)
qed

lemma c_str_local: "c_str ''127.0.0.1'' = ''127.0.0.1''"
  by code_simp

text \<open>
  C25.  An accepted command line is carried out within its limits: every numeric option that is given
  sets its field to the number on the command line, which lies within the limits of that option (for
  \<open>-ws\<close>, which takes the number of \<open>-wc\<close>, at most the workers count; for \<open>-cmax\<close>, as the code divides,
  at least 0), every one that is not given leaves the default, and the program listens at exactly one
  endpoint, a valid IPv4 address with a port that is not 0 and is the number given with \<open>-p\<close>.
\<close>

theorem command_line_in_bounds:
  assumes "command_line pton dns_defctx c argv = Inr (args, cfg)" and "listenAddrs c = []" and "users c = []"
    and "pton False ''127.0.0.1'' = Some [127, 0, 0, 1]"
  shows "in_bounds args cfg \<and> (\<exists>addr. listenAddrs cfg = [addr] \<and> isValid (address addr) \<and> \<not> isV6 (address addr) \<and>
    port addr \<noteq> 0 \<and> atoi (get_arg args ''-p'') = Some (uint (port addr)))"
proof -
  have opt: "option_values pton dns_defctx args = Inr cfg"
    using assms(1) parse_config_values [OF assms(2,3)]
    by (auto simp: command_line_def and_then_Inr_iff split: option.splits)
  obtain p addr where p: "parse_port args = Inr p" "listen_value pton args p = Inr addr" "listenAddrs cfg = [addr]"
    using option_valuesD(2) [OF opt] by blast
  have range: "1 \<le> p" "p \<le> 65535" "atoi (get_arg args ''-p'') = Some p"
    using p(1) by (auto simp: parse_port_def split: if_splits option.splits)
  have local: "isValid (IPAddress_str pton ''127.0.0.1'')" "\<not> isV6 (IPAddress_str pton ''127.0.0.1'')"
    using assms(4) by (simp_all add: IPAddress_str_def DetectIPVer_def c_str_local)
  have "isValid (address addr)" "\<not> isV6 (address addr)" "port addr = word_of_int p"
    using p(2) local by (auto simp: listen_value_def Let_def split: if_splits)
  moreover have "uint (word_of_int p :: u16) = p" using range by (simp add: uint_word_of_int)
  ultimately show ?thesis
    using option_valuesD(1) [OF opt] p(3) range by (metis not_one_le_zero uint_0_iff)
qed

definition demo_argv :: "string list" where
  "demo_argv = [''-p'', ''1080'', ''-cmin'', ''60'', ''-cmax'', ''0'', ''-wc'', ''5'']"

text \<open>One with a listen address, a spawn count and two options at their lower limits.\<close>

definition full_argv :: "string list" where
  "full_argv = [''-p'', ''1080'', ''-l'', ''127.0.0.1'', ''-wc'', ''20'', ''-ws'', ''7'', ''-ac'', ''1'', ''-cf'', ''-1'']"

definition new_config :: config where
  "new_config = sample_config\<lparr>listenAddrs := [], users := []\<rparr>"

definition demo_config :: config where
  "demo_config = (case command_line local_pton 0 new_config demo_argv of Inl e \<Rightarrow> new_config | Inr (args, cfg) \<Rightarrow> cfg)"

lemma demo_command_line_ok: "(case command_line local_pton 0 new_config demo_argv of Inl e \<Rightarrow> False | Inr r \<Rightarrow> True)"
  by code_simp

text \<open>
  Two oddities of the translation, in one run: without \<open>-ws\<close> fewer workers than are spawned per round,
  and a maximum connection time of 0 below the minimum of 60.
\<close>

lemma demo_config_odd:
  "(workersCount demo_config, workersSpawnCount demo_config, minCtSec demo_config, maxCtSec demo_config) = (5, 10, 60, 0)"
  by code_simp

lemma full_command_line_ok: "(case command_line local_pton 0 new_config full_argv of Inl e \<Rightarrow> False
    | Inr (args, cfg) \<Rightarrow> has_arg args ''-ws'' \<and> has_arg args ''-cf'')"
  by code_simp

theorem command_line_in_bounds_witness:
  "\<exists>args cfg. command_line local_pton 0 new_config full_argv = Inr (args, cfg) \<and>
     workersSpawnCount cfg \<in> {1..workersCount cfg} \<and> linger cfg \<in> {-1..600} \<and>
     (\<exists>addr. listenAddrs cfg = [addr] \<and> isValid (address addr) \<and> port addr \<noteq> 0)"
proof -
  obtain args cfg where run: "command_line local_pton 0 new_config full_argv = Inr (args, cfg)"
      "has_arg args ''-ws''" "has_arg args ''-cf''"
    using full_command_line_ok by (auto split: sum.splits)
  have "listenAddrs new_config = []" "users new_config = []"
    by (simp_all add: new_config_def)
  from command_line_in_bounds [OF run(1) this] run show ?thesis
    by (auto simp: local_pton_def in_bounds_def as_given_def)
qed

text \<open>
  The option \<open>-ws\<close> takes its value from \<open>-wc\<close>: alone it is always refused, and beside \<open>-wc\<close> it makes
  the two numbers equal.
\<close>

lemma spawn_count_from_workers_count:
  assumes "parse_config pton dns_defctx args c = Inr cfg" and "listenAddrs c = []" and "users c = []"
    and "has_arg args ''-ws''"
  shows "has_arg args ''-wc'' \<and> workersSpawnCount cfg = workersCount cfg"
  using option_valuesD(3) [of pton dns_defctx args cfg] parse_config_values [OF assms(2,3)] assms(1,4) by simp

text \<open>Without \<open>-usr\<close> the only user is the anonymous one, whatever \<open>-pwd\<close> says.\<close>

lemma anonymous_without_usr:
  assumes "users c = []" and "\<not> has_arg args ''-usr''"
  shows "users (parse_users args c) = [([], \<lparr>login = [], password = []\<rparr>)]"
  using assms by (simp add: parse_users_eq)

end
