(* ===== verification/Sox_Main.thy ===== *)
theory Sox_Main
  imports Sox_System Command_Line
begin

text \<open>
  \<open>src/Src/Main.cpp\<close>, from the start of the listeners to the end of \<open>main\<close>: the wait for the
  listeners, the privileged part of the start-up, the permission to go on, the loop that waits for
  signals, and the order of the shutdown.

  The process (name spaces, directory, user and group, resolver) is a parameter that answers the
  calls; what the other threads send meanwhile is given for each point where \<open>main\<close> looks at the
  shutdown handler.
\<close>

section \<open>State\<close>

datatype priv_call =
    CallOpen string
  | CallSetns int
  | CallChdir string
  | CallSetgid int
  | CallSetuid int
  | CallDnsInit
  | CallDnsReset
  | CallDnsAddServ string
  | CallDnsAddSrch string

type_synonym process = "priv_call list \<Rightarrow> priv_call \<Rightarrow> int"
type_synonym arrivals = "(ptr \<times> message) list"

text \<open>
  The objects with a thread of their own, each a \<open>WorkerBase\<close>, the state of their threads, and the
  calls \<open>main\<close> makes on them.
\<close>

datatype part = Listener ptr | CommService | Dispatcher
datatype main_action = StartupOf part | RequestShutdownOf part | ShutdownOf part
datatype thread_phase = NotCreated | Runs | Over

record part_thread = worker_base +
  th_phase :: thread_phase

record 'e main_state =
  ms_bus :: broker
  ms_prog :: "'e program"
  ms_calls :: "(priv_call \<times> int) list"
  ms_threads :: "part \<Rightarrow> part_thread"
  ms_acts :: "(main_action \<times> bool) list"

type_synonym 'e main_step = "'e main_state \<Rightarrow> 'e main_state option"

definition main_call :: "process \<Rightarrow> priv_call \<Rightarrow> 'e main_state \<Rightarrow> int \<times> 'e main_state" where
  "main_call pk c s = (let r = pk (map fst (ms_calls s)) c in (r, s\<lparr>ms_calls := ms_calls s @ [(c, r)]\<rparr>))"

text \<open>A message on the bus; \<open>main\<close> sends with the null pointer as sender.\<close>

definition post_message :: "'e program subscribers_iface \<Rightarrow> ptr \<Rightarrow> message \<Rightarrow> 'e main_step" where
  "post_message bus src m s =
     map_option (\<lambda>(b, p). s\<lparr>ms_bus := b, ms_prog := p\<rparr>) (SendMessage 2 bus src m (ms_bus s, ms_prog s))"

abbreviation "nullptr \<equiv> 0 :: ptr"

primrec arrive :: "'e program subscribers_iface \<Rightarrow> arrivals \<Rightarrow> 'e main_step" where
  "arrive bus [] s = Some s"
| "arrive bus (e # es) s = Option.bind (post_message bus (fst e) (snd e) s) (arrive bus es)"

definition shutdown_requested :: "'e main_state \<Rightarrow> bool" where
  "shutdown_requested s \<longleftrightarrow> IsShutdownRequested (shutdownHandler (ms_prog s))"

section \<open>The privileged start-up\<close>

text \<open>\<open>if (!shutdownHandler.IsShutdownRequested() && cond) body\<close>.\<close>

definition unless_shutdown :: "'e program subscribers_iface \<Rightarrow> arrivals \<Rightarrow> bool \<Rightarrow> 'e main_step \<Rightarrow> 'e main_step" where
  "unless_shutdown bus es cond body s =
     Option.bind (arrive bus es s) (\<lambda>s. if \<not> shutdown_requested s \<and> cond then body s else Some s)"

text \<open>A call whose failure is answered with a shutdown request.\<close>

definition checked_call :: "'e program subscribers_iface \<Rightarrow> process \<Rightarrow> priv_call \<Rightarrow> (int \<Rightarrow> bool) \<Rightarrow> 'e main_step" where
  "checked_call bus pk c failed s =
     (let (r, s1) = main_call pk c s
      in if failed r then post_message bus nullptr (ShutdownMessage 1) s1 else Some s1)"

definition setup_netns :: "'e program subscribers_iface \<Rightarrow> process \<Rightarrow> config \<Rightarrow> arrivals \<Rightarrow> 'e main_step" where
  "setup_netns bus pk cfg es s =
     (let (nFD, s1) = main_call pk (CallOpen (GetNetNS cfg)) s
      in if nFD < 0 then post_message bus nullptr (ShutdownMessage 1) s1
         else unless_shutdown bus es True (checked_call bus pk (CallSetns nFD) (\<lambda>r. r < 0)) s1)"

text \<open>The two numeric identities; an argument out of range of \<open>int\<close> is undefined behaviour, \<open>None\<close>.\<close>

definition change_id :: "'e program subscribers_iface \<Rightarrow> process \<Rightarrow> args \<Rightarrow> string \<Rightarrow> (int \<Rightarrow> priv_call) \<Rightarrow> 'e main_step" where
  "change_id bus pk args key call s =
     (case atoi (get_arg args key) of
        None \<Rightarrow> None
      | Some n \<Rightarrow> if n < 1 then post_message bus nullptr (ShutdownMessage 1) s
                  else checked_call bus pk (call n) (\<lambda>r. r < 0) s)"

definition init_udns :: "'e program subscribers_iface \<Rightarrow> process \<Rightarrow> pton \<Rightarrow> ntop \<Rightarrow> args \<Rightarrow> 'e main_step" where
  "init_udns bus pk pton ntop args s =
     (if \<not> has_arg args ''-dns'' then Some (snd (main_call pk CallDnsInit s))
      else checked_call bus pk (CallDnsAddServ (IPAddress_ToString ntop (IPAddress_str pton (get_arg args ''-dns''))))
             (\<lambda>r. r \<noteq> 1) (snd (main_call pk CallDnsReset s)))"

text \<open>\<open>es i\<close> arrives before the \<open>i\<close>th look at the shutdown handler.\<close>

definition privileged_setup :: "'e program subscribers_iface \<Rightarrow> process \<Rightarrow> pton \<Rightarrow> ntop \<Rightarrow> config \<Rightarrow> args \<Rightarrow>
    (nat \<Rightarrow> arrivals) \<Rightarrow> 'e main_step" where
  "privileged_setup bus pk pton ntop cfg args es s =
     Option.bind (unless_shutdown bus (es 0) (GetNetNS cfg \<noteq> []) (setup_netns bus pk cfg (es 1)) s) (\<lambda>s.
     Option.bind (unless_shutdown bus (es 2) (has_arg args ''-cd'')
       (checked_call bus pk (CallChdir (get_arg args ''-cd'')) (\<lambda>r. r < 0)) s) (\<lambda>s.
     Option.bind (unless_shutdown bus (es 3) (has_arg args ''-rg'') (change_id bus pk args ''-rg'' CallSetgid) s) (\<lambda>s.
     Option.bind (unless_shutdown bus (es 4) (has_arg args ''-ru'') (change_id bus pk args ''-ru'' CallSetuid) s) (\<lambda>s.
     Option.bind (unless_shutdown bus (es 5) True (init_udns bus pk pton ntop args) s) (\<lambda>s.
     unless_shutdown bus (es 6) (GetUDNSSearchDomainIsSet cfg)
       (checked_call bus pk (CallDnsAddSrch (get_arg args ''-src'')) (\<lambda>r. r < 0)) s)))))"

text \<open>
  From the wait to the start of the background workers.  The wait ends when the start-up handler lets
  it; the first component tells whether it did.
\<close>

primrec wait_ready :: "'e program subscribers_iface \<Rightarrow> arrivals \<Rightarrow> 'e main_state \<Rightarrow> (bool \<times> 'e main_state) option" where
  "wait_ready bus [] s = Some (fst (WaitForStartupReady [] (startupHandler (ms_prog s))), s)"
| "wait_ready bus (e # es) s =
     (if fst (WaitForStartupReady [] (startupHandler (ms_prog s))) then Some (True, s)
      else Option.bind (post_message bus (fst e) (snd e) s) (wait_ready bus es))"

definition startup_phase :: "'e program subscribers_iface \<Rightarrow> process \<Rightarrow> pton \<Rightarrow> ntop \<Rightarrow> config \<Rightarrow> args \<Rightarrow> arrivals \<Rightarrow>
    (nat \<Rightarrow> arrivals) \<Rightarrow> 'e main_state \<Rightarrow> (bool \<times> 'e main_state) option" where
  "startup_phase bus pk pton ntop cfg args es0 es s =
     Option.bind (wait_ready bus es0 s) (\<lambda>(ready, s1).
       if \<not> ready then Some (False, s1)
       else Option.bind (privileged_setup bus pk pton ntop cfg args es s1) (\<lambda>s2.
            map_option (Pair True) (post_message bus nullptr StartupContinueMessage s2)))"

section \<open>Signals\<close>

definition SIGINT :: int where "SIGINT = 2"
definition SIGUSR2 :: int where "SIGUSR2 = 12"

text \<open>One turn per \<open>sigtimedwait\<close>, with what arrived before it, its result and \<open>errno\<close>.\<close>

primrec signal_loop :: "'e program subscribers_iface \<Rightarrow> (arrivals \<times> int \<times> int) list \<Rightarrow> 'e main_state \<Rightarrow>
    (bool \<times> 'e main_state) option" where
  "signal_loop bus [] s = Some (False, s)"
| "signal_loop bus (turn # turns) s =
     (let (es, signal, error) = turn
      in Option.bind (arrive bus es s) (\<lambda>s1.
         if signal < 0 \<and> error \<noteq> EAGAIN \<and> error \<noteq> EINTR then Some (True, s1)
         else if signal > 0 \<and> signal \<noteq> SIGUSR2 \<and> signal \<noteq> SIGINT then Some (True, s1)
         else if shutdown_requested s1 then Some (True, s1)
         else signal_loop bus turns s1))"

section \<open>What the privileged calls amount to\<close>

definition ms_ok :: "layout \<Rightarrow> 'e main_state \<Rightarrow> bool" where
  "ms_ok L s \<longleftrightarrow> layout_ok L \<and> ms_bus s = program_bus L \<and> map fst (serverListeners (ms_prog s)) = listeners_at L"

text \<open>Neither the start-up nor the signal loop touches the threads, and the permission is not taken back.\<close>

definition permitted :: "'e program \<Rightarrow> bool" where
  "permitted p \<longleftrightarrow> (\<forall>(q, l) \<in> set (serverListeners p). l_startupAllowed l)"

definition main_ok :: "layout \<Rightarrow> bool \<Rightarrow> 'e main_state \<Rightarrow> 'e main_state \<Rightarrow> bool" where
  "main_ok L allowed s0 s \<longleftrightarrow> ms_ok L s \<and> ms_threads s = ms_threads s0 \<and> ms_acts s = ms_acts s0 \<and>
     (allowed \<longrightarrow> permitted (ms_prog s))"

lemma main_okD: "main_ok L allowed s0 s \<Longrightarrow> ms_ok L s" "ms_ok L s \<Longrightarrow> main_ok L False s s"
  by (simp_all add: main_ok_def)

definition call_failed :: "priv_call \<times> int \<Rightarrow> bool" where
  "call_failed cr \<longleftrightarrow> (case fst cr of CallDnsInit \<Rightarrow> False | CallDnsReset \<Rightarrow> False
     | CallDnsAddServ serv \<Rightarrow> snd cr \<noteq> 1 | _ \<Rightarrow> snd cr < 0)"

text \<open>What is said of a sequence of calls and their results.\<close>

type_synonym call_spec = "(priv_call \<times> int) list \<Rightarrow> bool"

text \<open>
  \<open>runs_to ok X s m\<close>: from \<open>s\<close> the step returns; only the last of the calls it makes can have failed,
  and if no shutdown is requested after it, the calls are a sequence in \<open>X\<close> and all succeeded.
  \<open>adds ok X m\<close>: this holds from every state without a shutdown request, and a step that finds one
  makes no call.
\<close>

definition runs_to :: "('e main_state \<Rightarrow> bool) \<Rightarrow> call_spec \<Rightarrow> 'e main_state \<Rightarrow> 'e main_step \<Rightarrow> bool" where
  "runs_to ok X s m \<longleftrightarrow> (\<exists>s' new. m s = Some s' \<and> ok s' \<and> ms_calls s' = ms_calls s @ new \<and>
     list_all (Not \<circ> call_failed) (butlast new) \<and>
     (\<not> shutdown_requested s' \<longrightarrow> X new \<and> list_all (Not \<circ> call_failed) new))"

definition idles :: "('e main_state \<Rightarrow> bool) \<Rightarrow> 'e main_state \<Rightarrow> 'e main_step \<Rightarrow> bool" where
  "idles ok s m \<longleftrightarrow> (\<exists>s'. m s = Some s' \<and> ok s' \<and> ms_calls s' = ms_calls s \<and> shutdown_requested s')"

definition adds :: "('e main_state \<Rightarrow> bool) \<Rightarrow> call_spec \<Rightarrow> 'e main_step \<Rightarrow> bool" where
  "adds ok X m \<longleftrightarrow> (\<forall>s. ok s \<longrightarrow> (if shutdown_requested s then idles ok s m else runs_to ok X s m))"

definition calls_are :: "priv_call list \<Rightarrow> call_spec" where
  "calls_are cs xs \<longleftrightarrow> map fst xs = cs"

definition followed_by :: "call_spec \<Rightarrow> call_spec \<Rightarrow> call_spec" where
  "followed_by X Y zs \<longleftrightarrow> (\<exists>xs ys. zs = xs @ ys \<and> X xs \<and> Y ys)"

named_theorems adds_intros

lemma butlast_ok: "list_all P xs \<Longrightarrow> list_all P (butlast ys) \<Longrightarrow> list_all P (butlast (xs @ ys))"
  by (auto simp: butlast_append list_all_iff dest: in_set_butlastD)

lemma addsD:
  assumes "adds ok X m" and "ok s"
  shows "shutdown_requested s \<Longrightarrow> idles ok s m" and "\<not> shutdown_requested s \<Longrightarrow> runs_to ok X s m"
  using assms by (force simp: adds_def)+

lemma adds_returns: "adds ok X m \<Longrightarrow> ok s \<Longrightarrow> \<exists>s'. m s = Some s' \<and> ok s'"
  using addsD [of ok X m s] by (cases "shutdown_requested s") (auto simp: idles_def runs_to_def)

lemma adds_bind [adds_intros]:
  assumes "adds ok X m" and "adds ok Y m'"
  shows "adds ok (followed_by X Y) (\<lambda>s. Option.bind (m s) m')"
  unfolding adds_def
proof (intro allI impI)
  fix s assume s: "ok s"
  show "if shutdown_requested s then idles ok s (\<lambda>s. Option.bind (m s) m')
    else runs_to ok (followed_by X Y) s (\<lambda>s. Option.bind (m s) m')"
  proof (cases "shutdown_requested s")
    case True
    then obtain s1 where one: "m s = Some s1" "ok s1" "ms_calls s1 = ms_calls s" "shutdown_requested s1"
      using addsD(1) [OF assms(1) s] by (auto simp: idles_def)
    then show ?thesis using addsD(1) [OF assms(2) one(2)] True by (auto simp: idles_def)
  next
    case False
    then obtain s1 new where one: "m s = Some s1" "ok s1" "ms_calls s1 = ms_calls s @ new"
        "list_all (Not \<circ> call_failed) (butlast new)"
        "\<not> shutdown_requested s1 \<longrightarrow> X new \<and> list_all (Not \<circ> call_failed) new"
      using addsD(2) [OF assms(1) s] unfolding runs_to_def by blast
    show ?thesis
    proof (cases "shutdown_requested s1")
      case True
      then obtain s2 where "m' s1 = Some s2" "ok s2" "ms_calls s2 = ms_calls s1" "shutdown_requested s2"
        using addsD(1) [OF assms(2) one(2)] by (auto simp: idles_def)
      then show ?thesis using False one by (auto simp: runs_to_def)
    next
      case ok1: False
      then obtain s2 new2 where two: "m' s1 = Some s2" "ok s2" "ms_calls s2 = ms_calls s1 @ new2"
          "list_all (Not \<circ> call_failed) (butlast new2)"
          "\<not> shutdown_requested s2 \<longrightarrow> Y new2 \<and> list_all (Not \<circ> call_failed) new2"
        using addsD(2) [OF assms(2) one(2)] unfolding runs_to_def by blast
      have "list_all (Not \<circ> call_failed) (butlast (new @ new2))" using butlast_ok one(5) ok1 two(4) by blast
      moreover have "followed_by X Y (new @ new2) \<and> list_all (Not \<circ> call_failed) (new @ new2)"
        if "\<not> shutdown_requested s2"
        using one(5) ok1 two(5) that unfolding followed_by_def by auto
      ultimately show ?thesis using False one(1,3) two(1-3) by (auto simp: runs_to_def intro!: exI [of _ "new @ new2"])
    qed
  qed
qed

text \<open>What the whole sequence adds, step by step.\<close>

definition netns_spec :: "string \<Rightarrow> call_spec" where
  "netns_spec path xs \<longleftrightarrow> (\<exists>nFD r. xs = [(CallOpen path, nFD), (CallSetns nFD, r)])"

definition udns_calls :: "pton \<Rightarrow> ntop \<Rightarrow> args \<Rightarrow> priv_call list" where
  "udns_calls pton ntop args =
     (if has_arg args ''-dns''
      then [CallDnsReset, CallDnsAddServ (IPAddress_ToString ntop (IPAddress_str pton (get_arg args ''-dns'')))]
      else [CallDnsInit])"

definition setup_spec :: "pton \<Rightarrow> ntop \<Rightarrow> config \<Rightarrow> args \<Rightarrow> int \<Rightarrow> int \<Rightarrow> call_spec" where
  "setup_spec pton ntop cfg args gid uid =
    followed_by (if GetNetNS cfg \<noteq> [] then netns_spec (GetNetNS cfg) else (\<lambda>xs. xs = []))
    (followed_by (if has_arg args ''-cd'' then calls_are [CallChdir (get_arg args ''-cd'')] else (\<lambda>xs. xs = []))
    (followed_by (if has_arg args ''-rg'' then (\<lambda>xs. calls_are [CallSetgid gid] xs \<and> 1 \<le> gid) else (\<lambda>xs. xs = []))
    (followed_by (if has_arg args ''-ru'' then (\<lambda>xs. calls_are [CallSetuid uid] xs \<and> 1 \<le> uid) else (\<lambda>xs. xs = []))
    (followed_by (if True then calls_are (udns_calls pton ntop args) else (\<lambda>xs. xs = []))
    (if GetUDNSSearchDomainIsSet cfg then calls_are [CallDnsAddSrch (get_arg args ''-src'')] else (\<lambda>xs. xs = []))))))"

text \<open>A turn of the signal loop that ends it.\<close>

definition ends_loop :: "arrivals \<times> int \<times> int \<Rightarrow> bool" where
  "ends_loop t \<longleftrightarrow> (case t of (es, signal, error) \<Rightarrow> asked_shutdown es \<or>
     signal < 0 \<and> error \<noteq> EAGAIN \<and> error \<noteq> EINTR \<or> signal > 0 \<and> signal \<noteq> SIGUSR2 \<and> signal \<noteq> SIGINT)"

text \<open>What the start-up relies on of the bus: messages return, and only shutdown messages request a shutdown.\<close>

locale shutdown_bus =
  fixes bus :: "'e program subscribers_iface" and ok :: "'e main_state \<Rightarrow> bool"
  assumes post_ok: "ok s \<Longrightarrow> \<exists>s'. post_message bus src m s = Some s' \<and> ok s' \<and> ms_calls s' = ms_calls s \<and>
      (shutdown_requested s' \<longleftrightarrow> shutdown_requested s \<or> msgType m = MSG_SHUTDOWN)"
    and ok_call: "ok (s\<lparr>ms_calls := cs\<rparr>) = ok s"
begin

lemma arrive_ok:
  "ok s \<Longrightarrow> \<exists>s'. arrive bus es s = Some s' \<and> ok s' \<and> ms_calls s' = ms_calls s \<and>
     (shutdown_requested s \<longrightarrow> shutdown_requested s')"
proof (induction es arbitrary: s)
  case (Cons e es)
  obtain s1 where one: "post_message bus (fst e) (snd e) s = Some s1" "ok s1" "ms_calls s1 = ms_calls s"
      "shutdown_requested s \<longrightarrow> shutdown_requested s1"
    using post_ok [OF Cons.prems] by blast
  then show ?case using Cons.IH [OF one(2)] by auto
qed simp

lemma arrive_requests:
  "ok s \<Longrightarrow> \<exists>s'. arrive bus es s = Some s' \<and> ok s' \<and> (shutdown_requested s' \<longleftrightarrow> shutdown_requested s \<or> asked_shutdown es)"
proof (induction es arbitrary: s)
  case (Cons e es)
  obtain s1 where one: "post_message bus (fst e) (snd e) s = Some s1" "ok s1"
      "shutdown_requested s1 \<longleftrightarrow> shutdown_requested s \<or> msgType (snd e) = MSG_SHUTDOWN"
    using post_ok [OF Cons.prems] by blast
  then show ?case using Cons.IH [OF one(2)] by (auto simp: asked_shutdown_def)
qed (simp add: asked_shutdown_def)

text \<open>The loop is left in the first turn with a reason to leave it.\<close>

lemma signal_loop_leaves:
  "ok s \<Longrightarrow> \<exists>b s'. signal_loop bus turns s = Some (b, s') \<and> ok s' \<and>
     (b \<longleftrightarrow> turns \<noteq> [] \<and> shutdown_requested s \<or> (\<exists>t \<in> set turns. ends_loop t))"
proof (induction turns arbitrary: s)
  case (Cons t turns)
  obtain es signal error where t: "t = (es, signal, error)" by (cases t)
  obtain s1 where one: "arrive bus es s = Some s1" "ok s1"
      "shutdown_requested s1 \<longleftrightarrow> shutdown_requested s \<or> asked_shutdown es"
    using arrive_requests [OF Cons.prems] by blast
  show ?case
  proof (cases "ends_loop t \<or> shutdown_requested s")
    case True
    then have "signal_loop bus (t # turns) s = Some (True, s1)"
      using one t by (auto simp: ends_loop_def)
    then show ?thesis using True one(2) by (intro exI [of _ True]) auto
  next
    case False
    then have "signal_loop bus (t # turns) s = signal_loop bus turns s1" and "\<not> shutdown_requested s1"
      using one t by (auto simp: ends_loop_def)
    then show ?thesis using Cons.IH [OF one(2)] False by auto
  qed
qed (auto intro: exI [of _ False])

lemma unless_shutdown_adds:
  assumes "\<And>s. cond \<Longrightarrow> ok s \<Longrightarrow> \<not> shutdown_requested s \<Longrightarrow> runs_to ok X s body"
  shows "adds ok (if cond then X else (\<lambda>xs. xs = [])) (unless_shutdown bus es cond body)"
  unfolding adds_def
proof (intro allI impI)
  fix s assume "ok s"
  then obtain s1 where s1: "arrive bus es s = Some s1" "ok s1" "ms_calls s1 = ms_calls s"
      "shutdown_requested s \<longrightarrow> shutdown_requested s1"
    using arrive_ok by blast
  show "if shutdown_requested s then idles ok s (unless_shutdown bus es cond body)
    else runs_to ok (if cond then X else (\<lambda>xs. xs = [])) s (unless_shutdown bus es cond body)"
  proof (cases "shutdown_requested s1 \<or> \<not> cond")
    case True
    then show ?thesis using s1 by (auto simp: unless_shutdown_def idles_def runs_to_def)
  next
    case False
    then show ?thesis using s1 assms [of s1] by (auto simp: unless_shutdown_def idles_def runs_to_def)
  qed
qed

lemma checked_call_runs:
  assumes "ok s" and "\<And>r. failed r = call_failed (c, r)"
  shows "runs_to ok (calls_are [c]) s (checked_call bus pk c failed)"
proof -
  obtain r s1 where call: "main_call pk c s = (r, s1)" by fastforce
  then have s1: "ok s1" "ms_calls s1 = ms_calls s @ [(c, r)]" using assms(1) ok_call by (auto simp: main_call_def Let_def)
  show ?thesis
  proof (cases "failed r")
    case True
    obtain s2 where "post_message bus nullptr (ShutdownMessage 1) s1 = Some s2" "ok s2" "ms_calls s2 = ms_calls s1"
        "shutdown_requested s2"
      using post_ok [OF s1(1), of nullptr "ShutdownMessage 1"] by auto
    then show ?thesis using True call s1 by (simp add: checked_call_def runs_to_def)
  next
    case False
    then show ?thesis using call s1 assms(2) by (simp add: checked_call_def runs_to_def calls_are_def)
  qed
qed

lemma fail_runs:
  assumes "ok s" and "\<not> shutdown_requested s" and "list_all (Not \<circ> call_failed) (butlast new)"
  shows "ok (s\<lparr>ms_calls := ms_calls s @ new\<rparr>) \<and> (\<exists>s'. post_message bus nullptr (ShutdownMessage 1)
    (s\<lparr>ms_calls := ms_calls s @ new\<rparr>) = Some s' \<and> ok s' \<and> ms_calls s' = ms_calls s @ new \<and> shutdown_requested s')"
  using post_ok [of "s\<lparr>ms_calls := ms_calls s @ new\<rparr>" nullptr "ShutdownMessage 1"] assms(1) ok_call by auto

lemma setup_netns_runs:
  assumes "ok s" and "\<not> shutdown_requested s"
  shows "runs_to ok (netns_spec (GetNetNS cfg)) s (setup_netns bus pk cfg es)"
proof -
  obtain nFD s1 where call: "main_call pk (CallOpen (GetNetNS cfg)) s = (nFD, s1)" by fastforce
  then have s1: "s1 = s\<lparr>ms_calls := ms_calls s @ [(CallOpen (GetNetNS cfg), nFD)]\<rparr>" by (auto simp: main_call_def Let_def)
  then have ok1: "ok s1" "\<not> shutdown_requested s1" using assms ok_call by (simp_all add: shutdown_requested_def)
  show ?thesis
  proof (cases "nFD < 0")
    case True
    then show ?thesis
      using fail_runs [OF assms, of "[(CallOpen (GetNetNS cfg), nFD)]"] call s1
      by (auto simp: setup_netns_def runs_to_def)
  next
    case False
    have "runs_to ok (calls_are [CallSetns nFD]) s1
        (unless_shutdown bus es True (checked_call bus pk (CallSetns nFD) (\<lambda>r. r < 0)))"
      using addsD(2) [OF unless_shutdown_adds [where cond = True] ok1]
      by (simp add: checked_call_runs call_failed_def)
    then obtain s2 new where two: "unless_shutdown bus es True (checked_call bus pk (CallSetns nFD) (\<lambda>r. r < 0)) s1 = Some s2"
        "ok s2" "ms_calls s2 = ms_calls s1 @ new" "list_all (Not \<circ> call_failed) (butlast new)"
        "\<not> shutdown_requested s2 \<longrightarrow> calls_are [CallSetns nFD] new \<and> list_all (Not \<circ> call_failed) new"
      unfolding runs_to_def by (elim exE conjE) (rule that)
    have "\<not> call_failed (CallOpen (GetNetNS cfg), nFD)" using False by (simp add: call_failed_def)
    then show ?thesis
      using False call two s1
      by (auto simp: setup_netns_def runs_to_def calls_are_def netns_spec_def intro!: exI [of _ "(CallOpen (GetNetNS cfg), nFD) # new"])
  qed
qed

lemma change_id_runs:
  assumes "ok s" and "\<not> shutdown_requested s" and "atoi (get_arg args key) = Some n"
    and "\<And>r. call_failed (call n, r) \<longleftrightarrow> r < 0"
  shows "runs_to ok (\<lambda>xs. calls_are [call n] xs \<and> 1 \<le> n) s (change_id bus pk args key call)"
proof (cases "n < 1")
  case True
  then show ?thesis
    using fail_runs [OF assms(1,2), of "[]"] assms(3) by (auto simp: change_id_def runs_to_def)
next
  case False
  then show ?thesis
    using checked_call_runs [OF assms(1), of "\<lambda>r. r < 0" "call n" pk] assms(3,4)
    by (auto simp: change_id_def runs_to_def)
qed

lemma init_udns_runs:
  assumes "ok s" and "\<not> shutdown_requested s"
  shows "runs_to ok (calls_are (udns_calls pton ntop args)) s (init_udns bus pk pton ntop args)"
proof -
  have call: "\<exists>r. main_call pk c s = (r, s\<lparr>ms_calls := ms_calls s @ [(c, r)]\<rparr>)" for c
    by (simp add: main_call_def Let_def)
  show ?thesis
  proof (cases "has_arg args ''-dns''")
    case False
    obtain r where "main_call pk CallDnsInit s = (r, s\<lparr>ms_calls := ms_calls s @ [(CallDnsInit, r)]\<rparr>)" using call by blast
    then show ?thesis using False assms ok_call
      by (auto simp: init_udns_def runs_to_def call_failed_def shutdown_requested_def calls_are_def udns_calls_def)
  next
    case True
    let ?c = "CallDnsAddServ (IPAddress_ToString ntop (IPAddress_str pton (get_arg args ''-dns'')))"
    obtain r where r: "main_call pk CallDnsReset s = (r, s\<lparr>ms_calls := ms_calls s @ [(CallDnsReset, r)]\<rparr>)" using call by blast
    have "ok (s\<lparr>ms_calls := ms_calls s @ [(CallDnsReset, r)]\<rparr>)" using assms(1) ok_call by simp
    from checked_call_runs [OF this, of "\<lambda>r. r \<noteq> 1" ?c pk]
    obtain s2 new where two: "checked_call bus pk ?c (\<lambda>r. r \<noteq> 1) (s\<lparr>ms_calls := ms_calls s @ [(CallDnsReset, r)]\<rparr>) = Some s2"
        "ok s2" "ms_calls s2 = (ms_calls s @ [(CallDnsReset, r)]) @ new" "list_all (Not \<circ> call_failed) (butlast new)"
        "\<not> shutdown_requested s2 \<longrightarrow> calls_are [?c] new \<and> list_all (Not \<circ> call_failed) new"
      by (auto simp: runs_to_def call_failed_def)
    moreover have "\<not> call_failed (CallDnsReset, r)" by (simp add: call_failed_def)
    ultimately show ?thesis
      using True r
      by (auto simp: init_udns_def runs_to_def calls_are_def udns_calls_def intro!: exI [of _ "(CallDnsReset, r) # new"])
  qed
qed

lemma privileged_setup_adds:
  assumes "has_arg args ''-rg'' \<Longrightarrow> atoi (get_arg args ''-rg'') = Some gid"
    and "has_arg args ''-ru'' \<Longrightarrow> atoi (get_arg args ''-ru'') = Some uid"
  shows "adds ok (setup_spec pton ntop cfg args gid uid)
    (privileged_setup bus pk pton ntop cfg args es)"
  unfolding privileged_setup_def setup_spec_def
  by (intro adds_bind unless_shutdown_adds setup_netns_runs checked_call_runs change_id_runs init_udns_runs assms)
    (simp_all add: call_failed_def)

end

text \<open>The bus of the program keeps this contract.\<close>

lemma post_react:
  assumes "ms_ok L s"
  shows "post_message (program_subscribers L fac err who) src m s =
    Some (s\<lparr>ms_bus := program_bus L, ms_prog := react fac err who src m (ms_prog s)\<rparr>)"
  using assms messages_react [of L "ms_prog s"] by (simp add: post_message_def ms_ok_def)

lemma react_listeners: "map fst (serverListeners (react fac err who src m p)) = map fst (serverListeners p)"
  unfolding react_eq by (simp add: split_beta o_def)

lemma react_permitted: "permitted p \<Longrightarrow> permitted (react fac err who src m p)"
  unfolding react_eq permitted_def by (cases m) (auto simp: listener_reacts_def listener_OnMessage_def)

lemma post_main_ok:
  assumes "main_ok L allowed s0 s"
  shows "main_ok L allowed s0 (s\<lparr>ms_bus := program_bus L, ms_prog := react fac err who src m (ms_prog s)\<rparr>)"
  using assms react_permitted [of "ms_prog s" fac err who src m] react_listeners [of fac err who src m "ms_prog s"]
  by (simp add: main_ok_def ms_ok_def)

interpretation sox_bus: shutdown_bus "program_subscribers L fac err who" "main_ok L allowed s0" for L fac err who allowed s0
proof unfold_locales
  fix s :: "'a main_state" and src m
  assume ok: "main_ok L allowed s0 s"
  let ?p = "react fac err who src m (ms_prog s)"
  have "IsShutdownRequested (shutdownHandler ?p) \<longleftrightarrow>
      IsShutdownRequested (shutdownHandler (ms_prog s)) \<or> msgType m = MSG_SHUTDOWN"
    unfolding react_eq by (cases m) (auto simp: shutdown_reacts_def shutdown_OnMessage_def IsShutdownRequested_def)
  then show "\<exists>s'. post_message (program_subscribers L fac err who) src m s = Some s' \<and> main_ok L allowed s0 s' \<and>
      ms_calls s' = ms_calls s \<and> (shutdown_requested s' \<longleftrightarrow> shutdown_requested s \<or> msgType m = MSG_SHUTDOWN)"
    using post_react [OF main_okD(1) [OF ok], of fac err who src m] post_main_ok [OF ok, of fac err who src m]
    by (simp add: shutdown_requested_def)
qed (simp add: main_ok_def ms_ok_def)

text \<open>
  The calls that an unprivileged, confined program needs, in the order of \<open>main\<close>; \<open>nFD\<close> is the name
  space that was opened.
\<close>

definition required_calls :: "pton \<Rightarrow> ntop \<Rightarrow> config \<Rightarrow> args \<Rightarrow> int \<Rightarrow> int \<Rightarrow> int \<Rightarrow> priv_call list" where
  "required_calls pton ntop cfg args nFD gid uid =
     (if GetNetNS cfg \<noteq> [] then [CallOpen (GetNetNS cfg), CallSetns nFD] else []) @
     (if has_arg args ''-cd'' then [CallChdir (get_arg args ''-cd'')] else []) @
     (if has_arg args ''-rg'' then [CallSetgid gid] else []) @
     (if has_arg args ''-ru'' then [CallSetuid uid] else []) @
     udns_calls pton ntop args @
     (if GetUDNSSearchDomainIsSet cfg then [CallDnsAddSrch (get_arg args ''-src'')] else [])"

lemma followed_by_calls:
  "followed_by (if c then netns_spec path else (\<lambda>xs. xs = [])) Y zs \<Longrightarrow>
     \<exists>ys. map fst zs = (if c then [CallOpen path, CallSetns (snd (hd zs))] else []) @ map fst ys \<and> Y ys"
  "followed_by (if c then calls_are as else (\<lambda>xs. xs = [])) Y zs \<Longrightarrow>
     \<exists>ys. map fst zs = (if c then as else []) @ map fst ys \<and> Y ys"
  "followed_by (if c then (\<lambda>xs. calls_are as xs \<and> P) else (\<lambda>xs. xs = [])) Y zs \<Longrightarrow>
     \<exists>ys. map fst zs = (if c then as else []) @ map fst ys \<and> (c \<longrightarrow> P) \<and> Y ys"
  by (auto simp: followed_by_def netns_spec_def calls_are_def split: if_splits)

lemma setup_spec_required:
  assumes "setup_spec pton ntop cfg args gid uid zs"
  shows "map fst zs = required_calls pton ntop cfg args (snd (hd zs)) gid uid"
    and "has_arg args ''-rg'' \<longrightarrow> 1 \<le> gid" and "has_arg args ''-ru'' \<longrightarrow> 1 \<le> uid"
  using assms unfolding setup_spec_def required_calls_def
  by (auto simp del: if_True split del: if_split dest!: followed_by_calls)
    (auto simp: calls_are_def split: if_splits)

text \<open>
  C9.  The program goes on confined or it goes down.  Whatever the process answers and whatever the
  other threads send meanwhile, the privileged start-up returns; it stops at the first call that
  fails; and if no shutdown is requested afterwards, then the name space, the directory, the group,
  the user and the resolver were all set, in this order, every one of the calls succeeded, the
  group and the user are not 0, and the name space that was entered is the one that was opened: the
  descriptor given to \<open>setns\<close> is the answer to the first call, which opened the configured path.
\<close>

theorem confined_or_shutdown:
  assumes "ms_ok L s" and "ms_calls s = []" and "\<not> shutdown_requested s"
    and "has_arg args ''-rg'' \<Longrightarrow> atoi (get_arg args ''-rg'') = Some gid"
    and "has_arg args ''-ru'' \<Longrightarrow> atoi (get_arg args ''-ru'') = Some uid"
  shows "\<exists>s'. privileged_setup (program_subscribers L fac err who) pk pton ntop cfg args es s = Some s' \<and>
    list_all (Not \<circ> call_failed) (butlast (ms_calls s')) \<and>
    (\<not> shutdown_requested s' \<longrightarrow> list_all (Not \<circ> call_failed) (ms_calls s') \<and>
      map fst (ms_calls s') = required_calls pton ntop cfg args (snd (hd (ms_calls s'))) gid uid \<and>
      (has_arg args ''-rg'' \<longrightarrow> 1 \<le> gid) \<and> (has_arg args ''-ru'' \<longrightarrow> 1 \<le> uid))"
proof -
  obtain s' where s': "privileged_setup (program_subscribers L fac err who) pk pton ntop cfg args es s = Some s'"
      "list_all (Not \<circ> call_failed) (butlast (ms_calls s'))" and
    fin: "\<not> shutdown_requested s' \<longrightarrow>
      list_all (Not \<circ> call_failed) (ms_calls s') \<and> setup_spec pton ntop cfg args gid uid (ms_calls s')"
    using addsD(2) [OF sox_bus.privileged_setup_adds [OF assms(4,5)] main_okD(2) [OF assms(1)] assms(3)] assms(2)
    unfolding runs_to_def by (metis append_Nil)
  have "map fst (ms_calls s') = required_calls pton ntop cfg args (snd (hd (ms_calls s'))) gid uid \<and>
      (has_arg args ''-rg'' \<longrightarrow> 1 \<le> gid) \<and> (has_arg args ''-ru'' \<longrightarrow> 1 \<le> uid)" if "\<not> shutdown_requested s'"
    using fin that setup_spec_required [of pton ntop cfg args gid uid "ms_calls s'"] by simp
  then show ?thesis using s' fin by blast
qed

text \<open>A process that grants everything, and the same one with a group that cannot be set.\<close>

definition granting :: process where
  "granting calls c = (case c of CallOpen path \<Rightarrow> 11 | CallDnsAddServ serv \<Rightarrow> 1 | _ \<Rightarrow> 0)"

definition demo_args :: args where
  "demo_args = [(''-p'', ''1080''), (''-cd'', ''/''), (''-rg'', ''99''), (''-ru'', ''99'')]"

definition demo_start :: "(claim_heap \<times> service) main_state" where
  "demo_start = \<lparr>ms_bus = program_bus demo_layout, ms_prog = demo_program, ms_calls = [],
     ms_threads = (\<lambda>p. \<lparr>workerStarted = False, th_phase = NotCreated\<rparr>), ms_acts = []\<rparr>"

abbreviation "demo_bus \<equiv> program_subscribers demo_layout (sox_factory demo_kernel) 0 SOther"

abbreviation "demo_ntop \<equiv> (\<lambda>v6 bs. ''127.0.0.1'') :: ntop"

lemma demo_start_ok: "ms_ok demo_layout demo_start" "ms_calls demo_start = []" "\<not> shutdown_requested demo_start"
  using demo_program_ok
  by (simp_all add: ms_ok_def demo_start_def shutdown_requested_def IsShutdownRequested_def demo_program_def
      initial_program_def ShutdownHandler_def)

lemma demo_atoi: "atoi (get_arg demo_args ''-rg'') = Some 99" "atoi (get_arg demo_args ''-ru'') = Some 99"
  by code_simp+

theorem confined_or_shutdown_witness:
  "\<exists>s'. privileged_setup demo_bus granting local_pton demo_ntop demo_config demo_args (\<lambda>i. if i = 4 then [(3, ShutdownMessage 98)] else [])
      demo_start = Some s' \<and> list_all (Not \<circ> call_failed) (butlast (ms_calls s'))"
  using confined_or_shutdown [OF demo_start_ok demo_atoi] by blast

section \<open>The permission\<close>

lemma post_continue:
  assumes "main_ok L allowed s0 s"
  shows "\<exists>s'. post_message (program_subscribers L fac err who) src StartupContinueMessage s = Some s' \<and> main_ok L True s0 s'"
proof -
  have "permitted (react fac err who src StartupContinueMessage (ms_prog s))"
    by (auto simp: permitted_def react_def listener_OnMessage_def)
  then show ?thesis
    using post_react [OF main_okD(1) [OF assms]] post_main_ok [OF assms] by (fastforce simp: main_ok_def)
qed

text \<open>Waiting for the listeners on the bus is the waiting loop of the start-up handler.\<close>

lemma wait_ready_loop:
  assumes "main_ok L allowed s0 s"
  shows "\<exists>b s'. wait_ready (program_subscribers L fac err who) es s = Some (b, s') \<and> main_ok L allowed s0 s' \<and>
    (b \<longleftrightarrow> fst (WaitForStartupReady (map startup_receive es) (startupHandler (ms_prog s))))"
  using assms
proof (induction es arbitrary: s)
  case (Cons e es)
  show ?case
  proof (cases "fst (WaitForStartupReady [] (startupHandler (ms_prog s)))")
    case True
    then show ?thesis using Cons.prems by (intro exI [of _ True]) simp
  next
    case False
    let ?p = "react fac err who (fst e) (snd e) (ms_prog s)"
    have "startupHandler ?p = startup_receive e (startupHandler (ms_prog s))"
      unfolding react_eq by (auto simp: startup_reacts_def startup_receive_def startup_ReadyForMessage_def)
    then show ?thesis
      using Cons.IH [OF post_main_ok [OF Cons.prems, of fac err who "fst e" "snd e"]] False
        post_react [OF main_okD(1) [OF Cons.prems], of fac err who "fst e" "snd e"] by auto
  qed
qed (simp add: main_okD)

lemma awaited_listeners: "awaitedTargets (fold AddTarget ps h) = awaitedTargets h \<union> set ps"
  "su_shutdownRequested (fold AddTarget ps h) = su_shutdownRequested h"
  by (induction ps arbitrary: h) (auto simp: AddTarget_def)

text \<open>The start-up as a whole: it returns once the wait is over, and then the permission was given.\<close>

lemma startup_phase_returns:
  assumes "main_ok L allowed s0 s"
    and "has_arg args ''-rg'' \<Longrightarrow> atoi (get_arg args ''-rg'') \<noteq> None"
    and "has_arg args ''-ru'' \<Longrightarrow> atoi (get_arg args ''-ru'') \<noteq> None"
    and "fst (WaitForStartupReady (map startup_receive es0) (startupHandler (ms_prog s)))"
  shows "\<exists>s'. startup_phase (program_subscribers L fac err who) pk pton ntop cfg args es0 es s = Some (True, s') \<and>
    main_ok L True s0 s'"
proof -
  let ?bus = "program_subscribers L fac err who"
  obtain gid uid where ids: "has_arg args ''-rg'' \<Longrightarrow> atoi (get_arg args ''-rg'') = Some gid"
      "has_arg args ''-ru'' \<Longrightarrow> atoi (get_arg args ''-ru'') = Some uid"
    using assms(2,3) by blast
  obtain s1 where w: "wait_ready ?bus es0 s = Some (True, s1)" "main_ok L allowed s0 s1"
    using wait_ready_loop [OF assms(1), of fac err who es0] assms(4) by auto
  obtain s2 where p: "privileged_setup ?bus pk pton ntop cfg args es s1 = Some s2" "main_ok L allowed s0 s2"
    using adds_returns [OF sox_bus.privileged_setup_adds [OF ids] w(2)] by blast
  show ?thesis
    using post_continue [OF p(2), of fac err who nullptr] w(1) p(1) by (auto simp: startup_phase_def)
qed

text \<open>The permission to accept clients is given in any case, also when a privilege could not be dropped.\<close>

lemma permission_after_failure:
  assumes "ms_ok L s" and "startup_phase (program_subscribers L fac err who) pk pton ntop cfg args es0 es s = Some (True, s')"
    and "has_arg args ''-rg'' \<Longrightarrow> atoi (get_arg args ''-rg'') \<noteq> None"
    and "has_arg args ''-ru'' \<Longrightarrow> atoi (get_arg args ''-ru'') \<noteq> None"
  shows "permitted (ms_prog s')"
proof -
  have "fst (WaitForStartupReady (map startup_receive es0) (startupHandler (ms_prog s)))"
    using assms(2) wait_ready_loop [OF main_okD(2) [OF assms(1)], of fac err who es0]
    by (auto simp: startup_phase_def bind_eq_Some_conv split: if_splits)
  then obtain s2 where "startup_phase (program_subscribers L fac err who) pk pton ntop cfg args es0 es s = Some (True, s2)"
      "main_ok L True s s2"
    using startup_phase_returns [OF main_okD(2) [OF assms(1)] assms(3,4)] by blast
  then show ?thesis using assms(2) by (simp add: main_ok_def)
qed

end
