(* ===== verification/Main_Lifecycle.thy ===== *)
theory Main_Lifecycle
  imports Sox_Main
begin

text \<open>
  \<open>main\<close> of \<open>src/Src/Main.cpp\<close> as a whole, with the threads it starts and stops.  The listeners, the
  service and the dispatcher are each a \<open>WorkerBase\<close>: \<open>Startup\<close> creates the thread,
  \<open>RequestShutdown\<close> sets the flag of the object, \<open>Shutdown\<close> sets it and joins, which blocks until the
  thread has ended.  The threads themselves are seen through what \<open>main\<close> can wait for: when a thread
  looks at its flags it ends if it has been asked to stop (a listener only after it got the permission
  to go on), and it may end by a failure of its own.
\<close>

section \<open>The objects with a thread\<close>

type_synonym sox_env = "claim_heap \<times> service"

definition parts :: "layout \<Rightarrow> part list" where
  "parts L = map Listener (listeners_at L) @ [CommService, Dispatcher]"

text \<open>\<open>OnShutdown\<close> of each class, on the object in the program.\<close>

primrec part_shutdown :: "part \<Rightarrow> sox_env program \<Rightarrow> sox_env program" where
  "part_shutdown (Listener q) p = upd_listener q listener_OnShutdown p"
| "part_shutdown CommService p =
     p\<lparr>jobDispatcher := (jobDispatcher p)\<lparr>d_env := map_prod id OnShutdown (d_env (jobDispatcher p))\<rparr>\<rparr>"
| "part_shutdown Dispatcher p = p\<lparr>jobDispatcher := dispatcher_OnShutdown (jobDispatcher p)\<rparr>"

text \<open>An object as its base class sees it: its own state, and the program its \<open>OnShutdown\<close> acts on.\<close>

record part_object = part_thread +
  po_prog :: "sox_env program"

definition part_of :: "part \<Rightarrow> sox_env main_state \<Rightarrow> part_object" where
  "part_of p s = \<lparr>workerStarted = workerStarted (ms_threads s p), th_phase = th_phase (ms_threads s p), po_prog = ms_prog s\<rparr>"

definition put_part :: "part \<Rightarrow> part_object \<Rightarrow> sox_env main_state \<Rightarrow> sox_env main_state" where
  "put_part p w s = s\<lparr>ms_threads := (ms_threads s)(p := \<lparr>workerStarted = workerStarted w, th_phase = th_phase w\<rparr>),
     ms_prog := po_prog w\<rparr>"

definition part_begin :: "part_object \<Rightarrow> part_object" where
  "part_begin w = w\<lparr>th_phase := Runs\<rparr>"

definition part_OnShutdown :: "part \<Rightarrow> part_object \<Rightarrow> part_object" where
  "part_OnShutdown p w = w\<lparr>po_prog := part_shutdown p (po_prog w)\<rparr>"

definition part_ended :: "part_object \<Rightarrow> bool" where
  "part_ended w \<longleftrightarrow> th_phase w = Over"

interpretation main_thread: worker_thread part_begin "part_OnShutdown p" part_ended for p
  by unfold_locales (simp_all add: part_OnShutdown_def part_ended_def)

section \<open>The threads\<close>

definition stop_requested :: "part \<Rightarrow> sox_env program \<Rightarrow> bool" where
  "stop_requested p s = (case p of
     Listener q \<Rightarrow> (case map_of (serverListeners s) q of None \<Rightarrow> False | Some l \<Rightarrow> l_shutdownPending l)
   | CommService \<Rightarrow> shutdownPending (snd (d_env (jobDispatcher s)))
   | Dispatcher \<Rightarrow> d_shutdownPending (jobDispatcher s))"

definition may_end :: "part \<Rightarrow> sox_env program \<Rightarrow> bool" where
  "may_end p s \<longleftrightarrow> stop_requested p s \<and> (case p of
     Listener q \<Rightarrow> (case map_of (serverListeners s) q of None \<Rightarrow> False | Some l \<Rightarrow> l_startupAllowed l)
   | _ \<Rightarrow> True)"

definition end_thread :: "part \<Rightarrow> sox_env main_state \<Rightarrow> sox_env main_state" where
  "end_thread p s = s\<lparr>ms_threads := (ms_threads s)(p := (ms_threads s p)\<lparr>th_phase := Over\<rparr>)\<rparr>"

datatype thread_event = Looks part | Fails part | Posts ptr message

primrec thread_step :: "sox_env program subscribers_iface \<Rightarrow> thread_event \<Rightarrow> sox_env main_step" where
  "thread_step bus (Looks p) s = Some (if th_phase (ms_threads s p) = Runs \<and> may_end p (ms_prog s) then end_thread p s else s)"
| "thread_step bus (Fails p) s = Some (if th_phase (ms_threads s p) = Runs then end_thread p s else s)"
| "thread_step bus (Posts src m) s = post_message bus src m s"

section \<open>The calls of main\<close>

definition part_Startup :: "part \<Rightarrow> sox_env main_state \<Rightarrow> bool \<times> sox_env main_state" where
  "part_Startup p s = (let (b, w) = worker_Startup part_begin (part_of p s) in (b, put_part p w s))"

definition part_RequestShutdown :: "part \<Rightarrow> sox_env main_state \<Rightarrow> bool \<times> sox_env main_state" where
  "part_RequestShutdown p s = (let (b, w) = worker_RequestShutdown (part_OnShutdown p) (part_of p s) in (b, put_part p w s))"

text \<open>
  While the join blocks the other threads go on; \<open>OnShutdown\<close> has been called before.  \<open>None\<close> if the
  call has not returned with the events given.
\<close>

primrec part_Shutdown :: "sox_env program subscribers_iface \<Rightarrow> part \<Rightarrow> thread_event list \<Rightarrow> sox_env main_state \<Rightarrow>
    (bool \<times> thread_event list \<times> sox_env main_state) option" where
  "part_Shutdown bus p [] s =
     map_option (\<lambda>(b, w). (b, [], put_part p w s)) (worker_Shutdown (part_OnShutdown p) part_ended (part_of p s))"
| "part_Shutdown bus p (e # es) s =
     (case worker_Shutdown (part_OnShutdown p) part_ended (part_of p s) of
        Some (b, w) \<Rightarrow> Some (b, e # es, put_part p w s)
      | None \<Rightarrow> Option.bind (thread_step bus e (snd (part_RequestShutdown p s))) (part_Shutdown bus p es))"

definition log_act :: "main_action \<Rightarrow> bool \<Rightarrow> sox_env main_state \<Rightarrow> sox_env main_state" where
  "log_act a b s = s\<lparr>ms_acts := ms_acts s @ [(a, b)]\<rparr>"

primrec run_action :: "sox_env program subscribers_iface \<Rightarrow> main_action \<Rightarrow> thread_event list \<Rightarrow> sox_env main_state \<Rightarrow>
    (thread_event list \<times> sox_env main_state) option" where
  "run_action bus (StartupOf p) es s = (let (b, s1) = part_Startup p s in Some (es, log_act (StartupOf p) b s1))"
| "run_action bus (RequestShutdownOf p) es s =
     (let (b, s1) = part_RequestShutdown p s in Some (es, log_act (RequestShutdownOf p) b s1))"
| "run_action bus (ShutdownOf p) es s =
     map_option (\<lambda>(b, es1, s1). (es1, log_act (ShutdownOf p) b s1)) (part_Shutdown bus p es s)"

primrec run_actions :: "sox_env program subscribers_iface \<Rightarrow> main_action list \<Rightarrow> thread_event list \<Rightarrow> sox_env main_state \<Rightarrow>
    (thread_event list \<times> sox_env main_state) option" where
  "run_actions bus [] es s = Some (es, s)"
| "run_actions bus (a # as) es s = Option.bind (run_action bus a es s) (\<lambda>(es1, s1). run_actions bus as es1 s1)"

definition listeners_startup :: "layout \<Rightarrow> main_action list" where
  "listeners_startup L = map (\<lambda>p. StartupOf (Listener p)) (listeners_at L)"

definition workers_startup :: "main_action list" where
  "workers_startup = [StartupOf Dispatcher, StartupOf CommService]"

definition shutdown_sequence :: "layout \<Rightarrow> main_action list" where
  "shutdown_sequence L =
     map (\<lambda>p. RequestShutdownOf (Listener p)) (listeners_at L) @ [RequestShutdownOf CommService, RequestShutdownOf Dispatcher] @
     map (\<lambda>p. ShutdownOf (Listener p)) (listeners_at L) @ [ShutdownOf CommService, ShutdownOf Dispatcher]"

text \<open>
  The whole of \<open>main\<close> after the command line; \<open>sigmask_ok\<close> tells whether the signal mask could be set,
  \<open>evs\<close> is what the other threads do while \<open>main\<close> waits in the joins.  The result is the exit code
  and the last state; \<open>None\<close> if \<open>main\<close> has not returned with the given events.
\<close>

definition main_start :: "layout \<Rightarrow> config \<Rightarrow> 'e \<Rightarrow> 'e main_state" where
  "main_start L cfg e = \<lparr>ms_bus = program_bus L, ms_prog = initial_program L (GetListenAddrs cfg) e, ms_calls = [],
     ms_threads = (\<lambda>p. \<lparr>workerStarted = False, th_phase = NotCreated\<rparr>), ms_acts = []\<rparr>"

definition main_body :: "layout \<Rightarrow> sox_env program subscribers_iface \<Rightarrow> bool \<Rightarrow> process \<Rightarrow> pton \<Rightarrow> ntop \<Rightarrow> config \<Rightarrow> args \<Rightarrow>
    sox_env \<Rightarrow> arrivals \<Rightarrow> (nat \<Rightarrow> arrivals) \<Rightarrow> (arrivals \<times> int \<times> int) list \<Rightarrow> thread_event list \<Rightarrow>
    (int \<times> sox_env main_state) option" where
  "main_body L bus sigmask_ok pk pton ntop cfg args e es0 es turns evs =
     (if \<not> sigmask_ok then Some (1, main_start L cfg e)
      else Option.bind (run_actions bus (listeners_startup L) evs (main_start L cfg e)) (\<lambda>(evs, s).
           Option.bind (startup_phase bus pk pton ntop cfg args es0 es s) (\<lambda>(started, s).
           if \<not> started then None
           else Option.bind (run_actions bus workers_startup evs s) (\<lambda>(evs, s).
                Option.bind (signal_loop bus turns s) (\<lambda>(left, s).
                if \<not> left then None
                else map_option (\<lambda>(evs, s). (0, s)) (run_actions bus (shutdown_sequence L) evs s))))))"

section \<open>What the calls do\<close>

lemma part_calls:
  "part_Startup p s = (if workerStarted (ms_threads s p) then (False, s)
     else (True, s\<lparr>ms_threads := (ms_threads s)(p := \<lparr>workerStarted = True, th_phase = Runs\<rparr>)\<rparr>))"
  "part_RequestShutdown p s = (if workerStarted (ms_threads s p)
     then (True, s\<lparr>ms_prog := part_shutdown p (ms_prog s)\<rparr>) else (False, s))"
  by (simp_all add: part_Startup_def part_RequestShutdown_def worker_Startup_def worker_RequestShutdown_def part_of_def
      put_part_def part_begin_def part_OnShutdown_def fun_upd_idem)

lemma start_all:
  assumes "distinct ps" and "\<forall>p \<in> set ps. \<not> workerStarted (ms_threads s p)"
  shows "run_actions bus (map StartupOf ps) evs s =
    Some (evs, s\<lparr>ms_threads := (\<lambda>p. if p \<in> set ps then \<lparr>workerStarted = True, th_phase = Runs\<rparr> else ms_threads s p),
      ms_acts := ms_acts s @ map (\<lambda>p. (StartupOf p, True)) ps\<rparr>)"
  using assms
proof (induction ps arbitrary: s)
  case (Cons p ps)
  let ?s = "log_act (StartupOf p) True (s\<lparr>ms_threads := (ms_threads s)(p := \<lparr>workerStarted = True, th_phase = Runs\<rparr>)\<rparr>)"
  have "\<forall>p \<in> set ps. \<not> workerStarted (ms_threads ?s p)" using Cons.prems by (auto simp: log_act_def)
  from Cons.IH [OF _ this] show ?case
    using Cons.prems by (auto simp: part_calls log_act_def fun_eq_iff intro!: main_state.equality)
qed simp

lemma request_all:
  assumes "\<forall>p \<in> set ps. workerStarted (ms_threads s p)"
  shows "run_actions bus (map RequestShutdownOf ps) evs s =
    Some (evs, s\<lparr>ms_prog := fold part_shutdown ps (ms_prog s), ms_acts := ms_acts s @ map (\<lambda>p. (RequestShutdownOf p, True)) ps\<rparr>)"
  using assms
proof (induction ps arbitrary: s)
  case (Cons p ps)
  then show ?case
    using Cons.IH [of "log_act (RequestShutdownOf p) True (s\<lparr>ms_prog := part_shutdown p (ms_prog s)\<rparr>)"]
    by (simp add: part_calls log_act_def)
qed simp

section \<open>The flags\<close>

lemma map_of_upd_listener:
  "map_of (serverListeners (upd_listener q f s)) p =
     (if p = q then map_option f (map_of (serverListeners s) p) else map_of (serverListeners s) p)"
proof -
  have "map_of (map (\<lambda>(r, l). (r, if r = q then f l else l)) ls) p =
     (if p = q then map_option f (map_of ls p) else map_of ls p)" for ls :: "(ptr \<times> listener) list"
    by (induction ls) auto
  then show ?thesis by (simp add: upd_listener_def)
qed

lemma upd_listener_jobDispatcher [simp]: "jobDispatcher (upd_listener q f s) = jobDispatcher s"
  by (simp add: upd_listener_def)

lemma map_of_listeners: "map_of (map (\<lambda>(p, l). (p, f l)) ls) (q :: ptr) = map_option f (map_of ls q)"
  by (induction ls) auto

lemma stop_requested_mono: "stop_requested p s \<Longrightarrow> stop_requested p (part_shutdown q s)"
  by (cases q) (auto simp: stop_requested_def map_of_upd_listener listener_OnShutdown_def OnShutdown_def
      dispatcher_OnShutdown_def split: part.splits option.splits)

lemma part_shutdown_listeners:
  "map fst (serverListeners (part_shutdown p s)) = map fst (serverListeners s)"
  "permitted s \<Longrightarrow> permitted (part_shutdown p s)"
  by (cases p; auto simp: upd_listener_def permitted_def listener_OnShutdown_def split_beta)+

lemma stop_requested_set:
  assumes "map fst (serverListeners s) = listeners_at L" and "p \<in> set (parts L)"
  shows "stop_requested p (part_shutdown p s)"
proof (cases p)
  case (Listener q)
  then have "q \<in> set (map fst (serverListeners s))" using assms by (auto simp: parts_def)
  then obtain l where "map_of (serverListeners s) q = Some l" by (cases "map_of (serverListeners s) q") (auto simp: map_of_eq_None_iff)
  then show ?thesis using Listener by (simp add: stop_requested_def map_of_upd_listener listener_OnShutdown_def)
qed (simp_all add: stop_requested_def OnShutdown_def dispatcher_OnShutdown_def map_prod_def split_beta)

lemma fold_part_shutdown:
  assumes "map fst (serverListeners s) = listeners_at L" and "set ps \<subseteq> set (parts L)"
  shows "map fst (serverListeners (fold part_shutdown ps s)) = listeners_at L \<and>
    (permitted s \<longrightarrow> permitted (fold part_shutdown ps s)) \<and>
    (\<forall>p. p \<in> set ps \<or> stop_requested p s \<longrightarrow> stop_requested p (fold part_shutdown ps s))"
  using assms
proof (induction ps arbitrary: s)
  case (Cons p ps)
  have "map fst (serverListeners (part_shutdown p s)) = listeners_at L" using part_shutdown_listeners Cons.prems by simp
  from Cons.IH [OF this] Cons.prems part_shutdown_listeners(2) stop_requested_set [OF Cons.prems(1)] stop_requested_mono
  show ?case by fastforce
qed simp

text \<open>Once everyone has been asked, no message takes that back.\<close>

lemma react_stop_requested:
  assumes "stop_requested Dispatcher s" and "stop_requested p s"
  shows "stop_requested p (react fac err who src m s)"
proof -
  have "l_shutdownPending (listener_reacts m l) = l_shutdownPending l" for l
    by (cases m) (simp_all add: listener_reacts_def listener_OnMessage_def)
  moreover have "d_shutdownPending (dispatcher_reacts fac err w m (jobDispatcher s))"
      "d_env (dispatcher_reacts fac err w m (jobDispatcher s)) = d_env (jobDispatcher s)" for w
    using assms(1) by (cases m; simp add: stop_requested_def dispatcher_reacts_def dispatcher_OnMessage_def
        OnMessageInternal_def Let_def)+
  ultimately show ?thesis
    using assms(2) unfolding react_eq
    by (auto simp: stop_requested_def map_of_listeners split: part.splits option.splits)
qed

section \<open>The joins\<close>

text \<open>
  When the joins can be waited for: everyone has been asked, the listeners have the permission, and
  each of the threads still to be joined is over or will look at its flags or fail.
\<close>

definition joinable :: "layout \<Rightarrow> part list \<Rightarrow> thread_event list \<Rightarrow> sox_env main_state \<Rightarrow> bool" where
  "joinable L ps evs s \<longleftrightarrow> ms_ok L s \<and> permitted (ms_prog s) \<and> (\<forall>p \<in> set (parts L). stop_requested p (ms_prog s)) \<and>
     set ps \<subseteq> set (parts L) \<and>
     (\<forall>p \<in> set ps. workerStarted (ms_threads s p) \<and> (th_phase (ms_threads s p) = Over \<or>
       th_phase (ms_threads s p) = Runs \<and> (Looks p \<in> set evs \<or> Fails p \<in> set evs)))"

definition later :: "part set \<Rightarrow> sox_env main_state \<Rightarrow> sox_env main_state \<Rightarrow> bool" where
  "later joined s s' \<longleftrightarrow>
     (\<forall>p. p \<notin> joined \<longrightarrow> workerStarted (ms_threads s' p) = workerStarted (ms_threads s p)) \<and>
     (\<forall>p \<in> joined. \<not> workerStarted (ms_threads s' p) \<and> th_phase (ms_threads s' p) = Over) \<and>
     (\<forall>p. th_phase (ms_threads s' p) = th_phase (ms_threads s p) \<or> th_phase (ms_threads s' p) = Over \<and> th_phase (ms_threads s p) = Runs)"

lemma later_trans:
  assumes "later A s s1" and "later B s1 s2" and "A \<inter> B = {}"
  shows "later (A \<union> B) s s2"
proof -
  have "\<not> workerStarted (ms_threads s2 p) \<and> th_phase (ms_threads s2 p) = Over" if "p \<in> A \<union> B" for p
    using that assms unfolding later_def by (cases "p \<in> B") (simp, metis UnE)
  moreover have "th_phase (ms_threads s2 p) = th_phase (ms_threads s p) \<or>
      th_phase (ms_threads s2 p) = Over \<and> th_phase (ms_threads s p) = Runs" for p
    using assms(1,2) unfolding later_def by metis
  ultimately show ?thesis using assms(1,2) by (simp add: later_def)
qed

lemma permitted_may_end:
  assumes "ms_ok L s" and "permitted (ms_prog s)" and "p \<in> set (parts L)" and "stop_requested p (ms_prog s)"
  shows "may_end p (ms_prog s)"
  using assms by (auto simp: may_end_def stop_requested_def permitted_def split: part.splits option.splits dest: map_of_SomeD)

lemma thread_step_joinable:
  assumes "joinable L ps (e # es) s"
  shows "\<exists>s'. thread_step (program_subscribers L fac err who) e s = Some s' \<and> joinable L ps es s' \<and> later {} s s' \<and>
    ms_acts s' = ms_acts s"
proof (cases e)
  case (Looks p)
  then show ?thesis
    using assms permitted_may_end [of L s p]
    by (auto simp: joinable_def end_thread_def later_def ms_ok_def)
next
  case (Fails p)
  then show ?thesis using assms by (auto simp: joinable_def end_thread_def later_def ms_ok_def)
next
  case (Posts src m)
  have ok: "ms_ok L s" using assms by (simp add: joinable_def)
  have "stop_requested Dispatcher (ms_prog s)" using assms by (simp add: joinable_def parts_def)
  note keep = react_stop_requested [OF this]
  show ?thesis
    using assms Posts post_react [OF ok, of fac err who src m]
    by (auto simp: joinable_def later_def ms_ok_def keep react_permitted react_listeners)
qed

lemma worker_Shutdown_join:
  "worker_Shutdown (part_OnShutdown p) part_ended (part_of p s) =
     (if \<not> workerStarted (ms_threads s p) then Some (False, part_of p s)
      else if th_phase (ms_threads s p) = Over
      then Some (True, part_of p s\<lparr>workerStarted := False, po_prog := part_shutdown p (ms_prog s)\<rparr>) else None)"
  by (simp add: worker_Shutdown_def part_of_def part_OnShutdown_def part_ended_def Let_def)

lemma join_now:
  assumes "workerStarted (ms_threads s p)" and "th_phase (ms_threads s p) = Over"
  shows "part_Shutdown bus p evs s = Some (True, evs, s\<lparr>ms_prog := part_shutdown p (ms_prog s),
    ms_threads := (ms_threads s)(p := \<lparr>workerStarted = False, th_phase = Over\<rparr>)\<rparr>)"
  using assms by (cases evs) (simp_all add: worker_Shutdown_join, simp_all add: put_part_def part_of_def)

lemma joinable_joined:
  assumes "joinable L (p # ps) evs s" and "p \<notin> set ps" and "th_phase (ms_threads s p) = Over"
  shows "joinable L ps evs (s\<lparr>ms_threads := (ms_threads s)(p := \<lparr>workerStarted = False, th_phase = Over\<rparr>)\<rparr>) \<and>
    later {p} s (s\<lparr>ms_threads := (ms_threads s)(p := \<lparr>workerStarted = False, th_phase = Over\<rparr>)\<rparr>)"
  using assms by (auto simp: joinable_def later_def ms_ok_def)

lemma joinable_shutdown:
  assumes "joinable L ps evs s" and "p \<in> set (parts L)"
  shows "joinable L ps evs (s\<lparr>ms_prog := part_shutdown p (ms_prog s)\<rparr>)"
  using assms part_shutdown_listeners stop_requested_mono by (auto simp: joinable_def ms_ok_def)

lemma part_Shutdown_returns:
  assumes "joinable L (p # ps) evs s" and "p \<notin> set ps"
  shows "\<exists>evs' s'. part_Shutdown (program_subscribers L fac err who) p evs s = Some (True, evs', s') \<and>
    joinable L ps evs' s' \<and> later {p} s s' \<and> ms_acts s' = ms_acts s"
  using assms
proof (induction evs arbitrary: s)
  case Nil
  then have over: "workerStarted (ms_threads s p)" "th_phase (ms_threads s p) = Over" and part: "p \<in> set (parts L)"
    by (auto simp: joinable_def)
  show ?case
    using joinable_joined [OF joinable_shutdown [OF Nil.prems(1) part] Nil.prems(2)] over
    by (simp add: join_now later_def del: part_Shutdown.simps)
next
  case (Cons e es)
  let ?s = "s\<lparr>ms_prog := part_shutdown p (ms_prog s)\<rparr>"
  have started: "workerStarted (ms_threads s p)" and part: "p \<in> set (parts L)"
    using Cons.prems(1) by (auto simp: joinable_def)
  have asked: "joinable L (p # ps) (e # es) ?s" using joinable_shutdown [OF Cons.prems(1) part] .
  show ?case
  proof (cases "th_phase (ms_threads s p) = Over")
    case True
    then show ?thesis using joinable_joined [OF asked Cons.prems(2)] started
      by (simp add: join_now later_def del: part_Shutdown.simps)
  next
    case False
    obtain s1 where step: "thread_step (program_subscribers L fac err who) e ?s = Some s1" "joinable L (p # ps) es s1"
        "later {} ?s s1" "ms_acts s1 = ms_acts s"
      using thread_step_joinable [OF asked, of fac err who] by auto
    obtain evs' s' where "part_Shutdown (program_subscribers L fac err who) p es s1 = Some (True, evs', s')"
        "joinable L ps evs' s'" "later {p} s1 s'" "ms_acts s' = ms_acts s1"
      using Cons.IH [OF step(2) Cons.prems(2)] by auto
    moreover have "later {p} s s'" using later_trans [OF step(3) calculation(3)] by (simp add: later_def)
    ultimately show ?thesis using False started step(1,4) by (simp add: worker_Shutdown_join part_calls)
  qed
qed

lemma join_all:
  assumes "joinable L ps evs s" and "distinct ps"
  shows "\<exists>evs' s'. run_actions (program_subscribers L fac err who) (map ShutdownOf ps) evs s = Some (evs', s') \<and>
    joinable L [] evs' s' \<and> later (set ps) s s' \<and> ms_acts s' = ms_acts s @ map (\<lambda>p. (ShutdownOf p, True)) ps"
  using assms
proof (induction ps arbitrary: evs s)
  case (Cons p ps)
  have "p \<notin> set ps" using Cons.prems(2) by simp
  then obtain evs1 s1 where one: "part_Shutdown (program_subscribers L fac err who) p evs s = Some (True, evs1, s1)"
      "joinable L ps evs1 s1" "later {p} s s1" "ms_acts s1 = ms_acts s"
    using part_Shutdown_returns [OF Cons.prems(1)] by blast
  let ?s1 = "log_act (ShutdownOf p) True s1"
  have "joinable L ps evs1 ?s1" "later {p} s ?s1" using one(2,3) by (simp_all add: joinable_def later_def log_act_def ms_ok_def)
  moreover obtain evs' s' where "run_actions (program_subscribers L fac err who) (map ShutdownOf ps) evs1 ?s1 = Some (evs', s')"
      "joinable L [] evs' s'" "later (set ps) ?s1 s'"
      "ms_acts s' = ms_acts ?s1 @ map (\<lambda>p. (ShutdownOf p, True)) ps"
    using Cons.IH [OF calculation(1)] Cons.prems(2) by auto
  moreover have "later (set (p # ps)) s s'"
    using later_trans [OF calculation(2,5)] Cons.prems(2) by simp
  ultimately show ?case using one(1,4) by (simp add: log_act_def)
qed (auto simp: later_def)

text \<open>A join does block: a thread that is never seen to end is waited for.\<close>

lemma join_blocks:
  assumes "workerStarted (ms_threads s p)" and "th_phase (ms_threads s p) = Runs"
    and "Looks p \<notin> set evs" and "Fails p \<notin> set evs"
  shows "part_Shutdown bus p evs s = None"
  using assms
proof (induction evs arbitrary: s)
  case (Cons e es)
  let ?s = "s\<lparr>ms_prog := part_shutdown p (ms_prog s)\<rparr>"
  have "workerStarted (ms_threads s1 p) \<and> th_phase (ms_threads s1 p) = Runs" if "thread_step bus e ?s = Some s1" for s1
    using that Cons.prems by (cases e) (auto simp: end_thread_def post_message_def split: if_splits)
  then show ?case
    using Cons by (cases "thread_step bus e ?s") (auto simp: worker_Shutdown_join part_calls)
qed (simp add: worker_Shutdown_join)

section \<open>The whole of main\<close>

text \<open>
  What an orderly life of the threads is: each one is started once, then asked once to stop, then
  joined once, every request comes before every join, and the listeners come first in each of the three.
\<close>

definition listeners_first :: "part list \<Rightarrow> bool" where
  "listeners_first ps \<longleftrightarrow> (\<exists>qs rs. ps = map Listener qs @ rs \<and> (\<forall>q. Listener q \<notin> set rs))"

definition orderly :: "layout \<Rightarrow> (main_action \<times> bool) list \<Rightarrow> bool" where
  "orderly L acts \<longleftrightarrow> (\<exists>starts requests joins.
     acts = map (\<lambda>p. (StartupOf p, True)) starts @ map (\<lambda>p. (RequestShutdownOf p, True)) requests @
       map (\<lambda>p. (ShutdownOf p, True)) joins \<and>
     (\<forall>ps \<in> {starts, requests, joins}. distinct ps \<and> set ps = set (parts L) \<and> listeners_first ps))"

lemma parts_orderly:
  assumes "layout_ok L"
  shows "distinct (parts L)" and "listeners_first (parts L)"
    and "distinct (map Listener (listeners_at L) @ [Dispatcher, CommService])"
    and "listeners_first (map Listener (listeners_at L) @ [Dispatcher, CommService])"
    and "set (map Listener (listeners_at L) @ [Dispatcher, CommService]) = set (parts L)"
proof -
  have "Listener q \<notin> set [CommService, Dispatcher]" "Listener q \<notin> set [Dispatcher, CommService]" for q by simp_all
  then show "listeners_first (parts L)" "listeners_first (map Listener (listeners_at L) @ [Dispatcher, CommService])"
    unfolding listeners_first_def parts_def by blast+
qed (use assms in \<open>auto simp: parts_def layout_ok_def distinct_map inj_on_def\<close>)

lemma run_actions_append:
  "run_actions bus (as @ bs) evs s = Option.bind (run_actions bus as evs s) (\<lambda>(evs1, s1). run_actions bus bs evs1 s1)"
  by (induction as arbitrary: evs s) (auto simp: bind_assoc split_beta intro!: bind_option_cong)

lemma sequences_over_parts:
  "listeners_startup L = map StartupOf (map Listener (listeners_at L))"
  "workers_startup = map StartupOf [Dispatcher, CommService]"
  "shutdown_sequence L = map RequestShutdownOf (parts L) @ map ShutdownOf (parts L)"
  by (simp_all add: listeners_startup_def workers_startup_def shutdown_sequence_def parts_def)

lemma signal_loop_left:
  assumes "main_ok L allowed s0 s" and "t \<in> set turns" and "ends_loop t"
  shows "\<exists>s'. signal_loop (program_subscribers L fac err who) turns s = Some (True, s') \<and> main_ok L allowed s0 s'"
  using sox_bus.signal_loop_leaves [OF assms(1), of fac err who turns] assms(2,3) by auto

text \<open>The last part of \<open>main\<close>: with every thread started and the permission given, the shutdown returns.\<close>

lemma shutdown_sequence_returns:
  assumes "ms_ok L s" and "permitted (ms_prog s)" and "distinct (parts L)"
    and "\<forall>p \<in> set (parts L). ms_threads s p = \<lparr>workerStarted = True, th_phase = Runs\<rparr>"
    and "\<forall>p \<in> set (parts L). Looks p \<in> set evs \<or> Fails p \<in> set evs"
  shows "\<exists>evs' s'. run_actions (program_subscribers L fac err who) (shutdown_sequence L) evs s = Some (evs', s') \<and>
    (\<forall>p \<in> set (parts L). stop_requested p (ms_prog s')) \<and> later (set (parts L)) s s' \<and>
    ms_acts s' = ms_acts s @ map (\<lambda>p. (RequestShutdownOf p, True)) (parts L) @ map (\<lambda>p. (ShutdownOf p, True)) (parts L)"
proof -
  let ?s = "s\<lparr>ms_prog := fold part_shutdown (parts L) (ms_prog s),
    ms_acts := ms_acts s @ map (\<lambda>p. (RequestShutdownOf p, True)) (parts L)\<rparr>"
  have "joinable L (parts L) evs ?s"
    using assms fold_part_shutdown [of "ms_prog s" L "parts L"] by (simp add: joinable_def ms_ok_def)
  from join_all [OF this assms(3), of fac err who] show ?thesis
    using request_all [of "parts L" s] assms(4)
    by (auto simp: sequences_over_parts run_actions_append joinable_def later_def)
qed

text \<open>
  C21.  The program starts and stops.  With the signal mask set, once every listener has reported
  ready or someone has asked for a shutdown, once a terminating signal, an error of the wait for
  signals or a shutdown request comes in afterwards, and if every thread then looks at its flags or
  fails, in any order and with any messages in between, \<open>main\<close> returns 0, whatever the process answers
  to the privileged calls.  No thread is left running: each one was started, asked to stop and joined,
  once, every request before the first join and the listeners before the service and the dispatcher,
  and at the end each has been asked, is over and has been collected.
\<close>

theorem main_returns:
  assumes "layout_ok L" and "length (GetListenAddrs cfg) = length (listeners_at L)"
    and "has_arg args ''-rg'' \<Longrightarrow> atoi (get_arg args ''-rg'') \<noteq> None"
    and "has_arg args ''-ru'' \<Longrightarrow> atoi (get_arg args ''-ru'') \<noteq> None"
    and "asked_shutdown es0 \<or> set (listeners_at L) \<subseteq> reported_ready es0"
    and "t \<in> set turns" and "ends_loop t"
    and "\<forall>p \<in> set (parts L). Looks p \<in> set evs \<or> Fails p \<in> set evs"
  shows "\<exists>s. main_body L (program_subscribers L fac err who) True pk pton ntop cfg args e es0 es turns evs = Some (0, s) \<and>
    orderly L (ms_acts s) \<and> (\<forall>p. th_phase (ms_threads s p) \<noteq> Runs) \<and>
    (\<forall>p \<in> set (parts L). stop_requested p (ms_prog s) \<and>
       ms_threads s p = \<lparr>workerStarted = False, th_phase = Over\<rparr>)"
proof -
  let ?bus = "program_subscribers L fac err who" and ?s = "main_start L cfg e"
  note po = parts_orderly [OF assms(1)]
  let ?ls = "map Listener (listeners_at L)" and ?ws = "[Dispatcher, CommService]"
  let ?up = "\<lparr>workerStarted = True, th_phase = Runs\<rparr>" and ?log = "map (\<lambda>p. (StartupOf p, True))"
  let ?s1 = "?s\<lparr>ms_threads := (\<lambda>p. if p \<in> set ?ls then ?up else ms_threads ?s p), ms_acts := ?log ?ls\<rparr>"
  have a: "run_actions ?bus (listeners_startup L) evs ?s = Some (evs, ?s1)"
    using start_all [of ?ls ?s ?bus evs] po(3) by (simp add: sequences_over_parts main_start_def)
  have "ms_ok L ?s1" using assms(1,2) by (simp add: ms_ok_def main_start_def initial_program_def)
  then have ok1: "main_ok L False ?s1 ?s1" by (rule main_okD)
  have "fst (WaitForStartupReady (map startup_receive es0) (startupHandler (ms_prog ?s1)))"
    using assms(5) unfolding WaitForStartupReady_returns
    by (auto simp: main_start_def initial_program_def awaited_listeners StartupHandler_def)
  then obtain s2 where b: "startup_phase ?bus pk pton ntop cfg args es0 es ?s1 = Some (True, s2)" "main_ok L True ?s1 s2"
    using startup_phase_returns [OF ok1 assms(3,4)] by blast
  have th2: "ms_threads s2 p = (if p \<in> set ?ls then ?up else \<lparr>workerStarted = False, th_phase = NotCreated\<rparr>)"
      "ms_acts s2 = ?log ?ls" for p
    using b(2) by (auto simp: main_ok_def main_start_def)
  let ?s3 = "s2\<lparr>ms_threads := (\<lambda>p. if p \<in> set ?ws then ?up else ms_threads s2 p), ms_acts := ms_acts s2 @ ?log ?ws\<rparr>"
  have c: "run_actions ?bus workers_startup evs s2 = Some (evs, ?s3)"
    unfolding sequences_over_parts by (rule start_all) (auto simp: th2)
  have "main_ok L True ?s3 ?s3" using b(2) by (simp add: main_ok_def ms_ok_def)
  then obtain s4 where d: "signal_loop ?bus turns ?s3 = Some (True, s4)" "main_ok L True ?s3 s4"
    using signal_loop_left [OF _ assms(6,7)] by blast
  have th4: "ms_threads s4 p = (if p \<in> set (parts L) then ?up else \<lparr>workerStarted = False, th_phase = NotCreated\<rparr>)"
      "ms_acts s4 = ?log (?ls @ ?ws)" for p
    using d(2) by (auto simp: main_ok_def th2 parts_def)
  obtain evs' s5 where f: "run_actions ?bus (shutdown_sequence L) evs s4 = Some (evs', s5)"
      "\<forall>p \<in> set (parts L). stop_requested p (ms_prog s5)" "later (set (parts L)) s4 s5"
      "ms_acts s5 = ms_acts s4 @ map (\<lambda>p. (RequestShutdownOf p, True)) (parts L) @ map (\<lambda>p. (ShutdownOf p, True)) (parts L)"
    using shutdown_sequence_returns [of L s4 evs fac err who] d(2) po(1) assms(8) th4 by (auto simp: main_ok_def)
  have "main_body L ?bus True pk pton ntop cfg args e es0 es turns evs = Some (0, s5)"
    using a b(1) c d(1) f(1) by (simp add: main_body_def)
  moreover have "orderly L (ms_acts s5)"
    unfolding orderly_def using f(4) th4(2) po
    by (intro exI [of _ "?ls @ ?ws"] exI [of _ "parts L"]) simp
  moreover have "th_phase (ms_threads s5 p) \<noteq> Runs" for p
    using f(3) th4(1) [of p] unfolding later_def by (cases "p \<in> set (parts L)") (auto, metis part_thread.select_convs(1) thread_phase.distinct)
  moreover have "ms_threads s5 p = \<lparr>workerStarted = False, th_phase = Over\<rparr>" if "p \<in> set (parts L)" for p
    using f(3) that by (simp add: later_def)
  ultimately show ?thesis using f(2) by blast
qed

text \<open>A run in which the listener cannot bind: \<open>main\<close> still returns 0.\<close>

definition failing_run :: "(int \<times> sox_env main_state) option" where
  "failing_run = main_body demo_layout demo_bus True granting local_pton demo_ntop demo_config demo_args
     ([], TCPCommService demo_kernel sample_config) [(3, ShutdownMessage 98)] (\<lambda>i. []) [([], -1, EAGAIN), ([], 15, 0)]
     [Looks Dispatcher, Fails (Listener 3), Posts 4 (JobCompleteMessage (JR_NEW_CLIENT 1)), Looks CommService]"

theorem main_returns_witness:
  "\<exists>s. failing_run = Some (0, s) \<and> orderly demo_layout (ms_acts s) \<and>
     (\<forall>p \<in> {Listener 3, CommService, Dispatcher}. ms_threads s p = \<lparr>workerStarted = False, th_phase = Over\<rparr>)"
proof -
  have addrs: "length (GetListenAddrs demo_config) = length (listeners_at demo_layout)"
    by code_simp
  have parts: "parts demo_layout = [Listener 3, CommService, Dispatcher]" by (simp add: parts_def demo_layout_def)
  have "asked_shutdown [(3, ShutdownMessage 98)]" "ends_loop ([], 15, 0)"
    by (simp_all add: asked_shutdown_def ends_loop_def SIGUSR2_def SIGINT_def)
  then have "\<exists>s. failing_run = Some (0, s) \<and> orderly demo_layout (ms_acts s) \<and> (\<forall>p. th_phase (ms_threads s p) \<noteq> Runs) \<and>
    (\<forall>p \<in> set (parts demo_layout). stop_requested p (ms_prog s) \<and>
       ms_threads s p = \<lparr>workerStarted = False, th_phase = Over\<rparr>)"
    unfolding failing_run_def using demo_atoi
    by (intro main_returns [where t = "([], 15, 0)"] demo_program_ok(1) addrs) (simp_all add: parts)
  then show ?thesis unfolding parts by auto
qed

text \<open>The exit code does not tell that a start-up failed: the code of the request is kept but not returned.\<close>

lemma error_code_not_returned:
  assumes "main_body L bus sigmask_ok pk pton ntop cfg args e es0 es turns evs = Some (code, s)" and "sigmask_ok"
  shows "code = 0"
  using assms by (auto simp: main_body_def Let_def bind_eq_Some_conv split: if_splits)

end
