(* ===== verification/Log_Output.thy ===== *)
theory Log_Output
  imports Sox_Prelude Complex_Main
begin

text \<open>
  \<open>src/Src/ILogger.h\<close>, \<open>ILoggerFactory.h\<close>, \<open>LogWriter.*\<close>, \<open>StdioLogger.*\<close> and
  \<open>StdioLoggerFactory.*\<close>: the log.  A log statement makes a writer, which takes the lock all loggers
  share and prints a header, writes what is inserted into it and, at the end of the statement, closes
  the line and gives the lock back.  The threads of the program log at the same time: a run is a
  sequence of operations, each of one thread, and an operation that would have to wait for the lock is
  not possible.
\<close>

section \<open>Formatting\<close>

text \<open>
  \<open>std::fixed << std::setprecision(2)\<close>: two decimals, the nearest ones to the exact value of the
  \<open>double\<close>, the even one of two; \<open>std::setw\<close> with \<open>std::setfill\<close> pads on the left.
\<close>

definition digit :: "nat \<Rightarrow> char" where
  "digit n = char_of (48 + n)"

fun decimal :: "nat \<Rightarrow> string" where
  "decimal n = (if n < 10 then [digit n] else decimal (n div 10) @ [digit (n mod 10)])"

declare decimal.simps [simp del]

definition round_even :: "rat \<Rightarrow> int" where
  "round_even x =
     (let f = \<lfloor>x\<rfloor>; r = x - of_int f
      in if r < 1 / 2 then f else if r > 1 / 2 then f + 1 else if even f then f else f + 1)"

definition fixed2 :: "rat \<Rightarrow> string" where
  "fixed2 t =
     (let n = nat (round_even (\<bar>t\<bar> * 100))
      in (if t < 0 then ''-'' else []) @ decimal (n div 100) @ ''.'' @ [digit (n div 10 mod 10), digit (n mod 10)])"

definition setw :: "int \<Rightarrow> char \<Rightarrow> string \<Rightarrow> string" where
  "setw w fill s = replicate (nat w - length s) fill @ s"

lemma length_setw [simp]: "length (setw w fill s) = max (nat w) (length s)"
  by (simp add: setw_def)

section \<open>The writer\<close>

datatype log_stream = Cout | Cerr

text \<open>What is inserted: a value as its text, \<open>std::endl\<close>, or another manipulator and what it writes.\<close>

datatype log_item = Text string | Endl | Manip string

text \<open>The arguments of the constructor of \<open>LogWriter\<close>; \<open>lh_time\<close> is the value of the \<open>double\<close>.\<close>

record log_header =
  lh_output :: log_stream
  lh_time :: rat
  lh_type :: string
  lh_typeWD :: int
  lh_name :: string
  lh_nameWD :: int

record log_writer =
  lw_output :: log_stream
  lw_endl :: bool

text \<open>The lock with the writer that holds it and its thread, and what the streams have received.\<close>

record log_world =
  lg_lock :: "(nat \<times> log_writer) option"
  lg_out :: "log_stream \<Rightarrow> string"

definition newline :: char where "newline = char_of (10 :: nat)"

definition emit :: "log_stream \<Rightarrow> string \<Rightarrow> log_world \<Rightarrow> log_world" where
  "emit out s w = w\<lparr>lg_out := (lg_out w)(out := lg_out w out @ s)\<rparr>"

definition header_text :: "log_header \<Rightarrow> string" where
  "header_text h =
     ''['' @ setw 6 CHR ''0'' (fixed2 (lh_time h)) @ ''|'' @ setw (lh_typeWD h) CHR '' '' (lh_type h) @ ''|'' @
     setw (lh_nameWD h) CHR '' '' (lh_name h) @ '']: ''"

definition LogWriter :: "nat \<Rightarrow> log_header \<Rightarrow> log_world \<Rightarrow> log_world option" where
  "LogWriter t h w =
     (case lg_lock w of
        Some holder \<Rightarrow> None
      | None \<Rightarrow> Some (emit (lh_output h) (header_text h)
                 (w\<lparr>lg_lock := Some (t, \<lparr>lw_output = lh_output h, lw_endl = False\<rparr>)\<rparr>)))"

text \<open>The two overloads of \<open>operator<<\<close>.\<close>

fun writer_put :: "log_item \<Rightarrow> log_writer \<Rightarrow> string \<times> log_writer" where
  "writer_put (Text s) lw = (s, lw\<lparr>lw_endl := False\<rparr>)"
| "writer_put Endl lw = ([newline], lw\<lparr>lw_endl := True\<rparr>)"
| "writer_put (Manip s) lw = (s, lw)"

definition LogWriter_put :: "nat \<Rightarrow> log_item \<Rightarrow> log_world \<Rightarrow> log_world option" where
  "LogWriter_put t x w =
     (case lg_lock w of
        None \<Rightarrow> None
      | Some (u, lw) \<Rightarrow>
          if u \<noteq> t then None
          else let (s, lw') = writer_put x lw in Some (emit (lw_output lw) s (w\<lparr>lg_lock := Some (u, lw')\<rparr>)))"

definition LogWriter_end :: "nat \<Rightarrow> log_world \<Rightarrow> log_world option" where
  "LogWriter_end t w =
     (case lg_lock w of
        None \<Rightarrow> None
      | Some (u, lw) \<Rightarrow>
          if u \<noteq> t then None
          else Some ((if lw_endl lw then w else emit (lw_output lw) [newline] w)\<lparr>lg_lock := None\<rparr>))"

section \<open>Loggers\<close>

record stdio_logger =
  sl_name :: string
  sl_initialTime :: rat

text \<open>
  \<open>Info\<close>, \<open>Warning\<close> and \<open>Error\<close> pass the time since the start, computed by the caller of these
  definitions from the clock, and the width of the name column as it is when they are called.
\<close>

definition logger_header :: "log_stream \<Rightarrow> string \<Rightarrow> rat \<Rightarrow> 32 word \<Rightarrow> stdio_logger \<Rightarrow> log_header" where
  "logger_header out type time wd lg =
     \<lparr>lh_output = out, lh_time = time, lh_type = type, lh_typeWD = 4, lh_name = sl_name lg, lh_nameWD = sint wd\<rparr>"

definition Info :: "rat \<Rightarrow> 32 word \<Rightarrow> stdio_logger \<Rightarrow> log_header" where
  "Info time wd lg = logger_header Cout ''INFO'' time wd lg"

definition Warning :: "rat \<Rightarrow> 32 word \<Rightarrow> stdio_logger \<Rightarrow> log_header" where
  "Warning time wd lg = logger_header Cout ''WARN'' time wd lg"

definition Error :: "rat \<Rightarrow> 32 word \<Rightarrow> stdio_logger \<Rightarrow> log_header" where
  "Error time wd lg = logger_header Cerr ''ERR'' time wd lg"

record stdio_logger_factory =
  maxNameWD :: "32 word"
  creationTime :: rat

definition StdioLoggerFactory :: "rat \<Rightarrow> stdio_logger_factory" where
  "StdioLoggerFactory time = \<lparr>maxNameWD = 1, creationTime = time\<rparr>"

definition CreateLogger :: "string \<Rightarrow> stdio_logger_factory \<Rightarrow> stdio_logger \<times> stdio_logger_factory" where
  "CreateLogger name f =
     (let f' = (if length name > unat (maxNameWD f) then f\<lparr>maxNameWD := of_nat (length name)\<rparr> else f)
      in (\<lparr>sl_name = name, sl_initialTime = creationTime f\<rparr>, f'))"

text \<open>The loggers \<open>main\<close> creates for the parts of the program.\<close>

definition main_loggers :: "rat \<Rightarrow> stdio_logger list \<times> stdio_logger_factory" where
  "main_loggers time =
     fold (\<lambda>name (ls, f). let (lg, f') = CreateLogger name f in (ls @ [lg], f'))
       [''Main'', ''Dispatcher'', ''JobFactory'', ''Listener'', ''TCPCommSvc'', ''MSGBroker'']
       ([], StdioLoggerFactory time)"

section \<open>Runs of several threads\<close>

datatype log_op = Construct log_header | Put log_item | Destroy

fun log_step :: "nat \<times> log_op \<Rightarrow> log_world \<Rightarrow> log_world option" where
  "log_step (t, Construct h) w = LogWriter t h w"
| "log_step (t, Put x) w = LogWriter_put t x w"
| "log_step (t, Destroy) w = LogWriter_end t w"

primrec log_run :: "(nat \<times> log_op) list \<Rightarrow> log_world \<Rightarrow> log_world option" where
  "log_run [] w = Some w"
| "log_run (e # es) w = Option.bind (log_step e w) (log_run es)"

definition log_start :: log_world where
  "log_start = \<lparr>lg_lock = None, lg_out = (\<lambda>_. [])\<rparr>"

text \<open>A log statement is its header and the items inserted; \<open>statement_ops\<close> are its operations.\<close>

type_synonym log_statement = "log_header \<times> log_item list"

definition statement_ops :: "log_statement \<Rightarrow> log_op list" where
  "statement_ops st = Construct (fst st) # map Put (snd st) @ [Destroy]"

definition ops_of :: "nat \<Rightarrow> (nat \<times> log_op) list \<Rightarrow> log_op list" where
  "ops_of t es = map snd (filter (\<lambda>e. fst e = t) es)"

section \<open>Records\<close>

text \<open>
  The text a statement stands for, without reference to the writer: a header, the items, and a
  newline unless the last item that is not a manipulator was \<open>std::endl\<close>.
\<close>

fun item_text :: "log_item \<Rightarrow> string" where
  "item_text (Text s) = s"
| "item_text Endl = [newline]"
| "item_text (Manip s) = s"

fun is_manip :: "log_item \<Rightarrow> bool" where
  "is_manip (Manip s) = True"
| "is_manip x = False"

definition closed_line :: "log_item list \<Rightarrow> bool" where
  "closed_line xs \<longleftrightarrow> (let ys = filter (\<lambda>x. \<not> is_manip x) xs in ys \<noteq> [] \<and> last ys = Endl)"

definition record_text :: "log_statement \<Rightarrow> string" where
  "record_text st =
     header_text (fst st) @ concat (map item_text (snd st)) @ (if closed_line (snd st) then [] else [newline])"

text \<open>What a stream holds after a sequence of statements.\<close>

definition log_text :: "log_stream \<Rightarrow> log_statement list \<Rightarrow> string" where
  "log_text out sts = concat (map record_text (filter (\<lambda>st. lh_output (fst st) = out) sts))"

lemma log_text_append [simp]: "log_text out (xs @ ys) = log_text out xs @ log_text out ys"
  by (simp add: log_text_def)

lemma log_text_simps [simp]:
  "log_text out [] = []"
  "log_text out (st # sts) = (if lh_output (fst st) = out then record_text st else []) @ log_text out sts"
  by (simp_all add: log_text_def)

text \<open>Without other manipulators every record is closed by a newline.\<close>

lemma record_text_newline:
  assumes "\<forall>x \<in> set (snd st). \<not> is_manip x"
  shows "last (record_text st) = newline"
proof -
  have "filter (\<lambda>x. \<not> is_manip x) (snd st) = snd st"
    using assms by (simp add: filter_id_conv)
  then show ?thesis
    by (cases "snd st" rule: rev_cases) (auto simp: record_text_def closed_line_def)
qed

lemma log_text_newline:
  assumes "\<forall>st \<in> set sts. \<forall>x \<in> set (snd st). \<not> is_manip x"
  shows "log_text out sts = [] \<or> last (log_text out sts) = newline"
  using assms
proof (induction sts rule: rev_induct)
  case (snoc st sts)
  have "record_text st \<noteq> []" by (simp add: record_text_def header_text_def)
  then show ?case using snoc record_text_newline [of st] by auto
qed simp

lemma closed_line_snoc [simp]:
  "closed_line []  = False"
  "closed_line (xs @ [x]) = (case x of Text s \<Rightarrow> False | Endl \<Rightarrow> True | Manip s \<Rightarrow> closed_line xs)"
  by (auto simp: closed_line_def Let_def split: log_item.splits)

section \<open>What a run has written\<close>

lemma lg_out_emit [simp]: "lg_out (emit out s w) out' = (if out' = out then lg_out w out @ s else lg_out w out')"
  by (simp add: emit_def)

lemma lg_lock_emit [simp]: "lg_lock (emit out s w) = lg_lock w"
  by (simp add: emit_def)

definition trace_of :: "(nat \<times> log_statement) list \<Rightarrow> (nat \<times> log_op) list" where
  "trace_of rs = concat (map (\<lambda>(t, st). map (Pair t) (statement_ops st)) rs)"

text \<open>
  After the whole statements \<open>rs\<close> and, when a writer holds the lock, the header \<open>h\<close> and the items \<open>xs\<close>
  of the statement in progress.
\<close>

definition log_at :: "(nat \<times> log_statement) list \<Rightarrow> (nat \<times> log_op) list \<Rightarrow> log_world \<Rightarrow> bool" where
  "log_at rs es w \<longleftrightarrow>
     (case lg_lock w of
        None \<Rightarrow> es = trace_of rs \<and> (\<forall>out. lg_out w out = log_text out (map snd rs))
      | Some (t, lw) \<Rightarrow> \<exists>h xs. es = trace_of rs @ (t, Construct h) # map (\<lambda>x. (t, Put x)) xs \<and>
          lw = \<lparr>lw_output = lh_output h, lw_endl = closed_line xs\<rparr> \<and>
          (\<forall>out. lg_out w out = log_text out (map snd rs) @
             (if out = lh_output h then header_text h @ concat (map item_text xs) else [])))"

lemma trace_of_snoc [simp]: "trace_of (rs @ [(t, st)]) = trace_of rs @ map (Pair t) (statement_ops st)"
  by (simp add: trace_of_def)

lemma log_at_Construct:
  assumes "log_at rs es w" and "LogWriter t h w = Some w'"
  shows "log_at rs (es @ [(t, Construct h)]) w'"
  using assms by (auto simp: log_at_def LogWriter_def split: option.splits intro!: exI [of _ h] exI [of _ "[]"])

lemma log_at_Put:
  assumes "log_at rs es w" and "LogWriter_put t x w = Some w'"
  shows "log_at rs (es @ [(t, Put x)]) w'"
proof -
  obtain lw where lock: "lg_lock w = Some (t, lw)"
    using assms(2) by (auto simp: LogWriter_put_def split: option.splits if_splits)
  then obtain h xs where at: "es = trace_of rs @ (t, Construct h) # map (\<lambda>x. (t, Put x)) xs"
    "lw = \<lparr>lw_output = lh_output h, lw_endl = closed_line xs\<rparr>"
    "\<And>out. lg_out w out = log_text out (map snd rs) @
       (if out = lh_output h then header_text h @ concat (map item_text xs) else [])"
    using assms(1) by (auto simp: log_at_def)
  have "lg_lock w' = Some (t, \<lparr>lw_output = lh_output h, lw_endl = closed_line (xs @ [x])\<rparr>)"
    "\<And>out. lg_out w' out = log_text out (map snd rs) @
       (if out = lh_output h then header_text h @ concat (map item_text (xs @ [x])) else [])"
    using assms(2) lock at(2,3) by (cases x; auto simp: LogWriter_put_def)+
  then show ?thesis
    using at(1) by (auto simp: log_at_def intro!: exI [of _ h] exI [of _ "xs @ [x]"])
qed

lemma log_at_Destroy:
  assumes "log_at rs es w" and "LogWriter_end t w = Some w'"
  shows "\<exists>st. log_at (rs @ [(t, st)]) (es @ [(t, Destroy)]) w'"
proof -
  obtain lw where lock: "lg_lock w = Some (t, lw)"
    using assms(2) by (auto simp: LogWriter_end_def split: option.splits if_splits)
  then obtain h xs where at: "es = trace_of rs @ (t, Construct h) # map (\<lambda>x. (t, Put x)) xs"
    "lw = \<lparr>lw_output = lh_output h, lw_endl = closed_line xs\<rparr>"
    "\<And>out. lg_out w out = log_text out (map snd rs) @
       (if out = lh_output h then header_text h @ concat (map item_text xs) else [])"
    using assms(1) by (auto simp: log_at_def)
  have "log_at (rs @ [(t, (h, xs))]) (es @ [(t, Destroy)]) w'"
    using assms(2) lock at
    by (auto simp: log_at_def LogWriter_end_def statement_ops_def record_text_def comp_def)
  then show ?thesis ..
qed

lemma log_run_append: "log_run (es @ es') w = Option.bind (log_run es w) (log_run es')"
proof (induction es arbitrary: w)
  case (Cons e es)
  then show ?case by (cases "log_step e w") simp_all
qed simp

lemma log_run_at:
  assumes "log_run es log_start = Some w"
  shows "\<exists>rs. log_at rs es w"
  using assms
proof (induction es arbitrary: w rule: rev_induct)
  case Nil
  then show ?case by (intro exI [of _ "[]"]) (auto simp: log_at_def log_start_def trace_of_def)
next
  case (snoc e es)
  then obtain w1 where w1: "log_run es log_start = Some w1" "log_step e w1 = Some w"
    by (auto simp: log_run_append bind_eq_Some_conv)
  obtain rs where rs: "log_at rs es w1"
    using snoc.IH [OF w1(1)] ..
  obtain t op where e: "e = (t, op)" by fastforce
  show ?case
    using w1(2) log_at_Construct [OF rs] log_at_Put [OF rs] log_at_Destroy [OF rs]
    unfolding e by (cases op) (auto, blast+)
qed

text \<open>The operations of one thread determine its statements.\<close>

lemma ops_of_trace: "ops_of t (trace_of rs) = concat (map statement_ops (map snd (filter (\<lambda>r. fst r = t) rs)))"
  by (induction rs) (auto simp: trace_of_def ops_of_def comp_def statement_ops_def)

lemma put_prefix:
  assumes "map Put xs @ Destroy # r = map Put ys @ Destroy # r'"
  shows "xs = ys \<and> r = r'"
  using assms
proof (induction xs arbitrary: ys)
  case Nil
  then show ?case by (cases ys) auto
next
  case (Cons x xs)
  then show ?case by (cases ys) auto
qed

lemma statements_unique:
  assumes "concat (map statement_ops as) = concat (map statement_ops bs)"
  shows "as = bs"
  using assms
proof (induction as arbitrary: bs)
  case Nil
  then show ?case by (cases bs) (simp_all add: statement_ops_def)
next
  case (Cons a as)
  then obtain b bs' where bs: "bs = b # bs'"
    by (cases bs) (simp_all add: statement_ops_def)
  have "fst a = fst b \<and> snd a = snd b \<and> concat (map statement_ops as) = concat (map statement_ops bs')"
    using Cons.prems put_prefix [of "snd a" "concat (map statement_ops as)" "snd b" "concat (map statement_ops bs')"]
    unfolding bs by (simp add: statement_ops_def [of a] statement_ops_def [of b])
  then show ?case
    using Cons.IH [of bs'] bs by (simp add: prod_eq_iff)
qed

section \<open>Columns\<close>

text \<open>
  The factory's width is at least one and never below the length of a name it was given, so a header
  printed with it has all names in one column: its length does not depend on logger and severity.
\<close>

lemma CreateLogger_width:
  assumes "CreateLogger name f = (lg, f')" and "length name < 2 ^ 31" and "unat (maxNameWD f) < 2 ^ 31"
  shows "unat (maxNameWD f') = max (unat (maxNameWD f)) (length name)"
  using assms by (auto simp: CreateLogger_def Let_def unat_of_nat take_bit_nat_eq_self max_def split: if_splits)

lemma header_length:
  assumes "h \<in> {Info time wd lg, Warning time wd lg, Error time wd lg}"
    and "length (sl_name lg) \<le> unat wd" and "unat wd < 2 ^ 31"
  shows "length (header_text h) = max 6 (length (fixed2 time)) + unat wd + 10"
proof -
  have "uint wd < 2 ^ 31"
    using assms(3) by (metis of_nat_less_iff of_nat_numeral of_nat_power uint_nat)
  then have "sint wd = int (unat wd)"
    using signed_take_bit_int_eq_self [of 31 "uint wd"] order_trans [of "- (2 ^ 31)" 0 "uint wd"]
    by (simp add: sint_uint)
  then show ?thesis
    using assms(1,2) by (auto simp: header_text_def Info_def Warning_def Error_def logger_header_def)
qed

text \<open>The names of the parts of the program fit into the column of their headers.\<close>

lemma main_loggers_fit:
  assumes "(ls, f) = main_loggers time"
  shows "\<forall>lg \<in> set ls. length (sl_name lg) \<le> unat (maxNameWD f)" and "unat (maxNameWD f) = 10"
  using assms by (simp_all add: main_loggers_def CreateLogger_def StdioLoggerFactory_def Let_def)

text \<open>A demonstration: two threads, the second one without \<open>std::endl\<close>, on both streams.\<close>

definition demo_log :: "nat \<Rightarrow> log_statement list" where
  "demo_log t =
     (let (main, f) = CreateLogger ''Main'' (StdioLoggerFactory 7);
          (disp, f) = CreateLogger ''Dispatcher'' f
      in if t = 0 then [(Info (5 / 4) (maxNameWD f) main, [Text ''Starting up'']),
                        (Error 3 (maxNameWD f) main, [Text ''Failed: '', Text ''2'', Endl])]
         else if t = 1 then [(Warning 2 (maxNameWD f) disp, [Text ''Full'', Endl])]
         else [])"

definition demo_log_run :: "(nat \<times> log_op) list" where
  "demo_log_run =
     map (Pair 0) (statement_ops (demo_log 0 ! 0)) @ map (Pair 1) (statement_ops (demo_log 1 ! 0)) @
     map (Pair 0) (statement_ops (demo_log 0 ! 1))"

lemma demo_log_widths: "snd (CreateLogger ''Dispatcher'' (snd (CreateLogger ''Main'' (StdioLoggerFactory 7)))) =
    \<lparr>maxNameWD = 10, creationTime = 7\<rparr>"
  by code_simp

lemma demo_log_record:
  "record_text (demo_log 0 ! 0) = ''[001.25|INFO|      Main]: Starting up'' @ [newline]"
  by code_simp

lemma demo_log_runs:
  "map_option (\<lambda>w. (lg_lock w = None, lg_out w Cerr)) (log_run demo_log_run log_start) =
    Some (True, ''[003.00| ERR|      Main]: Failed: 2'' @ [newline])"
  by code_simp

text \<open>
  C33. The log is made of whole records.  However the threads interleave, when every thread has
  carried out the log statements of its program, each of the two streams holds the records of the
  statements written to it, uncut, in one order of all statements (the order in which they took the
  lock) that keeps the order of every thread; and it ends with a complete line.
\<close>

theorem log_records_whole:
  assumes run: "log_run es log_start = Some w" and free: "lg_lock w = None"
    and prog: "\<And>t. ops_of t es = concat (map statement_ops (prog t))"
    and plain: "\<And>t st x. st \<in> set (prog t) \<Longrightarrow> x \<in> set (snd st) \<Longrightarrow> \<not> is_manip x"
  shows "\<exists>rs. (\<forall>t. map snd (filter (\<lambda>r. fst r = t) rs) = prog t) \<and>
    (\<forall>out. lg_out w out = concat (map record_text (filter (\<lambda>st. lh_output (fst st) = out) (map snd rs))) \<and>
       (lg_out w out = [] \<or> last (lg_out w out) = newline))"
proof -
  obtain rs where rs: "es = trace_of rs" "\<And>out. lg_out w out = log_text out (map snd rs)"
    using log_run_at [OF run] free by (auto simp: log_at_def)
  have order: "map snd (filter (\<lambda>r. fst r = t) rs) = prog t" for t
    using prog [of t] unfolding rs(1) ops_of_trace by (rule statements_unique)
  have "\<forall>st \<in> set (map snd rs). \<forall>x \<in> set (snd st). \<not> is_manip x"
  proof
    fix st assume "st \<in> set (map snd rs)"
    then obtain t where "(t, st) \<in> set rs" by auto
    then have "st \<in> set (map snd (filter (\<lambda>r. fst r = t) rs))" by force
    then show "\<forall>x \<in> set (snd st). \<not> is_manip x"
      using plain unfolding order by blast
  qed
  then show ?thesis
    using order rs(2) log_text_newline [of "map snd rs"] by (intro exI [of _ rs]) (simp add: log_text_def)
qed

lemma demo_log_ops: "ops_of t demo_log_run = concat (map statement_ops (demo_log t))"
proof -
  have "ops_of 0 demo_log_run = concat (map statement_ops (demo_log 0))"
    "ops_of 1 demo_log_run = concat (map statement_ops (demo_log 1))"
    by code_simp+
  moreover have "ops_of t demo_log_run = []" if "t \<noteq> 0" "t \<noteq> 1"
    using that by (auto simp: ops_of_def demo_log_run_def filter_empty_conv)
  ultimately show ?thesis
    by (cases "t = 0 \<or> t = 1") (auto simp: demo_log_def)
qed

lemma demo_log_plain: "list_all (\<lambda>st. list_all (\<lambda>x. \<not> is_manip x) (snd st)) (demo_log t)"
  by (simp add: demo_log_def CreateLogger_def StdioLoggerFactory_def Let_def)

theorem log_records_whole_witness:
  "\<exists>w rs. log_run demo_log_run log_start = Some w \<and> (\<forall>t. map snd (filter (\<lambda>r. fst r = t) rs) = demo_log t) \<and>
     (\<forall>out. lg_out w out = concat (map record_text (filter (\<lambda>st. lh_output (fst st) = out) (map snd rs))) \<and>
       (lg_out w out = [] \<or> last (lg_out w out) = newline))"
proof -
  obtain w where w: "log_run demo_log_run log_start = Some w" "lg_lock w = None"
    using demo_log_runs by auto
  show ?thesis
    using w log_records_whole [OF w demo_log_ops] demo_log_plain by (force simp: list_all_iff)
qed

end
