(* ===== verification/Spec2Isabelle.thy ===== *)
theory Spec2Isabelle
  imports Client_Lifecycle Main_Lifecycle Log_Output
begin

text \<open>
  TinySox is a SOCKS5 server for Linux.  A listener thread accepts clients; the communication service
  owns every socket and hands out handlers, each with a reader and a writer; the job dispatcher runs
  jobs on worker threads; a client's first job is the handshake, which authenticates the client,
  connects its target and ends in two tunnel jobs, one for each direction.  The parts know each other
  through interfaces and talk over a message bus; the main thread starts them, drops privileges, waits
  for a signal and stops them.  This development models all of it, in shallow embedding: one theory
  (or group of theories) per part, each operation of the source a function or a step of a relation.

  \<^bold>\<open>Conventions.\<close>  The sources are under \<open>src/Src\<close>; definitions have the names of the functions they
  translate, with a suffix or prefix where a name is overloaded or taken.  Classes are records, results and
  messages are datatypes, integers whose width matters are words, \<open>int\<close> values are integers that stay in
  range (\<open>atoi\<close> is undefined, \<open>None\<close>, outside).  Early returns are \<open>Inl\<close> in the step type of
  \<open>Sox_Prelude\<close>.  Reads outside an object are \<open>None\<close> or \<open>HS_Undefined\<close>, never an arbitrary value.  What
  is not under \<open>src\<close> is a parameter: the kernel (\<open>Sys_Calls\<close>: it answers each system call from the
  history of calls), \<open>inet_pton\<close>, \<open>inet_ntop\<close>, libudns, the byte order of the host, \<open>errno\<close> where the source
  reads it.  Time, other threads and peers enter as scripts: a transfer is given the notifications, timeouts and
  results of the system calls it will see; nothing is assumed about them except where a theorem says so.

  \<^bold>\<open>Values.\<close>  \<open>IP_Address\<close> and \<open>IP_Endpoint\<close> (\<open>IPAddress.*\<close>, \<open>IPEndpoint.*\<close>): storage, construction,
  wire form, hash, comparison.  Shown: addresses are linearly ordered (instance of \<open>linorder\<close>), round trips
  with socket addresses and with the wire form; endpoints are not ordered by \<open>Less\<close>, and the port of a
  socket address is taken without \<open>ntohs\<close>.  \<open>Sox_Config\<close> (\<open>Config.*\<close>, \<open>IConfig.h\<close>, \<open>User.h\<close>) has the
  configuration object with its uninitialised members as \<open>None\<close>; \<open>Command_Line\<close> the first half of \<open>main\<close>
  in \<open>Main.cpp\<close>: arguments are read back as given, each accepted configuration is initialised and in bounds.

  \<^bold>\<open>Claims.\<close>  \<open>Handler_Claims\<close> (\<open>HandlerClaim.*\<close>, \<open>State.*\<close>, \<open>ImmutableStorage.h\<close>): claims are shared
  objects, so they live in a heap and a job state holds references.  Each operation is an addition to the counters of its
  references; of several releases, interleaved in any way, exactly the last one sees the end.

  \<^bold>\<open>Sockets.\<close>  \<open>Comm_Helper\<close> (\<open>TCPCommHelper.*\<close>, \<open>ICommHelper.h\<close>): \<open>Transfer\<close> as the loop of the source, on a
  script of the environment; where the script ends the environment is quiet and the wait times out, so the recursion is
  structural and needs no fuel.  Its notification counter refines a link that is open, hung up or cancelled.  The contract of a helper is
  the locale \<open>icomm_helper\<close> in \<open>Jobs\<close>, interpreted on it.  \<open>Comm_Service\<close> (\<open>TCPCommService.*\<close>, \<open>ICommService.h\<close>,
  \<open>ICommManager.h\<close>): handler table, connecting, adopting, disposing, the epoll thread.  Its contract is the locale
  \<open>icomm_service\<close>; shown besides: sockets are conserved, events reach exactly their handlers, a shutdown ends all
  transfers.

  \<^bold>\<open>Jobs.\<close>  \<open>Client_Handshake\<close> (\<open>Job_ClientHandshake.*\<close>) is written over the interfaces (\<open>hs_ops\<close>), as the source
  is.  \<open>Socks_Session\<close> states the protocol (RFC 1928, 1929) without the code, and in the locale \<open>handshake_io\<close> shows that
  the handshake follows it; \<open>Handshake_Claims\<close> follows the claims, in the locale \<open>target_tracking\<close>; \<open>Handshake_Net\<close> puts the
  handshake on the communication service (interpretations of the locales); \<open>Handshake_Live\<close> and \<open>Handshake_Theorems\<close> show
  that it connects exactly authorised clients to what they asked for.  \<open>TCP_Tunnel\<close> (\<open>Job_TCPTunnel.*\<close>): the loops are
  partial functions, since a tunnel may run for ever; not returning is \<open>None\<close>.  What it delivers is stated in any environment
  (locale \<open>tunnel_io\<close>), and that it ends after a cancel is a theorem of its own.  \<open>Job_Factory\<close> (\<open>JobFactory.*\<close>) says what
  follows a result.  \<open>Client_Lifecycle\<close> composes service, factory, handshake and tunnels: a client leaves no
  handler and no socket behind.

  \<^bold>\<open>Threads and messages.\<close>  \<open>Message_Broker\<close> (\<open>IMessage*.h\<close>, \<open>MessageBroker.*\<close>): subscribers may send from within a
  delivery.  The release build is run with fuel; on a bus whose subscribers are ranked (locale \<open>ranked_subscribers\<close>) a fuel of
  two is enough for the program, and the debug build ends by itself.  \<open>Lifecycle_Handlers\<close> (\<open>StartupHandler.*\<close>,
  \<open>ShutdownHandler.*\<close>), \<open>Job_Workers\<close> (\<open>WorkerBase.*\<close>, \<open>JobWorker*\<close>, \<open>IJobWorker*.h\<close>; locale \<open>worker_thread\<close>).  The
  dispatcher (\<open>JobDispatcher.*\<close>) is a step relation over the program counters of its background thread, of the calls of
  \<open>OnMessage\<close> and of the workers, with locks as guards (\<open>Job_Dispatcher\<close>); \<open>Dispatcher_Invariant\<close> and \<open>Dispatcher_Shutdown\<close> show an
  inductive invariant of it, that it never deadlocks, and that a shutdown ends, bounded by a measure.  \<open>Server_Listener\<close>
  (\<open>TCPServerListener.*\<close>; locale \<open>numbering_service\<close>, which extends \<open>icomm_service\<close>) is run turn by turn of its loop.

  \<^bold>\<open>The program.\<close>  \<open>Sox_System\<close> lays the objects out on one bus as \<open>main\<close> does, and shows that a message is the direct call of
  those it is meant for (interpretation of \<open>ranked_subscribers\<close>).  \<open>Sox_Main\<close> is the second half of \<open>main\<close>: the
  privileged start-up, the signal loop and the shutdown (locale \<open>shutdown_bus\<close>); either every restriction asked for was
  applied, or the program is shutting down.  \<open>Log_Output\<close> (\<open>LogWriter.*\<close>, \<open>StdioLogger*\<close>, \<open>ILogger*.h\<close>) is the log of all threads.

  \<^bold>\<open>Not modelled.\<close>  The text of log messages at the places that log and of the usage message (\<open>Main.cpp\<close>, \<open>usage\<close>), which
  no part reads; the clock behind the time column of the log; the stream output of endpoints; \<open>reserve\<close> and other capacity
  hints; copy constructors, since values are immutable.  Allocation does not fail, \<open>std::thread\<close> starts its thread, and each
  atomic operation or lock-protected block is one step.  In \<open>Handshake_Net\<close> the service changes by the calls of the one
  handshake only; other threads reach its client through the scripts of the transfers.
\<close>

end
